(* ===== verification/Float64.thy ===== *)
theory Float64
  imports Complex_Main "HOL-Library.Word"
begin

text \<open>
  Go's \<open>float64\<close>: IEEE-754 binary64 with round-to-nearest, ties-to-even.  A finite value is
  the rational it denotes; each operation computes the exact rational result and rounds it
  with \<open>round64\<close>, which is the standard's definition of the operation.  The two zeros are one
  value: the code compares with \<open>==\<close> and \<open><\<close>, which do not tell them apart, and
  guards or fixes the sign of every divisor that can be zero.
\<close>

section \<open>Rounding to 53 significant bits\<close>

datatype f64 = FNaN | FPInf | FNInf | FFin rat

fun ilog2 :: "int \<Rightarrow> nat" where
  "ilog2 n = (if n < 2 then 0 else Suc (ilog2 (n div 2)))"

declare ilog2.simps [simp del]

definition flog2 :: "rat \<Rightarrow> int" where
  "flog2 q = (if 1 \<le> q then int (ilog2 \<lfloor>q\<rfloor>)
     else let k = ilog2 \<lfloor>1 / q\<rfloor> in if q * 2 ^ k = 1 then - int k else - int k - 1)"

definition rne :: "rat \<Rightarrow> int" where
  "rne x = (let f = \<lfloor>x\<rfloor>; r = x - of_int f in
     if r < 1 / 2 then f else if 1 / 2 < r then f + 1 else if even f then f else f + 1)"

definition ulp64 :: "rat \<Rightarrow> rat" where
  "ulp64 q = 2 powi (max (flog2 \<bar>q\<bar>) (-1022) - 52)"

definition rval :: "rat \<Rightarrow> rat" where
  "rval q = (if q = 0 then 0 else of_int (rne (q / ulp64 q)) * ulp64 q)"

definition round64 :: "rat \<Rightarrow> f64" where
  "round64 q = (let r = rval q in
     if r = 0 then FFin 0
     else if 1024 \<le> flog2 \<bar>r\<bar> then (if 0 < r then FPInf else FNInf) else FFin r)"

section \<open>Operations\<close>

fun f_lt :: "f64 \<Rightarrow> f64 \<Rightarrow> bool" where
  "f_lt (FFin a) (FFin b) = (a < b)"
| "f_lt FNInf (FFin b) = True"
| "f_lt FNInf FPInf = True"
| "f_lt (FFin a) FPInf = True"
| "f_lt _ _ = False"

fun f_eq :: "f64 \<Rightarrow> f64 \<Rightarrow> bool" where
  "f_eq (FFin a) (FFin b) = (a = b)"
| "f_eq FNInf FNInf = True"
| "f_eq FPInf FPInf = True"
| "f_eq _ _ = False"

fun f_neg :: "f64 \<Rightarrow> f64" where
  "f_neg (FFin a) = FFin (- a)"
| "f_neg FPInf = FNInf"
| "f_neg FNInf = FPInf"
| "f_neg FNaN = FNaN"

fun f_abs :: "f64 \<Rightarrow> f64" where
  "f_abs (FFin a) = FFin \<bar>a\<bar>"
| "f_abs FPInf = FPInf"
| "f_abs FNInf = FPInf"
| "f_abs FNaN = FNaN"

fun f_add :: "f64 \<Rightarrow> f64 \<Rightarrow> f64" where
  "f_add (FFin a) (FFin b) = round64 (a + b)"
| "f_add FPInf (FFin b) = FPInf"
| "f_add FPInf FPInf = FPInf"
| "f_add (FFin a) FPInf = FPInf"
| "f_add FNInf (FFin b) = FNInf"
| "f_add FNInf FNInf = FNInf"
| "f_add (FFin a) FNInf = FNInf"
| "f_add _ _ = FNaN"

definition f_sub :: "f64 \<Rightarrow> f64 \<Rightarrow> f64" where
  "f_sub x y = f_add x (f_neg y)"

definition f_inf_signed :: "rat \<Rightarrow> f64" where
  "f_inf_signed s = (if s = 0 then FNaN else if 0 < s then FPInf else FNInf)"

fun f_mul :: "f64 \<Rightarrow> f64 \<Rightarrow> f64" where
  "f_mul (FFin a) (FFin b) = round64 (a * b)"
| "f_mul FPInf (FFin b) = f_inf_signed b"
| "f_mul FNInf (FFin b) = f_inf_signed (- b)"
| "f_mul (FFin a) FPInf = f_inf_signed a"
| "f_mul (FFin a) FNInf = f_inf_signed (- a)"
| "f_mul FPInf FPInf = FPInf"
| "f_mul FNInf FNInf = FPInf"
| "f_mul FPInf FNInf = FNInf"
| "f_mul FNInf FPInf = FNInf"
| "f_mul _ _ = FNaN"

text \<open>A zero divisor counts as \<open>+0\<close>.\<close>

fun f_div :: "f64 \<Rightarrow> f64 \<Rightarrow> f64" where
  "f_div (FFin a) (FFin b) = (if b = 0 then f_inf_signed a else round64 (a / b))"
| "f_div FPInf (FFin b) = (if 0 \<le> b then FPInf else FNInf)"
| "f_div FNInf (FFin b) = (if 0 \<le> b then FNInf else FPInf)"
| "f_div (FFin a) FPInf = FFin 0"
| "f_div (FFin a) FNInf = FFin 0"
| "f_div _ _ = FNaN"

definition f_of_int :: "int \<Rightarrow> f64" where
  "f_of_int n = round64 (of_int n)"

section \<open>Evaluation\<close>

lemma rat_floor_eval:
  "\<lfloor>numeral a / numeral b :: rat\<rfloor> = numeral a div numeral b"
  "\<lfloor>- (numeral a / numeral b) :: rat\<rfloor> = - numeral a div numeral b"
  "\<lfloor>1 / numeral b :: rat\<rfloor> = 1 div numeral b"
  "\<lfloor>- (1 / numeral b) :: rat\<rfloor> = - 1 div numeral b"
  using floor_divide_of_int_eq [of "numeral a" "numeral b", where 'a = rat]
    floor_divide_of_int_eq [of "- numeral a" "numeral b", where 'a = rat]
    floor_divide_of_int_eq [of "1" "numeral b", where 'a = rat]
    floor_divide_of_int_eq [of "- 1" "numeral b", where 'a = rat]
  by simp_all

lemmas f64_eval = rat_floor_eval round64_def rval_def ulp64_def flog2_def rne_def ilog2.simps Let_def

section \<open>The binary exponent\<close>

lemma ilog2_bounds: "0 < n \<Longrightarrow> 2 ^ ilog2 n \<le> n \<and> n < 2 * 2 ^ ilog2 n"
proof (induction n rule: ilog2.induct)
  case (1 n)
  show ?case
  proof (cases "n < 2")
    case True
    with "1.prems" show ?thesis by (simp add: ilog2.simps [of n])
  next
    case False
    with "1.IH" have "2 ^ ilog2 (n div 2) \<le> n div 2 \<and> n div 2 < 2 * 2 ^ ilog2 (n div 2)" by simp
    with False show ?thesis by (simp add: ilog2.simps [of n]) linarith
  qed
qed

lemma floor_ilog2:
  assumes "1 \<le> (x::rat)"
  shows "2 ^ ilog2 \<lfloor>x\<rfloor> \<le> x" and "x < 2 * 2 ^ ilog2 \<lfloor>x\<rfloor>"
proof -
  let ?n = "\<lfloor>x\<rfloor>"
  have pos: "0 < ?n" using assms by simp
  from ilog2_bounds [OF pos] have b: "2 ^ ilog2 ?n \<le> ?n" "?n + 1 \<le> 2 * 2 ^ ilog2 ?n" by auto
  have "(of_int (2 ^ ilog2 ?n) :: rat) \<le> of_int ?n" using b(1) by (simp only: of_int_le_iff)
  also have "\<dots> \<le> x" by (rule of_int_floor_le)
  finally show "2 ^ ilog2 ?n \<le> x" by simp
  have "x < of_int (?n + 1)" using floor_correct [of x] by simp
  also have "\<dots> \<le> (of_int (2 * 2 ^ ilog2 ?n) :: rat)" using b(2) by (simp only: of_int_le_iff)
  finally show "x < 2 * 2 ^ ilog2 ?n" by simp
qed

lemma flog2_bounds_conj:
  assumes "0 < q"
  shows "2 powi flog2 q \<le> q \<and> q < 2 powi (flog2 q + 1)"
proof (cases "1 \<le> q")
  case True
  with floor_ilog2 [OF True] show ?thesis by (simp add: flog2_def power_int_add)
next
  case False
  let ?k = "ilog2 \<lfloor>1 / q\<rfloor>"
  have one: "1 \<le> 1 / q" using False assms by simp
  have lo: "2 ^ ?k * q \<le> 1" and hi: "1 < 2 * 2 ^ ?k * q"
    using floor_ilog2 [OF one] assms by (simp_all add: field_simps)
  have p0: "2 powi (- int ?k) = 1 / (2 ^ ?k :: rat)"
    by (simp add: power_int_minus field_simps)
  have p1: "2 powi (- int ?k - 1) = 1 / (2 * 2 ^ ?k :: rat)"
    by (simp add: power_int_diff power_int_minus field_simps)
  have p2: "2 powi (1 - int ?k) = 2 / (2 ^ ?k :: rat)"
    by (simp add: power_int_diff)
  show ?thesis
  proof (cases "q * 2 ^ ?k = 1")
    case True
    then have q: "q = 1 / 2 ^ ?k" by (simp add: field_simps)
    have "1 / 2 ^ ?k < (2 / 2 ^ ?k :: rat)" by (simp add: divide_strict_right_mono)
    with q have "q < 2 / 2 ^ ?k" by linarith
    with q True False show ?thesis by (simp add: flog2_def Let_def p0 p2)
  next
    case ne: False
    then have "2 ^ ?k * q < 1" using lo by (simp add: mult.commute)
    with ne False hi show ?thesis by (simp add: flog2_def Let_def p0 p1 field_simps)
  qed
qed

lemmas flog2_bounds = flog2_bounds_conj [THEN conjunct1] flog2_bounds_conj [THEN conjunct2]

lemma powi2_less_iff: "(2::rat) powi a < 2 powi b \<longleftrightarrow> a < b"
  using power_int_strict_increasing [of a b "2::rat"] power_int_increasing [of b a "2::rat"]
  by (cases "a < b") auto

lemma powi2_le_iff: "(2::rat) powi a \<le> 2 powi b \<longleftrightarrow> a \<le> b"
  using powi2_less_iff [of b a] by (simp add: not_less [symmetric])

lemma flog2_mono:
  assumes "0 < q" and "q \<le> r"
  shows "flog2 q \<le> flog2 r"
proof -
  have "(2::rat) powi flog2 q < 2 powi (flog2 r + 1)"
    using flog2_bounds(1) [OF assms(1)] flog2_bounds(2) [of r] assms by (meson less_le_trans order_trans le_less_trans)
  then show ?thesis by (simp add: powi2_less_iff)
qed

lemma flog2_unique:
  assumes "2 powi e \<le> q" and "q < 2 powi (e + 1)"
  shows "flog2 q = e"
proof -
  have pos: "0 < q" using assms(1) by (meson less_le_trans zero_less_numeral zero_less_power_int)
  have "(2::rat) powi flog2 q < 2 powi (e + 1)" using flog2_bounds(1) [OF pos] assms(2) by linarith
  moreover have "(2::rat) powi e < 2 powi (flog2 q + 1)" using flog2_bounds(2) [OF pos] assms(1) by linarith
  ultimately show ?thesis by (simp add: powi2_less_iff)
qed

section \<open>Rounding to an integer\<close>

lemma rne_of_int [simp]: "rne (of_int n) = n"
  by (simp add: rne_def Let_def)

lemma rne_cases: "rne x = \<lfloor>x\<rfloor> \<or> rne x = \<lfloor>x\<rfloor> + 1"
  by (simp add: rne_def Let_def)

lemma rne_mono: "x \<le> y \<Longrightarrow> rne x \<le> rne y"
proof -
  assume le: "x \<le> y"
  have fl: "\<lfloor>x\<rfloor> \<le> \<lfloor>y\<rfloor>" using le by (rule floor_mono)
  show ?thesis
  proof (cases "\<lfloor>x\<rfloor> = \<lfloor>y\<rfloor>")
    case True
    with le show ?thesis by (auto simp: rne_def Let_def)
  next
    case False
    with fl rne_cases [of x] rne_cases [of y] show ?thesis by linarith
  qed
qed

lemma rne_minus: "rne (- x) = - rne x"
proof (cases "x = of_int \<lfloor>x\<rfloor>")
  case True
  then obtain n where "x = of_int n" by blast
  then show ?thesis by (metis of_int_minus rne_of_int)
next
  case False
  have fx: "\<lfloor>- x\<rfloor> = - \<lfloor>x\<rfloor> - 1"
  proof (rule floor_unique)
    show "of_int (- \<lfloor>x\<rfloor> - 1) \<le> - x" using floor_correct [of x] by simp
    show "- x < of_int (- \<lfloor>x\<rfloor> - 1) + 1" using floor_correct [of x] False by (simp add: order_less_le)
  qed
  show ?thesis by (auto simp: rne_def Let_def fx)
qed

lemma rne_dist: "\<bar>of_int (rne x) - x\<bar> \<le> 1 / 2"
proof -
  define f where "f = \<lfloor>x\<rfloor>"
  have "of_int f \<le> x" "x < of_int f + 1" using floor_correct [of x] by (simp_all add: f_def)
  moreover have "rne x = (if x - of_int f < 1 / 2 then f
      else if 1 / 2 < x - of_int f then f + 1 else if even f then f else f + 1)"
    by (simp add: rne_def Let_def f_def)
  ultimately show ?thesis by (simp split: if_splits add: abs_le_iff)
qed


section \<open>Rounding to a binary64 value\<close>

lemma ulp64_pos [simp]: "0 < ulp64 q"
  by (simp add: ulp64_def)

lemma ulp64_neq_0 [simp]: "ulp64 q \<noteq> 0"
  using ulp64_pos [of q] by linarith

lemma ulp64_minus [simp]: "ulp64 (- q) = ulp64 q"
  by (simp add: ulp64_def)

lemma rval_0 [simp]: "rval 0 = 0"
  by (simp add: rval_def)

lemma rval_minus [simp]: "rval (- q) = - rval q"
  using rne_minus [of "q / ulp64 q"] by (simp add: rval_def)

lemma rval_upper:
  assumes "0 < q"
  shows "rval q \<le> 2 powi (max (flog2 q) (-1022) + 1)"
proof -
  let ?m = "max (flog2 q) (-1022)"
  have u: "ulp64 q = 2 powi (?m - 52)" using assms by (simp add: ulp64_def)
  have "q < 2 powi (flog2 q + 1)" using flog2_bounds(2) [OF assms] .
  also have "\<dots> \<le> (2::rat) powi (?m + 1)" by (simp add: powi2_le_iff)
  also have "\<dots> = 2 ^ 53 * ulp64 q" by (simp add: u power_int_add power_int_diff)
  finally have "q / ulp64 q \<le> of_int (2 ^ 53)" by (simp add: field_simps)
  then have "rne (q / ulp64 q) \<le> 2 ^ 53" using rne_mono rne_of_int by metis
  then have "(of_int (rne (q / ulp64 q)) :: rat) \<le> of_int (2 ^ 53)" by (simp only: of_int_le_iff)
  then have "rval q \<le> 2 ^ 53 * ulp64 q" using assms by (simp add: rval_def)
  also have "\<dots> = 2 powi (?m + 1)" by (simp add: u power_int_add power_int_diff)
  finally show ?thesis .
qed

lemma rval_lower:
  assumes "0 < q" and "-1022 \<le> flog2 q"
  shows "2 powi flog2 q \<le> rval q"
proof -
  have u: "ulp64 q = 2 powi (flog2 q - 52)" using assms by (simp add: ulp64_def)
  have eq: "2 ^ 52 * ulp64 q = 2 powi flog2 q" by (simp add: u power_int_diff)
  have "2 ^ 52 * ulp64 q \<le> q" using flog2_bounds(1) [OF assms(1)] eq by simp
  then have "of_int (2 ^ 52) \<le> q / ulp64 q" by (simp add: field_simps)
  then have "2 ^ 52 \<le> rne (q / ulp64 q)" using rne_mono rne_of_int by metis
  then have "of_int (2 ^ 52) \<le> (of_int (rne (q / ulp64 q)) :: rat)" by (simp only: of_int_le_iff)
  then have "2 ^ 52 * ulp64 q \<le> rval q" using assms by (simp add: rval_def)
  then show ?thesis by (simp only: eq)
qed

lemma rval_mono_pos:
  assumes "0 < q" and "q \<le> r"
  shows "rval q \<le> rval r"
proof -
  let ?m = "max (flog2 q) (-1022)" and ?n = "max (flog2 r) (-1022)"
  have r: "0 < r" using assms by simp
  have "flog2 q \<le> flog2 r" by (rule flog2_mono [OF assms])
  then consider "?m = ?n" | "?m < ?n" by linarith
  then show ?thesis
  proof cases
    case 1
    then have "ulp64 q = ulp64 r" using assms r by (simp add: ulp64_def)
    moreover have "q / ulp64 r \<le> r / ulp64 r" using assms by (simp add: divide_right_mono less_imp_le)
    ultimately show ?thesis using assms r
      by (simp add: rval_def mult_right_mono rne_mono less_imp_le)
  next
    case 2
    then have n: "?n = flog2 r" and lo: "-1022 \<le> flog2 r" by linarith+
    have "rval q \<le> 2 powi (?m + 1)" by (rule rval_upper [OF assms(1)])
    also have "\<dots> \<le> 2 powi flog2 r" using 2 n by (simp only: powi2_le_iff)
    also have "\<dots> \<le> rval r" by (rule rval_lower [OF r lo])
    finally show ?thesis .
  qed
qed

lemma rval_nonneg: "0 \<le> q \<Longrightarrow> 0 \<le> rval q"
proof (cases "q = 0")
  case False
  assume "0 \<le> q"
  then have "of_int 0 \<le> q / ulp64 q" by (simp add: less_imp_le)
  then have "0 \<le> rne (q / ulp64 q)" using rne_mono rne_of_int by metis
  then show ?thesis using False by (simp add: rval_def less_imp_le)
qed simp

lemma rval_mono: "q \<le> r \<Longrightarrow> rval q \<le> rval r"
proof -
  assume le: "q \<le> r"
  consider "0 < q" | "q \<le> 0" "0 \<le> r" | "r < 0" by linarith
  then show ?thesis
  proof cases
    case 1
    then show ?thesis using le by (rule rval_mono_pos)
  next
    case 2
    have "0 \<le> rval (- q)" using 2 by (intro rval_nonneg) simp
    moreover have "0 \<le> rval r" using 2 by (intro rval_nonneg) simp
    ultimately show ?thesis by simp
  next
    case 3
    have "rval (- r) \<le> rval (- q)" using 3 le by (intro rval_mono_pos) auto
    then show ?thesis by simp
  qed
qed

lemma rval_error:
  assumes "2 powi (-1022) \<le> \<bar>q\<bar>"
  shows "\<bar>rval q - q\<bar> \<le> \<bar>q\<bar> / 2 ^ 53"
proof -
  have pos: "0 < \<bar>q\<bar>" using assms by (meson less_le_trans zero_less_numeral zero_less_power_int)
  have "(2::rat) powi (-1022) < 2 powi (flog2 \<bar>q\<bar> + 1)"
    using assms flog2_bounds(2) [OF pos] by linarith
  then have "-1022 \<le> flog2 \<bar>q\<bar>" by (simp only: powi2_less_iff)
  then have u: "ulp64 q = 2 powi flog2 \<bar>q\<bar> / 2 ^ 52" by (simp add: ulp64_def power_int_diff)
  have "rval q - q = (of_int (rne (q / ulp64 q)) - q / ulp64 q) * ulp64 q"
    using pos ulp64_pos [of q] by (simp add: rval_def field_simps)
  then have "\<bar>rval q - q\<bar> = \<bar>of_int (rne (q / ulp64 q)) - q / ulp64 q\<bar> * ulp64 q"
    by (simp only: abs_mult abs_of_pos [OF ulp64_pos])
  also have "\<dots> \<le> 1 / 2 * ulp64 q"
    by (intro mult_right_mono rne_dist) (simp add: less_imp_le)
  also have "\<dots> \<le> \<bar>q\<bar> / 2 ^ 53" using flog2_bounds(1) [OF pos] by (simp add: u)
  finally show ?thesis .
qed

lemma rval_of_int:
  assumes "\<bar>n\<bar> \<le> 2 ^ 53"
  shows "rval (of_int n) = of_int n"
proof -
  have pos_case: "rval (of_int n) = of_int n" if n: "0 < n" "n < 2 ^ 53" for n
  proof -
    have q: "1 \<le> (of_int n :: rat)" using n by simp
    let ?e = "flog2 (of_int n)"
    have e: "?e = int (ilog2 n)" using q by (simp add: flog2_def)
    have "2 ^ ilog2 n \<le> n" using ilog2_bounds [of n] n by simp
    also have "\<dots> < 2 ^ 53" by (rule n(2))
    finally have "ilog2 n < 53" by (rule power_less_imp_less_exp [rotated]) simp
    then have le: "ilog2 n \<le> 52" by simp
    have u: "ulp64 (of_int n) = 1 / 2 ^ (52 - ilog2 n)"
      using n le e by (simp add: ulp64_def power_int_minus power_int_def field_simps of_nat_diff nat_diff_distrib')
    have "of_int n / ulp64 (of_int n) = (of_int (n * 2 ^ (52 - ilog2 n)) :: rat)" by (simp add: u)
    then have "rne (of_int n / ulp64 (of_int n)) = n * 2 ^ (52 - ilog2 n)"
      by (simp only: rne_of_int)
    then show ?thesis using n by (simp add: rval_def u)
  qed
  have two53: "rval (of_int (2 ^ 53)) = of_int (2 ^ 53)"
    by (simp add: f64_eval)
  show ?thesis
  proof (cases "0 \<le> n")
    case True
    then consider "n = 0" | "0 < n \<and> n < 2 ^ 53" | "n = 2 ^ 53" using assms by linarith
    then show ?thesis using pos_case two53 by cases (simp_all only: of_int_0 rval_0)
  next
    case False
    then consider "0 < - n \<and> - n < 2 ^ 53" | "- n = 2 ^ 53" using assms by linarith
    then have "rval (of_int (- n)) = of_int (- n)" using pos_case two53 by cases (simp_all only:)
    then show ?thesis by simp
  qed
qed

section \<open>A rounded value is its own rounding\<close>

lemma rval_exact: "0 < r \<Longrightarrow> r = of_int n * ulp64 r \<Longrightarrow> rval r = r"
  by (metis rne_of_int rval_def nonzero_mult_div_cancel_right ulp64_neq_0)

lemma rval_idem_pos:
  assumes "0 < q"
  shows "rval (rval q) = rval q"
proof -
  define m where "m = max (flog2 q) (-1022)"
  define n where "n = rne (q / ulp64 q)"
  have u: "ulp64 q = 2 powi (m - 52)" using assms by (simp add: ulp64_def m_def)
  have r: "rval q = of_int n * 2 powi (m - 52)" using assms by (simp add: rval_def n_def u)
  show ?thesis
  proof (cases "rval q = 0")
    case False
    then have pos: "0 < rval q" using rval_nonneg [of q] assms by simp
    define k where "k = max (flog2 (rval q)) (-1022)"
    have ur: "ulp64 (rval q) = 2 powi (k - 52)" using pos by (simp add: ulp64_def k_def)
    have "rval q \<le> 2 powi (m + 1)" using rval_upper [OF assms] by (simp add: m_def)
    then consider "rval q = 2 powi (m + 1)" | "rval q < 2 powi (m + 1)" by linarith
    then show ?thesis
    proof cases
      case 1
      then have "flog2 (rval q) = m + 1" by (intro flog2_unique) (simp_all add: powi2_less_iff powi2_le_iff)
      then have "k = m + 1" unfolding k_def m_def by linarith
      then have "ulp64 (rval q) = 2 powi (m + 1 - 52)" by (simp only: ur)
      moreover have "2 powi (m + 1) = of_int (2 ^ 52) * (2 powi (m + 1 - 52) :: rat)"
        by (simp add: power_int_add power_int_diff)
      ultimately show ?thesis using 1 rval_exact [OF pos, of "2 ^ 52"] by metis
    next
      case 2
      have "(2::rat) powi flog2 (rval q) < 2 powi (m + 1)" using flog2_bounds(1) [OF pos] 2 by linarith
      then have "k \<le> m" unfolding k_def m_def by (simp add: powi2_less_iff)
      then obtain j where j: "m = k + int j" using zle_iff_zadd by blast
      have "rval q = of_int (n * 2 ^ j) * ulp64 (rval q)"
        unfolding ur by (simp add: r j power_int_add power_int_diff)
      then show ?thesis by (rule rval_exact [OF pos])
    qed
  qed simp
qed

lemma rval_idem [simp]: "rval (rval q) = rval q"
proof (cases "0 < q")
  case False
  then show ?thesis using rval_idem_pos [of "- q"] by (cases "q = 0") simp_all
qed (rule rval_idem_pos)

text \<open>A value that a variable of type \<open>float64\<close> can hold; every operation gives such a value.\<close>

definition is_f64 :: "f64 \<Rightarrow> bool" where
  "is_f64 x \<longleftrightarrow> (\<forall>q. x = FFin q \<longrightarrow> round64 q = FFin q)"

lemma is_f64_round64 [simp]: "is_f64 (round64 q)"
  by (auto simp: is_f64_def round64_def Let_def split: if_splits)

lemma is_f64_simps [simp]: "is_f64 FNaN" "is_f64 FPInf" "is_f64 FNInf" "is_f64 (FFin 0)"
  by (simp_all add: is_f64_def round64_def)

lemma is_f64_ops [simp]:
  "is_f64 (f_of_int n)" "is_f64 (f_add x y)" "is_f64 (f_sub x y)" "is_f64 (f_mul x y)" "is_f64 (f_div x y)"
proof -
  have signed: "is_f64 (f_inf_signed s)" for s by (simp add: f_inf_signed_def)
  show add: "is_f64 (f_add x y)" for x y by (cases "(x, y)" rule: f_add.cases) simp_all
  show "is_f64 (f_of_int n)" by (simp add: f_of_int_def)
  show "is_f64 (f_sub x y)" by (simp add: f_sub_def add)
  show "is_f64 (f_mul x y)" by (cases "(x, y)" rule: f_mul.cases) (simp_all add: signed)
  show "is_f64 (f_div x y)" by (cases "(x, y)" rule: f_div.cases) (simp_all add: signed)
qed

section \<open>Comparisons of rounded values\<close>

lemma round64_mono: "a \<le> b \<Longrightarrow> \<not> f_lt (round64 b) (round64 a)"
proof -
  assume "a \<le> b"
  then have le: "rval a \<le> rval b" by (rule rval_mono)
  have pos: "flog2 \<bar>rval a\<bar> \<le> flog2 \<bar>rval b\<bar>" if "0 < rval a"
    using that le by (intro flog2_mono) auto
  have neg: "flog2 \<bar>rval b\<bar> \<le> flog2 \<bar>rval a\<bar>" if "rval b < 0"
    using that le by (intro flog2_mono) auto
  show ?thesis using le pos neg
    by (auto simp: round64_def Let_def)
qed

lemma round64_less_imp: "f_lt (round64 a) (round64 b) \<Longrightarrow> a < b"
  using round64_mono [of b a] by (cases "a < b") auto

lemma round64_0 [simp]: "round64 0 = FFin 0"
  by (simp add: round64_def)

lemma round64_pos_imp: "f_lt (FFin 0) (round64 q) \<Longrightarrow> 0 < q"
  using round64_less_imp [of 0 q] by simp

lemma round64_neg_imp: "f_lt (round64 q) (FFin 0) \<Longrightarrow> q < 0"
  using round64_less_imp [of q 0] by simp

lemma f_of_int_exact: "\<bar>n\<bar> \<le> 2 ^ 53 \<Longrightarrow> f_of_int n = FFin (of_int n)"
proof -
  assume n: "\<bar>n\<bar> \<le> 2 ^ 53"
  have "flog2 \<bar>of_int n\<bar> \<le> flog2 (2 ^ 53)" if "n \<noteq> 0"
  proof (rule flog2_mono)
    show "0 < \<bar>of_int n :: rat\<bar>" using that by simp
    have "\<bar>of_int n :: rat\<bar> = of_int \<bar>n\<bar>" by simp
    also have "\<dots> \<le> of_int (2 ^ 53)" using n by (simp only: of_int_le_iff)
    finally show "\<bar>of_int n :: rat\<bar> \<le> 2 ^ 53" by simp
  qed
  moreover have "flog2 (2 ^ 53) = 53" by (simp add: f64_eval)
  ultimately show ?thesis
    using n by (cases n "0::int" rule: linorder_cases) (auto simp: f_of_int_def round64_def rval_of_int)
qed

lemma round64_far: "\<bar>q\<bar> \<le> 2 ^ 100 \<Longrightarrow> round64 q = FFin (rval q)"
proof -
  assume q: "\<bar>q\<bar> \<le> 2 ^ 100"
  have lim: "rval (2 ^ 100) = 2 ^ 100" "flog2 (2 ^ 100) = 100" by (simp_all add: f64_eval)
  have "rval \<bar>q\<bar> \<le> 2 ^ 100" using rval_mono [OF q] lim(1) by simp
  moreover have "\<bar>rval q\<bar> = rval \<bar>q\<bar>"
    using rval_nonneg [of q] rval_nonneg [of "- q"] by (cases "0 \<le> q") (simp_all add: abs_if)
  ultimately have "flog2 \<bar>rval q\<bar> \<le> 100" if "rval q \<noteq> 0"
    using that flog2_mono [of "\<bar>rval q\<bar>" "2 ^ 100"] lim(2) by simp
  then show ?thesis by (cases "rval q = 0") (simp_all add: round64_def Let_def)
qed

lemma round64_finite: "\<bar>q\<bar> \<le> 2 ^ 64 \<Longrightarrow> round64 q = FFin (rval q)"
  by (rule round64_far) simp

lemma rval_ge: "rval l = l \<Longrightarrow> l \<le> q \<Longrightarrow> l \<le> rval q"
  using rval_mono [of l q] by simp

lemma rval_le: "rval u = u \<Longrightarrow> q \<le> u \<Longrightarrow> rval q \<le> u"
  using rval_mono [of q u] by simp

lemma round64_minus: "round64 (- q) = f_neg (round64 q)"
  by (auto simp: round64_def Let_def)

lemma rval_small: "0 \<le> q \<Longrightarrow> q \<le> 2 ^ 63 \<Longrightarrow> 0 \<le> rval q \<and> rval q \<le> 2 ^ 63"
proof -
  assume "0 \<le> q" "q \<le> 2 ^ 63"
  moreover have "rval (2 ^ 63) = 2 ^ 63" by (simp add: f64_eval)
  ultimately show ?thesis using rval_mono [of q "2 ^ 63"] rval_nonneg [of q] by simp
qed

lemma round64_pos_iff: "f_lt (FFin 0) (round64 q) \<longleftrightarrow> 0 < rval q"
  by (simp add: round64_def Let_def)

lemma rval_pos_imp: "0 < rval q \<Longrightarrow> 0 < q"
  using rval_mono [of q 0] by (cases "0 < q") auto

end
