(* ===== verification/Prelude.thy ===== *)
theory Prelude
  imports Float64
begin

text \<open>
  What the components share: the Go types as HOL types, instants and durations of package
  time, error values, the outcome of code that can panic, strings, and the generic list
  and map lemmas.  \<open>go_eval\<close> collects the equations that evaluate the model on closed
  inputs.
\<close>

named_theorems go_eval \<open>evaluation of the model on closed terms\<close>

section \<open>Machine integers\<close>

text \<open>
  \<open>int64\<close> and \<open>int32\<close> values are words read with \<open>sint\<close>.  Counts of Go's type
  \<open>int\<close> (window sizes, concurrency limits, retries) enter no arithmetic that can reach
  the 64-bit bounds and are \<open>int\<close>.
\<close>

type_synonym i64 = "64 word"
type_synonym i32 = "32 word"

definition wrap64 :: "int \<Rightarrow> int" where
  "wrap64 x = (x + 2 ^ 63) mod 2 ^ 64 - 2 ^ 63"

lemma wrap64_id: "- (2 ^ 63) \<le> x \<Longrightarrow> x < 2 ^ 63 \<Longrightarrow> wrap64 x = x"
  by (simp add: wrap64_def)

lemma sint_i64_range: "- (2 ^ 63) \<le> sint (x :: i64)" "sint (x :: i64) < 2 ^ 63"
  using sint_ge [of x] sint_lt [of x] by simp_all

lemma sint_i64_add: "sint (x + y :: i64) = wrap64 (sint x + sint y)"
  by (simp add: sint_word_ariths wrap64_def signed_take_bit_eq_take_bit_shift take_bit_eq_mod)

lemma sint_i64_sub: "sint (x - y :: i64) = wrap64 (sint x - sint y)"
  by (simp add: sint_word_ariths wrap64_def signed_take_bit_eq_take_bit_shift take_bit_eq_mod)

lemma sint_of_int_i64: "- (2 ^ 63) \<le> n \<Longrightarrow> n < 2 ^ 63 \<Longrightarrow> sint (of_int n :: i64) = n"
  by (simp add: sint_sbintrunc' signed_take_bit_eq_take_bit_shift take_bit_eq_mod)

section \<open>Instants and durations\<close>

text \<open>
  A \<open>time.Time\<close> is the number of nanoseconds since Go's zero instant (1 January of
  year 1, UTC), so the zero value of the type is 0.  A \<open>time.Duration\<close> is an
  \<open>int64\<close> number of nanoseconds; \<open>Sub\<close> saturates at its bounds.
\<close>

type_synonym gotime = int
type_synonym duration = int

definition second :: duration where "second = 1000000000"
definition minute :: duration where "minute = 60 * second"

definition time_sub :: "gotime \<Rightarrow> gotime \<Rightarrow> duration" where
  "time_sub t u = max (- (2 ^ 63)) (min (2 ^ 63 - 1) (t - u))"

lemma time_sub_self [simp]: "time_sub t t = 0"
  by (simp add: time_sub_def)

lemma time_sub_nonneg: "u \<le> t \<Longrightarrow> 0 \<le> time_sub t u"
  by (simp add: time_sub_def)

lemma time_sub_exact: "- (2 ^ 63) \<le> t - u \<Longrightarrow> t - u < 2 ^ 63 \<Longrightarrow> time_sub t u = t - u"
  by (simp add: time_sub_def)

lemma time_sub_antimono: "u \<le> v \<Longrightarrow> time_sub t v \<le> time_sub t u"
  by (simp add: time_sub_def)

text \<open>Seconds since the Unix epoch; division rounds down, as \<open>Unix\<close> does.\<close>

definition time_unix :: "gotime \<Rightarrow> int" where
  "time_unix t = t div second - 62135596800"

text \<open>\<open>Truncate\<close> counts from the zero instant.\<close>

definition time_truncate :: "gotime \<Rightarrow> duration \<Rightarrow> gotime" where
  "time_truncate t d = (if d \<le> 0 then t else t - t mod d)"

text \<open>\<open>Duration.Seconds\<close>: whole seconds and the rest are converted separately.\<close>

definition trunc_div :: "int \<Rightarrow> int \<Rightarrow> int" where
  "trunc_div a b = sgn a * sgn b * (\<bar>a\<bar> div \<bar>b\<bar>)"

definition trunc_mod :: "int \<Rightarrow> int \<Rightarrow> int" where
  "trunc_mod a b = a - trunc_div a b * b"

definition dur_seconds :: "duration \<Rightarrow> f64" where
  "dur_seconds d = f_add (f_of_int (trunc_div d second))
     (f_div (f_of_int (trunc_mod d second)) (f_of_int second))"

text \<open>\<open>Duration.Round\<close>: to the nearest multiple, halves away from zero, saturating.\<close>

definition dur_round :: "duration \<Rightarrow> duration \<Rightarrow> duration" where
  "dur_round d m = (if m \<le> 0 then d else
     let r = \<bar>trunc_mod d m\<bar> in
     if d < 0 then (if 2 * r < m then d + r else max (- (2 ^ 63)) (d - m + r))
     else (if 2 * r < m then d - r else min (2 ^ 63 - 1) (d + m - r)))"

section \<open>Errors and panics\<close>

text \<open>
  \<open>RedisNil\<close> is the client library's sentinel \<open>redis.Nil\<close>; \<open>ErrWrap\<close> is
  \<open>fmt.Errorf\<close> with \<open>%w\<close>: the text before it and the wrapped error.
\<close>

datatype go_error = RedisNil | ErrText string | ErrWrap string go_error

fun err_string :: "go_error \<Rightarrow> string" where
  "err_string RedisNil = ''redis: nil''"
| "err_string (ErrText s) = s"
| "err_string (ErrWrap s e) = s @ err_string e"

text \<open>
  The code asks \<open>errors.Is(redis.Nil, err)\<close>, with the sentinel as the error and the
  received error as the target: it compares the two and looks no further, since the sentinel
  wraps nothing.
\<close>

definition errors_Is_nil :: "go_error \<Rightarrow> bool" where
  "errors_Is_nil e = (e = RedisNil)"

type_synonym 'a result = "go_error + 'a"

text \<open>
  A call returns, panics (and ends the process), or blocks forever on a channel.
\<close>

datatype 'a go = Ret 'a | Panic string | Blocked

definition go_bind :: "'a go \<Rightarrow> ('a \<Rightarrow> 'b go) \<Rightarrow> 'b go" where
  "go_bind m f = (case m of Ret x \<Rightarrow> f x | Panic s \<Rightarrow> Panic s | Blocked \<Rightarrow> Blocked)"

lemma go_bind_simps [simp]:
  "go_bind (Ret x) f = f x"
  "go_bind (Panic s) f = Panic s"
  "go_bind Blocked f = Blocked"
  by (simp_all add: go_bind_def)

lemma go_bind_Ret_iff: "go_bind m f = Ret y \<longleftrightarrow> (\<exists>x. m = Ret x \<and> f x = Ret y)"
  by (cases m) auto

lemma go_bind_cong [fundef_cong]:
  "m = m' \<Longrightarrow> (\<And>x. m' = Ret x \<Longrightarrow> f x = f' x) \<Longrightarrow> go_bind m f = go_bind m' f'"
  by (cases m') auto

section \<open>Strings\<close>

text \<open>\<open>strings.Index\<close> for a one-character needle; None is the result -1.\<close>

fun str_index :: "char \<Rightarrow> string \<Rightarrow> nat option" where
  "str_index c [] = None"
| "str_index c (x # xs) = (if x = c then Some 0 else map_option Suc (str_index c xs))"

lemma str_index_append [simp]: "c \<notin> set a \<Longrightarrow> str_index c (a @ c # b) = Some (length a)"
  by (induction a) auto

lemma str_index_None_iff: "str_index c s = None \<longleftrightarrow> c \<notin> set s"
  by (induction s) auto

lemma str_index_takeWhile: "str_index c s = Some i \<Longrightarrow> take i s = takeWhile (\<lambda>x. x \<noteq> c) s"
  by (induction s arbitrary: i) (auto split: if_splits)

text \<open>A separator splits a string in one way only when one part is free of it.\<close>

lemma split_first_unique:
  "c \<notin> set a \<Longrightarrow> c \<notin> set a' \<Longrightarrow> a @ c # b = a' @ c # b' \<longleftrightarrow> a = a' \<and> b = b'"
proof (induction a arbitrary: a')
  case Nil
  then show ?case by (cases a') auto
next
  case (Cons x a)
  then show ?case by (cases a') auto
qed

lemma split_last_unique:
  "c \<notin> set b \<Longrightarrow> c \<notin> set b' \<Longrightarrow> a @ c # b = a' @ c # b' \<longleftrightarrow> a = a' \<and> b = b'"
  using split_first_unique [of c "rev b" "rev b'" "rev a" "rev a'"]
  by (metis append.assoc append_Cons append_Nil rev_append rev_is_rev_conv rev.simps(2) set_rev)

section \<open>Lists and maps\<close>

definition lastn :: "nat \<Rightarrow> 'a list \<Rightarrow> 'a list" where
  "lastn n xs = drop (length xs - n) xs"

lemma length_lastn [simp]: "length (lastn n xs) = min n (length xs)"
  by (simp add: lastn_def)

lemma lastn_Nil [simp]: "lastn n [] = []"
  by (simp add: lastn_def)

lemma set_lastn_subset: "set (lastn n xs) \<subseteq> set xs"
  by (simp add: lastn_def set_drop_subset)

lemma lastn_snoc:
  "lastn n (xs @ [x]) = (if n = 0 then [] else lastn (n - 1) xs @ [x])"
  by (cases n) (auto simp: lastn_def)

lemma lastn_all: "length xs \<le> n \<Longrightarrow> lastn n xs = xs"
  by (simp add: lastn_def)

lemma lastn_Suc:
  "n < length xs \<Longrightarrow> lastn (Suc n) xs = xs ! (length xs - Suc n) # lastn n xs"
  using Cons_nth_drop_Suc [of "length xs - Suc n" xs] by (simp add: lastn_def Suc_diff_Suc)

lemma last_in_lastn: "xs \<noteq> [] \<Longrightarrow> 0 < n \<Longrightarrow> last xs \<in> set (lastn n xs)"
  by (metis diff_less drop_eq_Nil last_drop last_in_set lastn_def length_greater_0_conv linorder_not_le)

lemma nth_in_lastn:
  assumes "length xs - n \<le> i" and "i < length xs"
  shows "xs ! i \<in> set (lastn n xs)"
proof -
  have "xs ! i = drop (length xs - n) xs ! (i - (length xs - n))" using assms by simp
  then show ?thesis unfolding lastn_def using assms by (metis diff_less_mono length_drop nth_mem)
qed

lemma lastn_lastn: "m \<le> n \<Longrightarrow> lastn m (lastn n xs) = lastn m xs"
proof -
  assume "m \<le> n"
  then have "length xs - n + (length xs - (length xs - n + m)) = length xs - m" by linarith
  then show ?thesis by (simp add: lastn_def add.commute)
qed

lemma lastn_append: "lastn n (xs @ ys) = lastn (n - length ys) xs @ lastn n ys"
  by (cases "length ys \<le> n") (simp_all add: lastn_def)

lemma lastn_append_lastn: "lastn n (lastn n xs @ ys) = lastn n (xs @ ys)"
  by (simp add: lastn_append lastn_lastn)

lemma dom_restrict_keys: "dom (\<lambda>k. if P k then m k else None) = {k \<in> dom m. P k}"
  by (auto simp: dom_def)

end
