(* ===== verification/Go_Fmt.thy ===== *)
theory Go_Fmt
  imports Prelude
begin

text \<open>
  The formatting the code uses: \<open>%d\<close>, \<open>%.2f\<close>, \<open>%.0f\<close>, and the text of a
  duration (\<open>Duration.String\<close>, which is also its \<open>%v\<close>).  Strings are byte strings.
\<close>

section \<open>Integers\<close>

definition digit :: "int \<Rightarrow> char" where
  "digit n = char_of (48 + n)"

fun udigits :: "int \<Rightarrow> string" where
  "udigits n = (if n < 10 then [digit n] else udigits (n div 10) @ [digit (n mod 10)])"

declare udigits.simps [simp del]

definition itoa :: "int \<Rightarrow> string" where
  "itoa n = (if n < 0 then CHR ''-'' # udigits (- n) else udigits n)"

section \<open>Floating point with a fixed precision\<close>

definition pad_left :: "nat \<Rightarrow> char \<Rightarrow> string \<Rightarrow> string" where
  "pad_left w c s = replicate (w - length s) c @ s"

definition fmt_fixed :: "nat \<Rightarrow> rat \<Rightarrow> string" where
  "fmt_fixed p q =
     (let n = rne (\<bar>q\<bar> * 10 ^ p) in
      (if q < 0 then ''-'' else []) @ udigits (n div 10 ^ p) @
      (if p = 0 then [] else ''.'' @ pad_left p (CHR ''0'') (udigits (n mod 10 ^ p))))"

fun fmt_f :: "nat \<Rightarrow> f64 \<Rightarrow> string" where
  "fmt_f p (FFin q) = fmt_fixed p q"
| "fmt_f p FNaN = ''NaN''"
| "fmt_f p FPInf = ''+Inf''"
| "fmt_f p FNInf = ''-Inf''"

section \<open>Durations\<close>

definition strip_zeros :: "string \<Rightarrow> string" where
  "strip_zeros s = rev (dropWhile (\<lambda>c. c = CHR ''0'') (rev s))"

text \<open>The fraction of a unit of \<open>10 ^ p\<close> nanoseconds, without trailing zeros.\<close>

definition dur_frac :: "int \<Rightarrow> nat \<Rightarrow> string" where
  "dur_frac v p = (let f = v mod 10 ^ p in
     if f = 0 then [] else ''.'' @ strip_zeros (pad_left p (CHR ''0'') (udigits f)))"

definition micro_sign :: string where
  "micro_sign = [CHR 0xC2, CHR 0xB5]"

definition dur_abs_string :: "int \<Rightarrow> string" where
  "dur_abs_string u =
     (if u = 0 then ''0s''
      else if u < 1000 then udigits u @ ''ns''
      else if u < 1000000 then udigits (u div 1000) @ dur_frac u 3 @ micro_sign @ ''s''
      else if u < 1000000000 then udigits (u div 1000000) @ dur_frac u 6 @ ''ms''
      else
        (let s = u div 1000000000; m = s div 60; h = m div 60 in
         (if m > 0 then (if h > 0 then udigits h @ ''h'' else []) @ udigits (m mod 60) @ ''m''
          else []) @
         udigits (s mod 60) @ dur_frac u 9 @ ''s''))"

definition dur_string :: "duration \<Rightarrow> string" where
  "dur_string d = (if d < 0 then ''-'' @ dur_abs_string (- d) else dur_abs_string d)"

lemma digit_eval [go_eval]:
  "digit 0 = CHR ''0''" "digit 1 = CHR ''1''" "digit 2 = CHR ''2''" "digit 3 = CHR ''3''"
  "digit 4 = CHR ''4''" "digit 5 = CHR ''5''" "digit 6 = CHR ''6''" "digit 7 = CHR ''7''"
  "digit 8 = CHR ''8''" "digit 9 = CHR ''9''"
  by code_simp+

lemmas [go_eval] = udigits.simps itoa_def pad_left_def fmt_fixed_def strip_zeros_def
  dur_frac_def micro_sign_def dur_abs_string_def dur_string_def

section \<open>Decimal text determines the number\<close>

text \<open>The value of a digit string, read from the left.\<close>

definition dval :: "string \<Rightarrow> int" where
  "dval s = foldl (\<lambda>a c. 10 * a + (of_char c - 48)) 0 s"

lemma digit_val: "0 \<le> n \<Longrightarrow> n < 10 \<Longrightarrow> of_char (digit n) = n + 48"
  by (simp add: digit_def)

lemma dval_udigits: "0 \<le> n \<Longrightarrow> dval (udigits n) = n"
proof (induction n rule: udigits.induct)
  case (1 n)
  show ?case
  proof (cases "n < 10")
    case True
    with "1.prems" show ?thesis by (simp add: udigits.simps [of n] dval_def digit_val)
  next
    case False
    have "dval (udigits n) = 10 * dval (udigits (n div 10)) + n mod 10"
      using False "1.prems" by (simp add: udigits.simps [of n] dval_def digit_val)
    also have "dval (udigits (n div 10)) = n div 10" using False "1.prems" by (intro "1.IH") auto
    finally show ?thesis by simp
  qed
qed

lemma udigits_range:
  "0 \<le> n \<Longrightarrow> c \<in> set (udigits n) \<Longrightarrow> 48 \<le> (of_char c :: int) \<and> (of_char c :: int) < 58"
proof (induction n rule: udigits.induct)
  case (1 n)
  show ?case
  proof (cases "n < 10")
    case True
    with "1.prems" show ?thesis by (simp add: udigits.simps [of n] digit_val)
  next
    case False
    with "1.prems" have "c \<in> set (udigits (n div 10)) \<or> c = digit (n mod 10)"
      by (auto simp: udigits.simps [of n])
    with False "1.IH" "1.prems" show ?thesis by (auto simp: digit_val)
  qed
qed

lemma udigits_no_minus: "0 \<le> n \<Longrightarrow> CHR ''-'' # s \<noteq> udigits n"
proof
  assume "0 \<le> n" and "CHR ''-'' # s = udigits n"
  then have "CHR ''-'' \<in> set (udigits n)" by (metis list.set_intros(1))
  with \<open>0 \<le> n\<close> udigits_range [of n "CHR ''-''"] show False by simp
qed

lemma udigits_inj: "0 \<le> m \<Longrightarrow> 0 \<le> n \<Longrightarrow> udigits m = udigits n \<longleftrightarrow> m = n"
  by (metis dval_udigits)

lemma itoa_inj: "itoa m = itoa n \<longleftrightarrow> m = n"
  by (cases "m < 0"; cases "n < 0")
    (auto simp: itoa_def udigits_inj udigits_no_minus udigits_no_minus [THEN not_sym])

lemma colon_notin_itoa: "CHR '':'' \<notin> set (itoa n)"
  using udigits_range [of n "CHR '':''"] udigits_range [of "- n" "CHR '':''"]
  by (auto simp: itoa_def)

end
