(* ===== verification/Collector_Types.thy ===== *)
theory Collector_Types
  imports Go_Fmt
begin

text \<open>
  The data of package collector (internal/collector/collector.go): the status, trend and
  health enumerations, the records a partition's window holds, and the results of an
  evaluation.  The enumerations are Go string types; the constructor \<open>...None\<close> is
  their zero value, the empty string.
\<close>

datatype ConsumerStatus =
    StatusActive | StatusLagging | StatusStalled | StatusStopped | StatusEmpty | StatusUnknown
  | StatusNone

fun status_text :: "ConsumerStatus \<Rightarrow> string" where
  "status_text StatusActive = ''ACTIVE''"
| "status_text StatusLagging = ''LAGGING''"
| "status_text StatusStalled = ''STALLED''"
| "status_text StatusStopped = ''STOPPED''"
| "status_text StatusEmpty = ''EMPTY''"
| "status_text StatusUnknown = ''UNKNOWN''"
| "status_text StatusNone = ''''"

datatype LagTrend = TrendIncreasing | TrendDecreasing | TrendStable | TrendUnknown | TrendNone

fun trend_text :: "LagTrend \<Rightarrow> string" where
  "trend_text TrendIncreasing = ''INCREASING''"
| "trend_text TrendDecreasing = ''DECREASING''"
| "trend_text TrendStable = ''STABLE''"
| "trend_text TrendUnknown = ''UNKNOWN''"
| "trend_text TrendNone = ''''"

datatype ConsumerHealth = HealthGood | HealthWarning | HealthCritical | HealthNone

fun health_text :: "ConsumerHealth \<Rightarrow> string" where
  "health_text HealthGood = ''GOOD''"
| "health_text HealthWarning = ''WARNING''"
| "health_text HealthCritical = ''CRITICAL''"
| "health_text HealthNone = ''''"

text \<open>Health ordered by severity, for the statements about the worst of several.\<close>

fun health_rank :: "ConsumerHealth \<Rightarrow> nat" where
  "health_rank HealthNone = 0"
| "health_rank HealthGood = 1"
| "health_rank HealthWarning = 2"
| "health_rank HealthCritical = 3"

instantiation ConsumerHealth :: linorder
begin

definition less_eq_ConsumerHealth :: "ConsumerHealth \<Rightarrow> ConsumerHealth \<Rightarrow> bool" where
  "h \<le> h' \<longleftrightarrow> health_rank h \<le> health_rank h'"

definition less_ConsumerHealth :: "ConsumerHealth \<Rightarrow> ConsumerHealth \<Rightarrow> bool" where
  "h < h' \<longleftrightarrow> health_rank h < health_rank h'"

instance
proof
  fix h h' :: ConsumerHealth
  assume "h \<le> h'" "h' \<le> h"
  then show "h = h'"
    by (cases h; cases h') (simp_all add: less_eq_ConsumerHealth_def)
qed (auto simp: less_eq_ConsumerHealth_def less_ConsumerHealth_def)

end

lemma worst_health:
  assumes "finite H"
  shows "Max (insert HealthGood H) =
    (if HealthCritical \<in> H then HealthCritical
     else if HealthWarning \<in> H then HealthWarning else HealthGood)"
proof (rule Max_eqI)
  fix h
  assume "h \<in> insert HealthGood H"
  then show "h \<le> (if HealthCritical \<in> H then HealthCritical
      else if HealthWarning \<in> H then HealthWarning else HealthGood)"
    by (cases h) (auto simp: less_eq_ConsumerHealth_def)
qed (use assms in auto)

record OffsetRecord =
  or_Offset :: i64
  or_HighWatermark :: i64
  or_Lag :: i64
  or_CheckTimestamp :: gotime

record PartitionWindow =
  pw_Records :: "OffsetRecord list"
  pw_WindowSize :: int

record PartitionConsumerStatus =
  ps_GroupID :: string
  ps_Topic :: string
  ps_Partition :: i32
  ps_CurrentOffset :: i64
  ps_HighWatermark :: i64
  ps_CurrentLag :: i64
  ps_LastUpdateTime :: gotime
  ps_Status :: ConsumerStatus
  ps_LagTrend :: LagTrend
  ps_Health :: ConsumerHealth
  ps_ConsumptionRate :: f64
  ps_LagChangeRate :: f64
  ps_WindowCompleteness :: f64
  ps_Message :: string
  ps_IsActive :: bool
  ps_TimeSinceLastMove :: duration

definition zero_PartitionConsumerStatus :: PartitionConsumerStatus where
  "zero_PartitionConsumerStatus =
     \<lparr>ps_GroupID = '''', ps_Topic = '''', ps_Partition = 0, ps_CurrentOffset = 0,
      ps_HighWatermark = 0, ps_CurrentLag = 0, ps_LastUpdateTime = 0, ps_Status = StatusNone,
      ps_LagTrend = TrendNone, ps_Health = HealthNone, ps_ConsumptionRate = FFin 0,
      ps_LagChangeRate = FFin 0, ps_WindowCompleteness = FFin 0, ps_Message = '''',
      ps_IsActive = False, ps_TimeSinceLastMove = 0\<rparr>"

record GroupStatus =
  gs_GroupID :: string
  gs_OverallHealth :: ConsumerHealth
  gs_TotalLag :: i64
  gs_PartitionCount :: int
  gs_ActivePartitions :: int
  gs_StoppedPartitions :: int
  gs_StalledPartitions :: int
  gs_MemberCount :: int
  gs_LastUpdateTime :: gotime
  gs_CriticalPartitions :: "PartitionConsumerStatus list"
  gs_WarningPartitions :: "PartitionConsumerStatus list"
  gs_HealthyPartitions :: "PartitionConsumerStatus list"

definition zero_GroupStatus :: GroupStatus where
  "zero_GroupStatus =
     \<lparr>gs_GroupID = '''', gs_OverallHealth = HealthNone, gs_TotalLag = 0, gs_PartitionCount = 0,
      gs_ActivePartitions = 0, gs_StoppedPartitions = 0, gs_StalledPartitions = 0,
      gs_MemberCount = 0, gs_LastUpdateTime = 0, gs_CriticalPartitions = [],
      gs_WarningPartitions = [], gs_HealthyPartitions = []\<rparr>"

record Config =
  cfg_WindowSize :: int
  cfg_MinWindowSize :: int
  cfg_CheckInterval :: duration
  cfg_StalledConsumptionRate :: f64
  cfg_RapidLagIncreaseRate :: f64
  cfg_LagTrendThreshold :: f64
  cfg_InactivityTimeout :: duration
  cfg_MaxConcurrency :: int

lemmas [go_eval] = zero_PartitionConsumerStatus_def zero_GroupStatus_def

end
