(* ===== verification/Evaluator.thy ===== *)
theory Evaluator
  imports Collector_Types
begin

text \<open>
  The lag evaluator (internal/collector/evaluator.go).  Each method is a function of the
  configuration, the window's records (oldest first) and, where the code writes through a
  pointer to the result, the result so far.
\<close>

section \<open>Metrics of a window\<close>

text \<open>The loop over the last five records fills a set of offsets.\<close>

definition isConsumerActive :: "OffsetRecord list \<Rightarrow> bool" where
  "isConsumerActive records =
     (if length records < 2 then False
      else let recentCount = min 5 (length records);
               uniqueOffsets = remdups (map or_Offset (drop (length records - recentCount) records))
           in 1 < length uniqueOffsets)"

text \<open>
  The loop of \<open>timeSinceLastOffsetChange\<close>, counting down: the argument is one more than the
  source's index \<open>i\<close>, and 0 is the end of the loop.
\<close>

fun tslc_loop :: "OffsetRecord list \<Rightarrow> i64 \<Rightarrow> nat \<Rightarrow> duration" where
  "tslc_loop records lastOffset 0 =
     time_sub (or_CheckTimestamp (last records)) (or_CheckTimestamp (records ! 0))"
| "tslc_loop records lastOffset (Suc i) =
     (if or_Offset (records ! i) \<noteq> lastOffset
      then time_sub (or_CheckTimestamp (last records)) (or_CheckTimestamp (records ! (i + 1)))
      else tslc_loop records lastOffset i)"

definition timeSinceLastOffsetChange :: "OffsetRecord list \<Rightarrow> duration" where
  "timeSinceLastOffsetChange records =
     (if length records < 2 then 0
      else tslc_loop records (or_Offset (last records)) (length records - 1))"

definition calculateConsumptionRate :: "OffsetRecord list \<Rightarrow> f64" where
  "calculateConsumptionRate records =
     (if length records < 2 then FFin 0
      else let firstOffset = or_Offset (records ! 0); lastOffset = or_Offset (last records) in
       if firstOffset = lastOffset then FFin 0
       else let offsetDiff = lastOffset - firstOffset;
                timeDiff = dur_seconds (time_sub (or_CheckTimestamp (last records))
                                                 (or_CheckTimestamp (records ! 0)))
            in if f_eq timeDiff (FFin 0) then FFin 0
               else f_div (f_of_int (sint offsetDiff)) timeDiff)"

definition calculateLagChangeRate :: "OffsetRecord list \<Rightarrow> f64" where
  "calculateLagChangeRate records =
     (if length records < 2 then FFin 0
      else let lagDiff = f_of_int (sint (or_Lag (last records) - or_Lag (records ! 0)));
               timeDiff = dur_seconds (time_sub (or_CheckTimestamp (last records))
                                                (or_CheckTimestamp (records ! 0)))
           in if f_eq timeDiff (FFin 0) then FFin 0 else f_div lagDiff timeDiff)"

definition calculateMetrics ::
  "PartitionConsumerStatus \<Rightarrow> OffsetRecord list \<Rightarrow> PartitionConsumerStatus" where
  "calculateMetrics result records =
     result\<lparr>ps_IsActive := isConsumerActive records,
            ps_TimeSinceLastMove := timeSinceLastOffsetChange records,
            ps_ConsumptionRate := calculateConsumptionRate records,
            ps_LagChangeRate := calculateLagChangeRate records\<rparr>"

section \<open>Trend\<close>

definition sum_lag :: "OffsetRecord list \<Rightarrow> i64" where
  "sum_lag records = foldl (\<lambda>sum r. sum + or_Lag r) 0 records"

definition averageLag :: "OffsetRecord list \<Rightarrow> f64" where
  "averageLag records =
     (if length records = 0 then FFin 0
      else f_div (f_of_int (sint (sum_lag records))) (f_of_int (int (length records))))"

definition calculateLagTrend :: "Config \<Rightarrow> OffsetRecord list \<Rightarrow> LagTrend" where
  "calculateLagTrend cfg records =
     (if length records < 3 then TrendUnknown
      else let third = (if length records div 3 = 0 then 1 else length records div 3);
               firstThirdAvg = averageLag (take third records);
               lastThirdAvg = averageLag (drop (length records - third) records)
      in if f_eq firstThirdAvg (FFin 0) \<and> f_eq lastThirdAvg (FFin 0) then TrendStable
      else if f_lt (FFin 0) firstThirdAvg then
        let relativeChange = f_div (f_sub lastThirdAvg firstThirdAvg) firstThirdAvg
        in if f_lt (f_abs relativeChange) (cfg_LagTrendThreshold cfg) then TrendStable
           else if f_lt (FFin 0) relativeChange then TrendIncreasing
           else TrendDecreasing
      else if f_lt (FFin 0) lastThirdAvg then TrendIncreasing
      else TrendStable)"

definition determineTrend ::
  "Config \<Rightarrow> PartitionConsumerStatus \<Rightarrow> OffsetRecord list \<Rightarrow> PartitionConsumerStatus" where
  "determineTrend cfg result records =
     (if length records < 3 then result\<lparr>ps_LagTrend := TrendUnknown\<rparr>
      else result\<lparr>ps_LagTrend := calculateLagTrend cfg records\<rparr>)"

section \<open>Status and health\<close>

definition determineStatus ::
  "Config \<Rightarrow> PartitionConsumerStatus \<Rightarrow> OffsetRecord list \<Rightarrow> PartitionConsumerStatus" where
  "determineStatus cfg result records =
     (if \<not> ps_IsActive result then
        (if ps_CurrentLag result = 0 then
           result\<lparr>ps_Status := StatusEmpty, ps_Message := ''Consumer is caught up and idle''\<rparr>
         else if cfg_InactivityTimeout cfg < ps_TimeSinceLastMove result then
           result\<lparr>ps_Status := StatusStopped,
                  ps_Message := ''Consumer stopped for '' @
                    dur_string (dur_round (ps_TimeSinceLastMove result) second) @
                    '' with lag '' @ itoa (sint (ps_CurrentLag result))\<rparr>
         else
           result\<lparr>ps_Status := StatusStalled,
                  ps_Message := ''Consumer stalled for '' @
                    dur_string (dur_round (ps_TimeSinceLastMove result) second)\<rparr>)
      else if f_lt (ps_ConsumptionRate result) (cfg_StalledConsumptionRate cfg) then
        result\<lparr>ps_Status := StatusStalled,
               ps_Message := ''Very slow consumption: '' @ fmt_f 2 (ps_ConsumptionRate result) @
                 '' msg/s''\<rparr>
      else if ps_CurrentLag result = 0 then
        result\<lparr>ps_Status := StatusEmpty,
               ps_Message := ''Consumer is actively processing and caught up''\<rparr>
      else if f_lt (cfg_RapidLagIncreaseRate cfg) (ps_LagChangeRate result) then
        result\<lparr>ps_Status := StatusLagging,
               ps_Message := ''Lag increasing rapidly at '' @ fmt_f 2 (ps_LagChangeRate result) @
                 '' msg/s''\<rparr>
      else
        result\<lparr>ps_Status := StatusActive,
               ps_Message := ''Processing at '' @ fmt_f 2 (ps_ConsumptionRate result) @
                 '' msg/s with lag '' @ itoa (sint (ps_CurrentLag result))\<rparr>)"

definition health_of :: "Config \<Rightarrow> PartitionConsumerStatus \<Rightarrow> ConsumerHealth" where
  "health_of cfg result =
     (case ps_Status result of
        StatusStopped \<Rightarrow> HealthCritical
      | StatusStalled \<Rightarrow> HealthCritical
      | StatusLagging \<Rightarrow>
          (if ps_LagTrend result = TrendIncreasing \<and>
              f_lt (cfg_RapidLagIncreaseRate cfg) (ps_LagChangeRate result)
           then HealthCritical else HealthWarning)
      | StatusEmpty \<Rightarrow>
          (if ps_LagTrend result = TrendIncreasing \<and> 1000 < sint (ps_CurrentLag result)
           then HealthWarning else HealthGood)
      | StatusActive \<Rightarrow>
          (if ps_LagTrend result = TrendIncreasing \<and> 1000 < sint (ps_CurrentLag result)
           then HealthWarning else HealthGood)
      | _ \<Rightarrow> HealthWarning)"

definition determineHealth ::
  "Config \<Rightarrow> PartitionConsumerStatus \<Rightarrow> PartitionConsumerStatus" where
  "determineHealth cfg result = result\<lparr>ps_Health := health_of cfg result\<rparr>"

section \<open>Evaluation of a partition\<close>

definition EvaluatePartitionConsumer ::
  "Config \<Rightarrow> OffsetRecord list \<Rightarrow> string \<Rightarrow> string \<Rightarrow> i32 \<Rightarrow> PartitionConsumerStatus" where
  "EvaluatePartitionConsumer cfg records groupID topic partn =
     (if length records = 0 then
        zero_PartitionConsumerStatus
          \<lparr>ps_GroupID := groupID, ps_Topic := topic, ps_Partition := partn,
           ps_Status := StatusUnknown, ps_LagTrend := TrendUnknown, ps_Health := HealthWarning,
           ps_Message := ''No data available''\<rparr>
      else
        let latest = last records;
            result = zero_PartitionConsumerStatus
              \<lparr>ps_GroupID := groupID, ps_Topic := topic, ps_Partition := partn,
               ps_CurrentOffset := or_Offset latest,
               ps_HighWatermark := or_HighWatermark latest,
               ps_CurrentLag := or_Lag latest,
               ps_LastUpdateTime := or_CheckTimestamp latest,
               ps_WindowCompleteness :=
                 f_mul (f_div (f_of_int (int (length records))) (f_of_int (cfg_WindowSize cfg)))
                   (FFin 100)\<rparr>
        in if int (length records) < cfg_MinWindowSize cfg then
             result\<lparr>ps_Status := StatusUnknown, ps_LagTrend := TrendUnknown,
                    ps_Health := HealthWarning,
                    ps_Message := ''Insufficient data: '' @ itoa (int (length records)) @ ''/'' @
                      itoa (cfg_MinWindowSize cfg) @ '' records''\<rparr>
           else
             determineHealth cfg
               (determineTrend cfg
                 (determineStatus cfg (calculateMetrics result records) records) records))"

lemmas evaluator_defs = isConsumerActive_def timeSinceLastOffsetChange_def
  calculateConsumptionRate_def calculateLagChangeRate_def calculateMetrics_def sum_lag_def
  averageLag_def calculateLagTrend_def determineTrend_def determineStatus_def health_of_def
  determineHealth_def EvaluatePartitionConsumer_def


section \<open>Windows\<close>

lemma isConsumerActive_iff:
  "isConsumerActive rs \<longleftrightarrow> (\<exists>r \<in> set (lastn 5 rs). or_Offset r \<noteq> or_Offset (last rs))"
proof (cases "length rs < 2")
  case True
  then have "rs = [] \<or> (\<exists>r. rs = [r])" by (cases rs; cases "tl rs") auto
  then show ?thesis by (auto simp: isConsumerActive_def lastn_def)
next
  case False
  let ?w = "lastn 5 rs"
  have drop: "drop (length rs - min 5 (length rs)) rs = ?w" by (simp add: lastn_def min_def)
  have ne: "?w \<noteq> []" using False by (auto simp: lastn_def)
  have "last ?w = last rs" using False by (simp add: lastn_def)
  with ne have last: "or_Offset (last rs) \<in> set (map or_Offset ?w)" by (metis image_eqI last_in_set set_map)
  have "1 < length (remdups (map or_Offset ?w)) \<longleftrightarrow> 1 < card (set (map or_Offset ?w))"
    by (simp only: length_remdups_card_conv)
  also have "\<dots> \<longleftrightarrow> (\<exists>x \<in> set (map or_Offset ?w). x \<noteq> or_Offset (last rs))"
  proof
    assume "1 < card (set (map or_Offset ?w))"
    then have "\<not> set (map or_Offset ?w) \<subseteq> {or_Offset (last rs)}"
      using card_mono [of "{or_Offset (last rs)}" "set (map or_Offset ?w)"] by auto
    then show "\<exists>x \<in> set (map or_Offset ?w). x \<noteq> or_Offset (last rs)" by blast
  next
    assume "\<exists>x \<in> set (map or_Offset ?w). x \<noteq> or_Offset (last rs)"
    then obtain x where "x \<in> set (map or_Offset ?w)" "x \<noteq> or_Offset (last rs)" by blast
    with last have "card {x, or_Offset (last rs)} \<le> card (set (map or_Offset ?w))"
      by (intro card_mono) auto
    with \<open>x \<noteq> or_Offset (last rs)\<close> show "1 < card (set (map or_Offset ?w))" by simp
  qed
  finally show ?thesis using False by (simp add: isConsumerActive_def Let_def drop)
qed

text \<open>Where the last run of equal offsets starts.\<close>

definition run_start :: "OffsetRecord list \<Rightarrow> nat \<Rightarrow> bool" where
  "run_start rs j \<longleftrightarrow> j < length rs \<and> (\<forall>i. j \<le> i \<and> i < length rs \<longrightarrow> or_Offset (rs ! i) = or_Offset (last rs))
     \<and> (j = 0 \<or> or_Offset (rs ! (j - 1)) \<noteq> or_Offset (last rs))"

lemma tslc_loop_run:
  assumes "k < length rs" and "\<forall>i. k \<le> i \<and> i < length rs \<longrightarrow> or_Offset (rs ! i) = or_Offset (last rs)"
  shows "\<exists>j. run_start rs j \<and>
    tslc_loop rs (or_Offset (last rs)) k = time_sub (or_CheckTimestamp (last rs)) (or_CheckTimestamp (rs ! j))"
  using assms
proof (induction k)
  case 0
  then have "run_start rs 0" by (simp add: run_start_def)
  then show ?case by auto
next
  case (Suc k)
  show ?case
  proof (cases "or_Offset (rs ! k) = or_Offset (last rs)")
    case True
    then have "\<forall>i. k \<le> i \<and> i < length rs \<longrightarrow> or_Offset (rs ! i) = or_Offset (last rs)"
      using Suc.prems by (metis le_neq_implies_less Suc_leI)
    with Suc.IH Suc.prems True show ?thesis by simp
  next
    case False
    then have "run_start rs (Suc k)" using Suc.prems by (simp add: run_start_def)
    with False show ?thesis by auto
  qed
qed

lemma timeSince_run:
  assumes "rs \<noteq> []"
  shows "\<exists>j. run_start rs j \<and> timeSinceLastOffsetChange rs =
    time_sub (or_CheckTimestamp (last rs)) (or_CheckTimestamp (rs ! j))"
proof (cases "length rs < 2")
  case True
  with assms obtain r where "rs = [r]" by (cases rs; cases "tl rs") auto
  then show ?thesis by (auto simp: timeSinceLastOffsetChange_def run_start_def)
next
  case False
  have "\<forall>i. length rs - 1 \<le> i \<and> i < length rs \<longrightarrow> or_Offset (rs ! i) = or_Offset (last rs)"
    using assms by (metis One_nat_def Suc_pred last_conv_nth le_antisym length_greater_0_conv less_Suc_eq_le)
  from tslc_loop_run [OF _ this] False show ?thesis
    by (simp add: timeSinceLastOffsetChange_def)
qed

lemma run_start_le:
  assumes "run_start rs i" and "run_start rs j"
  shows "j \<le> i"
proof (rule ccontr)
  assume "\<not> j \<le> i"
  then have j: "i \<le> j - 1" "j - 1 < length rs" "j \<noteq> 0" using assms(2) by (auto simp: run_start_def)
  then have "or_Offset (rs ! (j - 1)) = or_Offset (last rs)" using assms(1) by (simp add: run_start_def)
  with j assms(2) show False by (simp add: run_start_def)
qed

lemma run_start_unique: "run_start rs i \<Longrightarrow> run_start rs j \<Longrightarrow> i = j"
  using run_start_le [of rs i j] run_start_le [of rs j i] by simp

lemma timeSince_eq:
  assumes "run_start rs j"
  shows "timeSinceLastOffsetChange rs =
    time_sub (or_CheckTimestamp (last rs)) (or_CheckTimestamp (rs ! j))"
proof -
  have "rs \<noteq> []" using assms by (auto simp: run_start_def)
  then obtain i where "run_start rs i" and eq: "timeSinceLastOffsetChange rs =
      time_sub (or_CheckTimestamp (last rs)) (or_CheckTimestamp (rs ! i))"
    using timeSince_run by blast
  then have "i = j" using assms run_start_unique by blast
  with eq show ?thesis by simp
qed

section \<open>Status\<close>

definition evaluable :: "Config \<Rightarrow> OffsetRecord list \<Rightarrow> bool" where
  "evaluable cfg rs \<longleftrightarrow> rs \<noteq> [] \<and> cfg_MinWindowSize cfg \<le> int (length rs)"

definition status_of :: "Config \<Rightarrow> OffsetRecord list \<Rightarrow> ConsumerStatus" where
  "status_of cfg rs =
     (if \<not> isConsumerActive rs then
        if or_Lag (last rs) = 0 then StatusEmpty
        else if cfg_InactivityTimeout cfg < timeSinceLastOffsetChange rs then StatusStopped
        else StatusStalled
      else if f_lt (calculateConsumptionRate rs) (cfg_StalledConsumptionRate cfg) then StatusStalled
      else if or_Lag (last rs) = 0 then StatusEmpty
      else if f_lt (cfg_RapidLagIncreaseRate cfg) (calculateLagChangeRate rs) then StatusLagging
      else StatusActive)"

lemma determineStatus_status:
  "ps_Status (determineStatus cfg p rs) =
     (if \<not> ps_IsActive p then
        if ps_CurrentLag p = 0 then StatusEmpty
        else if cfg_InactivityTimeout cfg < ps_TimeSinceLastMove p then StatusStopped
        else StatusStalled
      else if f_lt (ps_ConsumptionRate p) (cfg_StalledConsumptionRate cfg) then StatusStalled
      else if ps_CurrentLag p = 0 then StatusEmpty
      else if f_lt (cfg_RapidLagIncreaseRate cfg) (ps_LagChangeRate p) then StatusLagging
      else StatusActive)"
  by (simp add: determineStatus_def)

lemma determineStatus_frame [simp]:
  "ps_GroupID (determineStatus cfg p rs) = ps_GroupID p"
  "ps_Topic (determineStatus cfg p rs) = ps_Topic p"
  "ps_Partition (determineStatus cfg p rs) = ps_Partition p"
  "ps_CurrentOffset (determineStatus cfg p rs) = ps_CurrentOffset p"
  "ps_HighWatermark (determineStatus cfg p rs) = ps_HighWatermark p"
  "ps_CurrentLag (determineStatus cfg p rs) = ps_CurrentLag p"
  "ps_LastUpdateTime (determineStatus cfg p rs) = ps_LastUpdateTime p"
  "ps_LagTrend (determineStatus cfg p rs) = ps_LagTrend p"
  "ps_ConsumptionRate (determineStatus cfg p rs) = ps_ConsumptionRate p"
  "ps_LagChangeRate (determineStatus cfg p rs) = ps_LagChangeRate p"
  "ps_WindowCompleteness (determineStatus cfg p rs) = ps_WindowCompleteness p"
  "ps_IsActive (determineStatus cfg p rs) = ps_IsActive p"
  "ps_TimeSinceLastMove (determineStatus cfg p rs) = ps_TimeSinceLastMove p"
  by (simp_all add: determineStatus_def)

lemma determineTrend_def':
  "determineTrend cfg p rs = p\<lparr>ps_LagTrend := calculateLagTrend cfg rs\<rparr>"
  by (simp add: determineTrend_def calculateLagTrend_def)

lemma evaluate_identity [simp]:
  "ps_GroupID (EvaluatePartitionConsumer cfg rs g t p) = g"
  "ps_Topic (EvaluatePartitionConsumer cfg rs g t p) = t"
  "ps_Partition (EvaluatePartitionConsumer cfg rs g t p) = p"
  by (simp_all add: EvaluatePartitionConsumer_def determineHealth_def determineTrend_def'
      calculateMetrics_def Let_def)

lemma evaluate_latest:
  "rs \<noteq> [] \<Longrightarrow> ps_CurrentLag (EvaluatePartitionConsumer cfg rs g t p) = or_Lag (last rs)"
  "rs \<noteq> [] \<Longrightarrow> ps_CurrentOffset (EvaluatePartitionConsumer cfg rs g t p) = or_Offset (last rs)"
  "rs \<noteq> [] \<Longrightarrow> ps_HighWatermark (EvaluatePartitionConsumer cfg rs g t p) = or_HighWatermark (last rs)"
  "rs \<noteq> [] \<Longrightarrow> ps_LastUpdateTime (EvaluatePartitionConsumer cfg rs g t p) = or_CheckTimestamp (last rs)"
  by (simp_all add: EvaluatePartitionConsumer_def determineHealth_def determineTrend_def'
      calculateMetrics_def Let_def)

text \<open>The rates and the completeness are floats, also when nothing is evaluated.\<close>

lemma evaluate_floats:
  "is_f64 (ps_ConsumptionRate (EvaluatePartitionConsumer cfg rs g t p))"
  "is_f64 (ps_LagChangeRate (EvaluatePartitionConsumer cfg rs g t p))"
  "is_f64 (ps_WindowCompleteness (EvaluatePartitionConsumer cfg rs g t p))"
proof -
  have rates: "is_f64 (calculateConsumptionRate rs)" "is_f64 (calculateLagChangeRate rs)"
    by (simp_all add: calculateConsumptionRate_def calculateLagChangeRate_def Let_def)
  have kept: "ps_ConsumptionRate (determineTrend cfg st rs) = ps_ConsumptionRate st"
      "ps_LagChangeRate (determineTrend cfg st rs) = ps_LagChangeRate st"
      "ps_WindowCompleteness (determineTrend cfg st rs) = ps_WindowCompleteness st" for st
    by (simp_all add: determineTrend_def)
  show "is_f64 (ps_ConsumptionRate (EvaluatePartitionConsumer cfg rs g t p))"
    "is_f64 (ps_LagChangeRate (EvaluatePartitionConsumer cfg rs g t p))"
    "is_f64 (ps_WindowCompleteness (EvaluatePartitionConsumer cfg rs g t p))"
    using rates
    by (simp_all add: EvaluatePartitionConsumer_def zero_PartitionConsumerStatus_def determineHealth_def kept
        calculateMetrics_def Let_def)
qed

lemma evaluate_metrics:
  assumes "evaluable cfg rs"
  shows "ps_Status (EvaluatePartitionConsumer cfg rs g t p) = status_of cfg rs"
    and "ps_LagTrend (EvaluatePartitionConsumer cfg rs g t p) = calculateLagTrend cfg rs"
    and "ps_LagChangeRate (EvaluatePartitionConsumer cfg rs g t p) = calculateLagChangeRate rs"
    and "ps_ConsumptionRate (EvaluatePartitionConsumer cfg rs g t p) = calculateConsumptionRate rs"
    and "ps_IsActive (EvaluatePartitionConsumer cfg rs g t p) = isConsumerActive rs"
    and "ps_TimeSinceLastMove (EvaluatePartitionConsumer cfg rs g t p) = timeSinceLastOffsetChange rs"
  using assms by (simp_all add: evaluable_def EvaluatePartitionConsumer_def determineHealth_def determineTrend_def'
      calculateMetrics_def Let_def determineStatus_status status_of_def)

lemma evaluate_unknown:
  assumes "\<not> evaluable cfg rs"
  shows "ps_Status (EvaluatePartitionConsumer cfg rs g t p) = StatusUnknown"
    and "ps_LagTrend (EvaluatePartitionConsumer cfg rs g t p) = TrendUnknown"
    and "ps_Health (EvaluatePartitionConsumer cfg rs g t p) = HealthWarning"
  using assms by (auto simp add: evaluable_def EvaluatePartitionConsumer_def Let_def)

lemma determineHealth_health: "ps_Health (determineHealth cfg q) = health_of cfg (determineHealth cfg q)"
proof -
  have "health_of cfg (q\<lparr>ps_Health := h\<rparr>) = health_of cfg q" for h
    by (cases "ps_Status q") (simp_all add: health_of_def)
  moreover have "ps_Health (q\<lparr>ps_Health := h\<rparr>) = h" for h by simp
  ultimately show ?thesis by (simp only: determineHealth_def)
qed

lemma evaluate_health:
  assumes "evaluable cfg rs"
  shows "ps_Health (EvaluatePartitionConsumer cfg rs g t p) =
    (case status_of cfg rs of
       StatusStopped \<Rightarrow> HealthCritical
     | StatusStalled \<Rightarrow> HealthCritical
     | StatusLagging \<Rightarrow>
         (if calculateLagTrend cfg rs = TrendIncreasing then HealthCritical else HealthWarning)
     | StatusActive \<Rightarrow>
         (if calculateLagTrend cfg rs = TrendIncreasing \<and> 1000 < sint (or_Lag (last rs))
          then HealthWarning else HealthGood)
     | _ \<Rightarrow> HealthGood)"
proof -
  have "ps_Health (EvaluatePartitionConsumer cfg rs g t p) =
      health_of cfg (EvaluatePartitionConsumer cfg rs g t p)"
  proof -
    obtain q where "EvaluatePartitionConsumer cfg rs g t p = determineHealth cfg q"
      using assms by (simp add: evaluable_def EvaluatePartitionConsumer_def Let_def)
    then show ?thesis by (simp only: determineHealth_health)
  qed
  then show ?thesis using assms
    by (simp add: health_of_def evaluate_metrics evaluate_latest evaluable_def status_of_def)
qed


section \<open>One more record\<close>

lemma status_of_inactive_iff:
  "status_of cfg rs \<in> {StatusActive, StatusLagging} \<Longrightarrow> isConsumerActive rs"
  by (auto simp: status_of_def split: if_splits)

lemma status_of_stopped_iff:
  "status_of cfg rs = StatusStopped \<longleftrightarrow>
     \<not> isConsumerActive rs \<and> or_Lag (last rs) \<noteq> 0 \<and>
     cfg_InactivityTimeout cfg < timeSinceLastOffsetChange rs"
  by (simp add: status_of_def)

text \<open>
  When a window with recent movement turns into one without after one more record, the run of
  equal offsets is exactly the last five records: the consumer last moved four checks ago.
\<close>

lemma run_start_after_active:
  assumes act: "isConsumerActive rs" and inact: "\<not> isConsumerActive (rs @ [r])"
  shows "5 \<le> length rs \<and> run_start (rs @ [r]) (length rs - 4)"
proof -
  let ?n = "length rs"
  have same: "or_Offset q = or_Offset r" if "q \<in> set (lastn 5 (rs @ [r]))" for q
    using inact that unfolding isConsumerActive_iff last_snoc by blast
  have five: "lastn 5 (rs @ [r]) = lastn 4 rs @ [r]" by (simp add: lastn_snoc)
  have same4: "or_Offset q = or_Offset r" if "q \<in> set (lastn 4 rs)" for q
    by (rule same) (simp add: five that)
  obtain q where q: "q \<in> set (lastn 5 rs)" "or_Offset q \<noteq> or_Offset (last rs)"
    using act unfolding isConsumerActive_iff by blast
  have ne: "rs \<noteq> []" using q(1) by auto
  have lastr: "or_Offset (last rs) = or_Offset r"
    using ne by (intro same4 last_in_lastn) simp_all
  have q4: "q \<notin> set (lastn 4 rs)" using q(2) lastr same4 by metis
  have len: "5 \<le> ?n"
  proof (rule ccontr)
    assume "\<not> 5 \<le> ?n"
    then have "lastn 5 rs = lastn 4 rs" by (simp add: lastn_def)
    with q(1) q4 show False by simp
  qed
  then have "lastn 5 rs = rs ! (?n - 5) # lastn 4 rs" using lastn_Suc [of 4 rs] by simp
  with q(1) q4 have "q = rs ! (?n - 5)" by simp
  with q(2) lastr have q5: "or_Offset (rs ! (?n - 5)) \<noteq> or_Offset r" by metis
  have run: "or_Offset ((rs @ [r]) ! i) = or_Offset r" if i: "?n - 4 \<le> i" "i < Suc ?n" for i
  proof (cases "i = ?n")
    case False
    then have "rs ! i \<in> set (lastn 4 rs)" using i by (simp add: nth_in_lastn)
    then have "or_Offset (rs ! i) = or_Offset r" by (rule same4)
    then show ?thesis using i False by (simp add: nth_append)
  qed simp
  have "or_Offset ((rs @ [r]) ! (?n - 4 - 1)) \<noteq> or_Offset r"
    using len q5 by (simp add: nth_append)
  then have "run_start (rs @ [r]) (?n - 4)"
    unfolding run_start_def last_snoc using run by simp
  with len show ?thesis by simp
qed


lemma isConsumerActive_lastn: "5 \<le> n \<Longrightarrow> isConsumerActive (lastn n rs) = isConsumerActive rs"
proof (cases "rs = []")
  case False
  assume n: "5 \<le> n"
  have "last (lastn n rs) = last rs" using False n by (simp add: lastn_def)
  moreover have "lastn 5 (lastn n rs) = lastn 5 rs"
  proof -
    have "length rs - n + (length rs - (length rs - n + 5)) = length rs - 5" using n by linarith
    then show ?thesis by (simp add: lastn_def add.commute)
  qed
  ultimately show ?thesis by (simp only: isConsumerActive_iff)
qed simp

lemma run_start_drop:
  assumes "run_start rs j" and "d \<le> j"
  shows "run_start (drop d rs) (j - d)"
proof -
  have j: "j < length rs" using assms(1) by (simp add: run_start_def)
  have lst: "last (drop d rs) = last rs" using j assms(2) by simp
  have same: "or_Offset (rs ! i) = or_Offset (last rs)" if "j \<le> i" "i < length rs" for i
    using assms(1) that unfolding run_start_def by blast
  have "or_Offset (drop d rs ! i) = or_Offset (last rs)" if "j - d \<le> i" "i < length rs - d" for i
    using that j assms(2) same [of "d + i"] by simp
  moreover have "j - d = 0 \<or> or_Offset (drop d rs ! (j - d - 1)) \<noteq> or_Offset (last rs)"
    using assms j by (cases "j = d") (auto simp: run_start_def)
  ultimately show ?thesis using j assms(2) unfolding run_start_def lst by simp
qed

lemma timeSince_after_active:
  assumes "isConsumerActive rs" and "\<not> isConsumerActive (lastn n (rs @ [r]))"
    and "5 \<le> n" and "length rs \<le> n"
  shows "5 \<le> length rs \<and> timeSinceLastOffsetChange (lastn n (rs @ [r])) =
    time_sub (or_CheckTimestamp r) (or_CheckTimestamp (rs ! (length rs - 4)))"
proof -
  let ?d = "Suc (length rs) - n"
  have run: "5 \<le> length rs" "run_start (rs @ [r]) (length rs - 4)"
    using run_start_after_active [of rs r] assms by (auto simp: isConsumerActive_lastn)
  have d: "?d \<le> length rs - 4" "?d \<le> 1" using assms(3,4) run(1) by linarith+
  have "run_start (lastn n (rs @ [r])) (length rs - 4 - ?d)"
    using run_start_drop [OF run(2) d(1)] by (simp add: lastn_def)
  moreover have "last (lastn n (rs @ [r])) = r"
    using run(1) assms(3) by (simp add: lastn_snoc)
  moreover have "lastn n (rs @ [r]) ! (length rs - 4 - ?d) = rs ! (length rs - 4)"
    using d run(1) assms(3) by (simp add: lastn_def nth_append)
  ultimately show ?thesis using run(1) timeSince_eq by simp
qed

section \<open>Trend\<close>

definition lag_total :: "OffsetRecord list \<Rightarrow> int" where
  "lag_total rs = (\<Sum>r\<leftarrow>rs. sint (or_Lag r))"

definition lags_ok :: "OffsetRecord list \<Rightarrow> bool" where
  "lags_ok rs \<longleftrightarrow> (\<forall>r \<in> set rs. 0 \<le> sint (or_Lag r)) \<and> lag_total rs < 2 ^ 63"

lemma lag_total_append [simp]: "lag_total (xs @ ys) = lag_total xs + lag_total ys"
  by (simp add: lag_total_def)

lemma lag_total_nonneg: "\<forall>r \<in> set rs. 0 \<le> sint (or_Lag r) \<Longrightarrow> 0 \<le> lag_total rs"
  unfolding lag_total_def by (induction rs) auto

lemma lags_ok_append: "lags_ok (xs @ ys) \<Longrightarrow> lags_ok xs \<and> lags_ok ys"
  using lag_total_nonneg [of xs] lag_total_nonneg [of ys] by (auto simp: lags_ok_def)

lemma lags_ok_take: "lags_ok rs \<Longrightarrow> lags_ok (take n rs)"
  using lags_ok_append [of "take n rs" "drop n rs"] by simp

lemma lags_ok_drop: "lags_ok rs \<Longrightarrow> lags_ok (drop n rs)"
  using lags_ok_append [of "take n rs" "drop n rs"] by simp

lemma sum_lag_eq: "lags_ok rs \<Longrightarrow> sint (sum_lag rs) = lag_total rs"
proof (induction rs rule: rev_induct)
  case Nil
  then show ?case by (simp add: sum_lag_def lag_total_def)
next
  case (snoc r rs)
  then have "sint (sum_lag rs) = lag_total rs" using lags_ok_append by blast
  moreover have "sum_lag (rs @ [r]) = sum_lag rs + or_Lag r" by (simp add: sum_lag_def)
  moreover have "0 \<le> lag_total (rs @ [r])" "lag_total (rs @ [r]) < 2 ^ 63"
    using snoc.prems lag_total_nonneg unfolding lags_ok_def by blast+
  ultimately show ?case
    by (simp add: sint_i64_add wrap64_id lag_total_def)
qed

text \<open>The average of \<open>n\<close> lags that add up to \<open>s\<close>, as the code rounds it.\<close>

definition avg64 :: "int \<Rightarrow> nat \<Rightarrow> rat" where
  "avg64 s n = rval (rval (of_int s) / of_nat n)"

lemma avg64_bounds:
  assumes "0 \<le> s" and "s < 2 ^ 63" and "0 < n"
  shows "0 \<le> avg64 s n \<and> avg64 s n \<le> 2 ^ 63"
proof -
  have "(of_int s :: rat) \<le> of_int (2 ^ 63)" using assms(2) by (simp only: of_int_le_iff less_imp_le)
  then have r: "0 \<le> rval (of_int s)" "rval (of_int s) \<le> 2 ^ 63"
    using rval_small [of "of_int s"] assms(1) by simp_all
  have "rval (of_int s) / of_nat n \<le> rval (of_int s) / 1"
    using r(1) assms(3) by (intro divide_left_mono) simp_all
  then show ?thesis using rval_small [of "rval (of_int s) / of_nat n"] r by (simp add: avg64_def)
qed

lemma avg64_mono: "s \<le> t \<Longrightarrow> avg64 s n \<le> avg64 t n"
  unfolding avg64_def by (intro rval_mono divide_right_mono) simp_all

lemma averageLag_eq:
  assumes "lags_ok rs" and "rs \<noteq> []" and "int (length rs) \<le> 2 ^ 53"
  shows "averageLag rs = FFin (avg64 (lag_total rs) (length rs))"
proof -
  let ?s = "lag_total rs" and ?n = "length rs"
  have s: "0 \<le> ?s" "?s < 2 ^ 63" using assms(1) lag_total_nonneg by (auto simp: lags_ok_def)
  have le: "(of_int ?s :: rat) \<le> of_int (2 ^ 63)" using s(2) by (simp only: of_int_le_iff less_imp_le)
  have big: "(2::rat) ^ 63 \<le> 2 ^ 64" by (rule power_increasing) simp_all
  have f1: "f_of_int ?s = FFin (rval (of_int ?s))"
    unfolding f_of_int_def using s(1) le big by (intro round64_finite) simp
  have f2: "f_of_int (int ?n) = FFin (of_nat ?n)" using f_of_int_exact [of "int ?n"] assms(3) by simp
  have r: "0 \<le> rval (of_int ?s)" "rval (of_int ?s) \<le> 2 ^ 63"
    using rval_small [of "of_int ?s"] s(1) le by simp_all
  have "rval (of_int ?s) / of_nat ?n \<le> rval (of_int ?s) / 1"
    using r(1) assms(2) by (intro divide_left_mono) (simp_all add: Suc_leI)
  then have "round64 (rval (of_int ?s) / of_nat ?n) = FFin (avg64 ?s ?n)"
    unfolding avg64_def using r big by (intro round64_finite) simp
  then show ?thesis using assms(2) by (simp add: averageLag_def sum_lag_eq [OF assms(1)] f1 f2)
qed


lemma trend_div_pos:
  assumes "0 < f" and "f_lt (FFin 0) (f_div (f_sub (FFin l) (FFin f)) (FFin f))" "0 \<le> l" "l \<le> 2 ^ 63" "f \<le> 2 ^ 63"
  shows "f < l"
proof -
  have "(2::rat) ^ 63 \<le> 2 ^ 64" by (rule power_increasing) simp_all
  then have fin: "round64 (l - f) = FFin (rval (l - f))"
    using assms by (intro round64_finite) (simp add: abs_le_iff)
  have "0 < rval (rval (l - f) / f)"
    using assms(1,2) fin by (simp add: f_sub_def round64_pos_iff)
  then have "0 < rval (l - f) / f" by (rule rval_pos_imp)
  then have "0 < rval (l - f)" using assms(1) by (simp add: zero_less_divide_iff)
  then have "0 < l - f" by (rule rval_pos_imp)
  then show ?thesis by simp
qed

lemma trend_div_neg:
  assumes "0 < f" and "0 \<le> l" "l \<le> 2 ^ 63" "f \<le> 2 ^ 63" and "f_lt (FFin 0) thr"
    and rc: "rc = f_div (f_sub (FFin l) (FFin f)) (FFin f)"
    and "\<not> f_lt (f_abs rc) thr" and "\<not> f_lt (FFin 0) rc"
  shows "l < f"
proof (rule ccontr)
  assume "\<not> l < f"
  then have "0 \<le> l - f" by simp
  then have nn: "0 \<le> rval (l - f)" by (rule rval_nonneg)
  have "(2::rat) ^ 63 \<le> 2 ^ 64" by (rule power_increasing) simp_all
  then have fin: "round64 (l - f) = FFin (rval (l - f))"
    using assms by (intro round64_finite) (simp add: abs_le_iff)
  let ?q = "rval (l - f) / f"
  have rcq: "rc = round64 ?q" using assms(1) fin rc by (simp add: f_sub_def)
  have "0 \<le> ?q" using nn assms(1) by simp
  then have "0 \<le> rval ?q" by (rule rval_nonneg)
  moreover have "\<not> 0 < rval ?q" using assms(8) unfolding rcq round64_pos_iff .
  ultimately have "rval ?q = 0" by simp
  then have "rc = FFin 0" by (simp add: rcq round64_def)
  with assms(5,7) show False by simp
qed

definition trend_decide :: "f64 \<Rightarrow> rat \<Rightarrow> rat \<Rightarrow> LagTrend" where
  "trend_decide thr f l = (if f = 0 \<and> l = 0 then TrendStable
     else if 0 < f then
       let relativeChange = f_div (f_sub (FFin l) (FFin f)) (FFin f) in
       if f_lt (f_abs relativeChange) thr then TrendStable
       else if f_lt (FFin 0) relativeChange then TrendIncreasing else TrendDecreasing
     else if 0 < l then TrendIncreasing else TrendStable)"

lemma trend_decide_increasing:
  assumes "trend_decide thr f l = TrendIncreasing" and "0 \<le> f" "f \<le> 2 ^ 63" "0 \<le> l" "l \<le> 2 ^ 63"
  shows "f < l"
proof (cases "0 < f")
  case True
  define rc where "rc = f_div (f_sub (FFin l) (FFin f)) (FFin f)"
  have "f_lt (FFin 0) rc"
    using assms(1) True by (simp add: trend_decide_def Let_def rc_def [symmetric] split: if_splits)
  then show ?thesis unfolding rc_def by (rule trend_div_pos [OF True _ assms(4,5,3)])
next
  case False
  with assms(1,2) show ?thesis by (simp add: trend_decide_def split: if_splits)
qed

lemma trend_decide_decreasing:
  assumes "trend_decide thr f l = TrendDecreasing" and "0 \<le> l" "l \<le> 2 ^ 63" "f \<le> 2 ^ 63"
    and thr: "f_lt (FFin 0) thr"
  shows "l < f"
proof -
  have pos: "0 < f" using assms(1) by (simp add: trend_decide_def split: if_splits)
  have "\<not> f_lt (f_abs (f_div (f_sub (FFin l) (FFin f)) (FFin f))) thr"
    "\<not> f_lt (FFin 0) (f_div (f_sub (FFin l) (FFin f)) (FFin f))"
    using assms(1) pos by (simp_all add: trend_decide_def Let_def split: if_splits)
  then show ?thesis by (rule trend_div_neg [OF pos assms(2-4) thr refl])
qed

definition third_len :: "OffsetRecord list \<Rightarrow> nat" where
  "third_len rs = (if length rs div 3 = 0 then 1 else length rs div 3)"

definition first_third :: "OffsetRecord list \<Rightarrow> OffsetRecord list" where
  "first_third rs = take (third_len rs) rs"

definition last_third :: "OffsetRecord list \<Rightarrow> OffsetRecord list" where
  "last_third rs = drop (length rs - third_len rs) rs"

lemma third_len_bounds: "3 \<le> length rs \<Longrightarrow> 0 < third_len rs \<and> third_len rs \<le> length rs"
  by (auto simp: third_len_def)

text \<open>The trend in terms of the exact averages of the two outer thirds.\<close>

lemma calculateLagTrend_avg:
  assumes "3 \<le> length rs" and "lags_ok rs" and "int (length rs) \<le> 2 ^ 53"
  defines "f \<equiv> avg64 (lag_total (first_third rs)) (third_len rs)"
    and "l \<equiv> avg64 (lag_total (last_third rs)) (third_len rs)"
  shows "calculateLagTrend cfg rs =
    trend_decide (cfg_LagTrendThreshold cfg) f l"
    and "0 \<le> f" and "f \<le> 2 ^ 63" and "0 \<le> l" and "l \<le> 2 ^ 63"
proof -
  let ?k = "third_len rs"
  have k: "0 < ?k" "?k \<le> length rs" using third_len_bounds [OF assms(1)] by simp_all
  have len: "length (first_third rs) = ?k" "length (last_third rs) = ?k"
    using k by (simp_all add: first_third_def last_third_def)
  have ok: "lags_ok (first_third rs)" "lags_ok (last_third rs)"
    using assms(2) by (simp_all add: first_third_def last_third_def lags_ok_take lags_ok_drop)
  have small: "int ?k \<le> 2 ^ 53" using assms(3) k(2) by linarith
  have ne: "first_third rs \<noteq> []" "last_third rs \<noteq> []" using len k by auto
  have avgs: "averageLag (first_third rs) = FFin f" "averageLag (last_third rs) = FFin l"
    using averageLag_eq [OF ok(1) ne(1)] averageLag_eq [OF ok(2) ne(2)] len small
    by (simp_all add: f_def l_def)
  show "calculateLagTrend cfg rs =
    trend_decide (cfg_LagTrendThreshold cfg) f l"
    using assms(1) avgs unfolding calculateLagTrend_def first_third_def last_third_def third_len_def
    by (simp add: Let_def trend_decide_def)
  have nn: "0 \<le> lag_total (first_third rs)" "0 \<le> lag_total (last_third rs)"
    "lag_total (first_third rs) < 2 ^ 63" "lag_total (last_third rs) < 2 ^ 63"
    using ok lag_total_nonneg unfolding lags_ok_def by blast+
  show "0 \<le> f" "f \<le> 2 ^ 63" "0 \<le> l" "l \<le> 2 ^ 63"
    using avg64_bounds [OF nn(1,3) k(1)] avg64_bounds [OF nn(2,4) k(1)] by (simp_all add: f_def l_def)
qed

lemma trend_increasing_sound:
  assumes "3 \<le> length rs" and "lags_ok rs" and "int (length rs) \<le> 2 ^ 53"
    and inc: "calculateLagTrend cfg rs = TrendIncreasing"
  shows "lag_total (first_third rs) < lag_total (last_third rs)"
proof -
  note avg = calculateLagTrend_avg [OF assms(1-3)]
  have "avg64 (lag_total (first_third rs)) (third_len rs) < avg64 (lag_total (last_third rs)) (third_len rs)"
    using inc unfolding avg(1) by (rule trend_decide_increasing [OF _ avg(2-5)])
  then show ?thesis using avg64_mono by (meson linorder_not_le)
qed

lemma trend_decreasing_sound:
  assumes "3 \<le> length rs" and "lags_ok rs" and "int (length rs) \<le> 2 ^ 53"
    and dec: "calculateLagTrend cfg rs = TrendDecreasing"
    and thr: "f_lt (FFin 0) (cfg_LagTrendThreshold cfg)"
  shows "lag_total (last_third rs) < lag_total (first_third rs)"
proof -
  note avg = calculateLagTrend_avg [OF assms(1-3)]
  have "avg64 (lag_total (last_third rs)) (third_len rs) < avg64 (lag_total (first_third rs)) (third_len rs)"
    using dec unfolding avg(1) by (rule trend_decide_decreasing [OF _ avg(4,5,3) thr])
  then show ?thesis using avg64_mono by (meson linorder_not_le)
qed


section \<open>Exact quotients and rounded rates\<close>

lemma dur_seconds_whole:
  assumes "0 < d" and "d \<le> 2 ^ 53"
  shows "dur_seconds (d * second) = FFin (of_int d)"
proof -
  have "trunc_div (d * second) second = d" "trunc_mod (d * second) second = 0"
    using assms by (simp_all add: trunc_div_def trunc_mod_def second_def)
  moreover have "f_of_int d = FFin (of_int d)" using assms by (intro f_of_int_exact) simp
  moreover have "f_of_int 0 = FFin 0" "f_of_int second = FFin 1000000000"
    using f_of_int_exact [of second] by (simp_all add: f_of_int_def second_def)
  ultimately show ?thesis by (simp add: dur_seconds_def f_of_int_def [symmetric])
qed

definition window_seconds :: "OffsetRecord list \<Rightarrow> int \<Rightarrow> bool" where
  "window_seconds rs d \<longleftrightarrow> 2 \<le> length rs \<and> 0 < d \<and> d \<le> 2 ^ 53 \<and>
     time_sub (or_CheckTimestamp (last rs)) (or_CheckTimestamp (rs ! 0)) = d * second"

definition offset_progress :: "OffsetRecord list \<Rightarrow> int" where
  "offset_progress rs = sint (or_Offset (last rs) - or_Offset (rs ! 0))"

lemma consumption_rate_quotient:
  assumes "window_seconds rs d" and "\<bar>offset_progress rs\<bar> \<le> 2 ^ 53"
  shows "calculateConsumptionRate rs = round64 (of_int (offset_progress rs) / of_int d)"
proof (cases "or_Offset (rs ! 0) = or_Offset (last rs)")
  case True
  then have "offset_progress rs = 0" by (simp add: offset_progress_def)
  with True assms(1) show ?thesis by (simp add: calculateConsumptionRate_def window_seconds_def)
next
  case False
  have "dur_seconds (d * second) = FFin (of_int d)"
    using assms(1) by (intro dur_seconds_whole) (simp_all add: window_seconds_def)
  moreover have "f_of_int (offset_progress rs) = FFin (of_int (offset_progress rs))"
    using assms(2) by (rule f_of_int_exact)
  ultimately show ?thesis using False assms(1)
    by (simp add: calculateConsumptionRate_def window_seconds_def offset_progress_def Let_def)
qed

lemma quotient_normal:
  assumes "n \<noteq> 0" and "0 < d" and "d \<le> 2 ^ 53"
  shows "2 powi (-1022) \<le> \<bar>of_int n / of_int d :: rat\<bar>"
proof -
  have "(2::rat) powi (-1022) \<le> 2 powi (-53)" by (simp only: powi2_le_iff)
  also have "\<dots> = 1 / of_int (2 ^ 53)" by (simp add: power_int_minus divide_simps)
  also have "\<dots> \<le> 1 / of_int d"
    using assms(2,3) by (intro divide_left_mono) (simp_all only: of_int_le_iff, simp_all)
  also have "\<dots> \<le> \<bar>of_int n\<bar> / of_int d"
    using assms(1,2) by (intro divide_right_mono) (simp_all flip: of_int_abs)
  finally show ?thesis using assms(2) by simp
qed

lemma consumption_rate_error:
  assumes "window_seconds rs d" and "\<bar>offset_progress rs\<bar> \<le> 2 ^ 53"
  defines "q \<equiv> of_int (offset_progress rs) / of_int d"
  shows "\<exists>r. calculateConsumptionRate rs = FFin r \<and> \<bar>r - q\<bar> \<le> \<bar>q\<bar> / 2 ^ 53"
proof -
  let ?n = "offset_progress rs"
  have d: "0 < d" "d \<le> 2 ^ 53" using assms(1) by (simp_all add: window_seconds_def)
  have "\<bar>q\<bar> \<le> \<bar>of_int ?n\<bar>"
    using d(1) mult_left_mono [of 1 "of_int d :: rat" "\<bar>of_int ?n\<bar>"]
    by (simp add: q_def divide_le_eq)
  also have "\<dots> \<le> of_int (2 ^ 53)" using assms(2) by (simp only: of_int_le_iff flip: of_int_abs)
  also have "\<dots> \<le> (2::rat) ^ 64" by (simp add: power_increasing)
  finally have "calculateConsumptionRate rs = FFin (rval q)"
    using consumption_rate_quotient [OF assms(1,2)] round64_finite by (simp add: q_def)
  moreover have "\<bar>rval q - q\<bar> \<le> \<bar>q\<bar> / 2 ^ 53"
    using rval_error [of q] quotient_normal [OF _ d, of ?n] by (cases "?n = 0") (simp_all add: q_def)
  ultimately show ?thesis by blast
qed

section \<open>A flat window\<close>

lemma avg64_pos:
  assumes "0 < s" and "0 < n" and "int n \<le> 2 ^ 53"
  shows "0 < avg64 s n"
proof -
  have one: "rval 1 = 1" using rval_of_int [of 1] by simp
  have "1 \<le> rval (of_int s)" using rval_mono [of 1 "of_int s"] assms(1) one by simp
  then have "1 / of_nat n \<le> rval (of_int s) / of_nat n" by (intro divide_right_mono) simp_all
  moreover have "(of_nat n :: rat) \<le> 2 ^ 53"
    using assms(3) by (metis of_int_le_iff of_int_of_nat_eq of_int_numeral of_int_power)
  then have "1 / 2 ^ 53 \<le> 1 / (of_nat n :: rat)" using assms(2) by (intro divide_left_mono) simp_all
  ultimately have "1 / 2 ^ 53 \<le> rval (of_int s) / of_nat n" by (rule order_trans [rotated])
  then have "rval (1 / 2 ^ 53) \<le> avg64 s n" unfolding avg64_def by (rule rval_mono)
  moreover have "0 < rval (1 / 2 ^ 53)" by (simp add: f64_eval)
  ultimately show ?thesis by simp
qed

lemma trend_decide_flat:
  assumes "0 < f"
  shows "trend_decide thr f f = (if f_lt (FFin 0) thr then TrendStable else TrendDecreasing)"
  using assms by (simp add: trend_decide_def f_sub_def Let_def)

lemma trend_flat:
  assumes "3 \<le> length rs" and "lags_ok rs" and "int (length rs) \<le> 2 ^ 53"
    and "lag_total (first_third rs) = lag_total (last_third rs)" and "0 < lag_total (first_third rs)"
  shows "calculateLagTrend cfg rs =
    (if f_lt (FFin 0) (cfg_LagTrendThreshold cfg) then TrendStable else TrendDecreasing)"
proof -
  have k: "0 < third_len rs" "int (third_len rs) \<le> 2 ^ 53"
    using third_len_bounds [OF assms(1)] assms(3) by linarith+
  show ?thesis using trend_decide_flat avg64_pos [OF assms(5) k]
    by (simp add: calculateLagTrend_avg(1) [OF assms(1-3)] assms(4))
qed


section \<open>Properties\<close>

text \<open>
  The configuration of configs/config.dev.yaml, and records as the collector makes them:
  offset, high watermark and the second of the check.
\<close>

definition dev_config :: Config where
  "dev_config = \<lparr>cfg_WindowSize = 10, cfg_MinWindowSize = 5, cfg_CheckInterval = 10 * second,
     cfg_StalledConsumptionRate = round64 (1 / 10), cfg_RapidLagIncreaseRate = FFin 20,
     cfg_LagTrendThreshold = round64 (1 / 10), cfg_InactivityTimeout = 45 * second,
     cfg_MaxConcurrency = 10\<rparr>"

definition check_at :: "i64 \<Rightarrow> i64 \<Rightarrow> int \<Rightarrow> OffsetRecord" where
  "check_at off hw t = \<lparr>or_Offset = off, or_HighWatermark = hw, or_Lag = hw - off,
     or_CheckTimestamp = t * second\<rparr>"

lemmas sample_defs = dev_config_def check_at_def second_def time_sub_def

lemma run_start_iff:
  "run_start rs j \<longleftrightarrow> j < length rs \<and> (\<forall>r \<in> set (drop j rs). or_Offset r = or_Offset (last rs))
     \<and> (j = 0 \<or> or_Offset (rs ! (j - 1)) \<noteq> or_Offset (last rs))"
proof -
  have "(\<forall>r \<in> set (drop j rs). or_Offset r = or_Offset (last rs)) \<longleftrightarrow>
      (\<forall>i. j \<le> i \<and> i < length rs \<longrightarrow> or_Offset (rs ! i) = or_Offset (last rs))"
    by (auto simp: all_set_conv_all_nth) (metis add_diff_inverse_nat diff_less_mono not_less)
  then show ?thesis unfolding run_start_def by blast
qed

text \<open>C1: A partition is reported STOPPED exactly when its window is long enough, the last
  five records (or all, if fewer) carry one offset, the current lag is not zero, and more than
  the inactivity timeout passed since the first record of the last run of that offset.\<close>

theorem evaluate_stopped_iff:
  "ps_Status (EvaluatePartitionConsumer cfg rs g t p) = StatusStopped \<longleftrightarrow>
     evaluable cfg rs \<and> (\<forall>r \<in> set (lastn 5 rs). or_Offset r = or_Offset (last rs)) \<and>
     or_Lag (last rs) \<noteq> 0 \<and>
     (\<exists>j. run_start rs j \<and>
       cfg_InactivityTimeout cfg < time_sub (or_CheckTimestamp (last rs)) (or_CheckTimestamp (rs ! j)))"
proof (cases "evaluable cfg rs")
  case True
  then have "rs \<noteq> []" by (simp add: evaluable_def)
  then show ?thesis using timeSince_run timeSince_eq True
    by (metis evaluate_metrics(1) isConsumerActive_iff status_of_stopped_iff)
qed (simp add: evaluate_unknown)

definition stopped_window :: "OffsetRecord list" where
  "stopped_window = [check_at 100 200 0, check_at 110 210 10, check_at 110 220 20,
     check_at 110 230 30, check_at 110 240 40, check_at 110 250 50, check_at 110 260 60]"

theorem evaluate_stopped_iff_witness:
  "ps_Status (EvaluatePartitionConsumer dev_config stopped_window ''g'' ''t'' 0) = StatusStopped"
proof -
  have "run_start stopped_window 1"
    by (simp add: run_start_iff stopped_window_def sample_defs)
  then show ?thesis unfolding evaluate_stopped_iff
    by (auto simp: stopped_window_def sample_defs evaluable_def lastn_def intro!: exI [of _ 1])
qed

text \<open>The health of every evaluation, from its status, trend and lag: CRITICAL for a stopped
  or stalled consumer and for a lagging one whose lag trend is increasing; GOOD for an idle or
  caught-up consumer and for an active one without a growing lag above 1000; WARNING in
  every other case, insufficient data included.\<close>

lemma evaluate_health_table:
  fixes cfg rs g t p
  defines "e \<equiv> EvaluatePartitionConsumer cfg rs g t p"
  shows "ps_Health e =
    (if ps_Status e = StatusStopped \<or> ps_Status e = StatusStalled \<or>
        (ps_Status e = StatusLagging \<and> ps_LagTrend e = TrendIncreasing)
     then HealthCritical
     else if ps_Status e = StatusEmpty \<or>
        (ps_Status e = StatusActive \<and>
           (if ps_LagTrend e = TrendIncreasing then sint (ps_CurrentLag e) \<le> 1000 else True))
     then HealthGood
     else HealthWarning)"
proof (cases "evaluable cfg rs")
  case True
  then have "rs \<noteq> []" by (simp add: evaluable_def)
  then show ?thesis using True unfolding e_def
    by (simp add: evaluate_health evaluate_metrics evaluate_latest)
      (auto simp: status_of_def split: if_splits)
qed (simp add: e_def evaluate_unknown)


definition slow_checks :: "OffsetRecord list" where
  "slow_checks = [check_at 100 300 0, check_at 200 310 60, check_at 200 320 120,
     check_at 200 330 180, check_at 200 340 240]"





text \<open>A window whose first and last third have the same, positive lag is STABLE when the trend
  threshold is positive. With a threshold that is not (the zero of an unset configuration
  field, or NaN) the same flat window is reported DECREASING.\<close>

lemma lag_trend_flat:
  assumes "3 \<le> length rs" and "lags_ok rs" and "int (length rs) \<le> 2 ^ 53"
    and "lag_total (first_third rs) = lag_total (last_third rs)" and "0 < lag_total (first_third rs)"
  shows "calculateLagTrend cfg rs =
    (if f_lt (FFin 0) (cfg_LagTrendThreshold cfg) then TrendStable else TrendDecreasing)"
  using assms by (rule trend_flat)

text \<open>C33: The reported consumption rate is the true quotient of messages and seconds up to one
  rounding: over a whole number of seconds (up to \<open>2 ^ 53\<close>) and at most \<open>2 ^ 53\<close>
  messages it is a finite value with a relative error of at most \<open>2 ^ -53\<close>.\<close>

theorem consumption_rate_accurate:
  assumes "window_seconds rs d" and "\<bar>offset_progress rs\<bar> \<le> 2 ^ 53"
  shows "\<exists>r. calculateConsumptionRate rs = FFin r \<and>
    \<bar>r - of_int (offset_progress rs) / of_int d\<bar> \<le> \<bar>of_int (offset_progress rs) / of_int d\<bar> / 2 ^ 53"
  using assms by (rule consumption_rate_error)

theorem consumption_rate_accurate_witness:
  "\<exists>r. calculateConsumptionRate stopped_window = FFin r \<and> \<bar>r - 1 / 6\<bar> \<le> 1 / 6 / 2 ^ 53"
proof -
  have w: "window_seconds stopped_window 60" "offset_progress stopped_window = 10"
    by (simp_all add: window_seconds_def offset_progress_def stopped_window_def sample_defs)
  from consumption_rate_accurate [OF w(1)] w(2) show ?thesis by simp
qed


definition crawling_window :: "OffsetRecord list" where
  "crawling_window = [check_at 100 200 0, check_at 101 210 10, check_at 102 220 20,
     check_at 102 230 30, check_at 103 240 40]"


end
