(* ===== verification/Windows.thy ===== *)
theory Windows
  imports Evaluator "HOL-Library.AList"
begin

text \<open>
  The sliding windows of the collector (internal/collector/collector.go): a Go map from
  "group:topic:partition" to the partition's last records.  A Go map is an association
  list with distinct keys; no result below depends on its order.
\<close>

section \<open>Operations\<close>

type_synonym windows = "(string \<times> PartitionWindow) list"

definition windowKey :: "string \<Rightarrow> string \<Rightarrow> i32 \<Rightarrow> string" where
  "windowKey groupID topic partn = groupID @ '':'' @ topic @ '':'' @ itoa (sint partn)"

definition push_record :: "PartitionWindow \<Rightarrow> OffsetRecord \<Rightarrow> PartitionWindow" where
  "push_record window r =
     (let rs = pw_Records window @ [r] in
      window\<lparr>pw_Records := if pw_WindowSize window < int (length rs) then tl rs else rs\<rparr>)"

text \<open>Making a slice with a negative capacity panics.\<close>

definition addToWindow :: "Config \<Rightarrow> windows \<Rightarrow> string \<Rightarrow> OffsetRecord \<Rightarrow> windows go" where
  "addToWindow cfg ws key r =
     (case map_of ws key of
        None \<Rightarrow>
          if cfg_WindowSize cfg < 0 then Panic ''makeslice: cap out of range''
          else Ret (AList.update key
            (push_record \<lparr>pw_Records = [], pw_WindowSize = cfg_WindowSize cfg\<rparr> r) ws)
      | Some window \<Rightarrow> Ret (AList.update key (push_record window r) ws))"

definition getWindowRecords :: "windows \<Rightarrow> string \<Rightarrow> OffsetRecord list" where
  "getWindowRecords ws key =
     (case map_of ws key of None \<Rightarrow> [] | Some window \<Rightarrow> pw_Records window)"

text \<open>Slicing a key without a colon, up to index -1, panics.\<close>

fun CleanupOldWindows :: "string list \<Rightarrow> windows \<Rightarrow> windows go" where
  "CleanupOldWindows activeGroups [] = Ret []"
| "CleanupOldWindows activeGroups ((key, window) # ws) =
     (case str_index (CHR '':'') key of
        None \<Rightarrow> Panic ''slice bounds out of range''
      | Some i \<Rightarrow>
          go_bind (CleanupOldWindows activeGroups ws) (\<lambda>ws'.
            Ret (if take i key \<in> set activeGroups then (key, window) # ws' else ws')))"

section \<open>The contract of a bounded history\<close>

text \<open>
  What the evaluator relies on: reading a key gives the last \<open>bound\<close> records stored under
  it, and storing under one key leaves the others alone.
\<close>

definition store_all :: "('s \<Rightarrow> 'k \<Rightarrow> 'r \<Rightarrow> 's) \<Rightarrow> ('k \<times> 'r) list \<Rightarrow> 's \<Rightarrow> 's" where
  "store_all add ops s = fold (\<lambda>(k, r) s. add s k r) ops s"

definition stored_under :: "'k \<Rightarrow> ('k \<times> 'r) list \<Rightarrow> 'r list" where
  "stored_under k ops = map snd (filter (\<lambda>(k', r). k' = k) ops)"

lemma store_all_simps [simp]:
  "store_all add [] s = s"
  "store_all add ((k, r) # ops) s = store_all add ops (add s k r)"
  by (simp_all add: store_all_def)

lemma stored_under_simps [simp]:
  "stored_under k [] = []"
  "stored_under k ((k', r) # ops) = (if k' = k then r # stored_under k ops else stored_under k ops)"
  by (simp_all add: stored_under_def)

locale bounded_history =
  fixes add :: "'s \<Rightarrow> 'k \<Rightarrow> 'r \<Rightarrow> 's"
    and get :: "'s \<Rightarrow> 'k \<Rightarrow> 'r list"
    and bound :: nat
    and inv :: "'s \<Rightarrow> bool"
  assumes get_add_same: "inv s \<Longrightarrow> get (add s k r) k = lastn bound (get s k @ [r])"
    and get_add_other: "inv s \<Longrightarrow> k' \<noteq> k \<Longrightarrow> get (add s k r) k' = get s k'"
    and inv_add: "inv s \<Longrightarrow> inv (add s k r)"
    and get_bound: "inv s \<Longrightarrow> length (get s k) \<le> bound"
begin

lemma inv_store_all: "inv s \<Longrightarrow> inv (store_all add ops s)"
  by (induction ops arbitrary: s) (auto simp: inv_add)

lemma get_store_all:
  "inv s \<Longrightarrow> get (store_all add ops s) k = lastn bound (get s k @ stored_under k ops)"
proof (induction ops arbitrary: s)
  case Nil
  then show ?case using get_bound by (simp add: lastn_all)
next
  case (Cons op ops)
  obtain k' r where op: "op = (k', r)" by (cases op)
  show ?case
  proof (cases "k' = k")
    case True
    have "get (store_all add (op # ops) s) k =
        lastn bound (lastn bound (get s k @ [r]) @ stored_under k ops)"
      using Cons by (simp add: op True inv_add get_add_same)
    then show ?thesis by (simp add: op True lastn_append_lastn)
  next
    case False
    then show ?thesis using Cons by (simp add: op inv_add get_add_other)
  qed
qed

text \<open>Only the order of the records under one key matters.\<close>

lemma get_store_all_interleave:
  "inv s \<Longrightarrow> stored_under k ops = stored_under k ops' \<Longrightarrow>
     get (store_all add ops s) k = get (store_all add ops' s) k"
  by (simp add: get_store_all)

end

section \<open>The windows implement it\<close>

definition windows_ok :: "Config \<Rightarrow> windows \<Rightarrow> bool" where
  "windows_ok cfg ws \<longleftrightarrow> 0 \<le> cfg_WindowSize cfg \<and>
     (\<forall>k w. map_of ws k = Some w \<longrightarrow>
        pw_WindowSize w = cfg_WindowSize cfg \<and> int (length (pw_Records w)) \<le> cfg_WindowSize cfg)"

definition add_window :: "Config \<Rightarrow> windows \<Rightarrow> string \<Rightarrow> OffsetRecord \<Rightarrow> windows" where
  "add_window cfg ws key r = (case addToWindow cfg ws key r of Ret ws' \<Rightarrow> ws' | _ \<Rightarrow> ws)"

lemma push_record_size [simp]: "pw_WindowSize (push_record w r) = pw_WindowSize w"
  by (simp add: push_record_def Let_def)

lemma push_record_records:
  assumes "int (length (pw_Records w)) \<le> pw_WindowSize w"
  shows "pw_Records (push_record w r) = lastn (nat (pw_WindowSize w)) (pw_Records w @ [r])"
proof (cases "pw_WindowSize w < int (length (pw_Records w) + 1)")
  case True
  then have "nat (pw_WindowSize w) = length (pw_Records w)" using assms by simp
  then show ?thesis using True by (simp add: push_record_def lastn_def drop_Suc del: drop_append)
next
  case False
  then have "length (pw_Records w @ [r]) \<le> nat (pw_WindowSize w)" by simp
  then have "lastn (nat (pw_WindowSize w)) (pw_Records w @ [r]) = pw_Records w @ [r]"
    by (rule lastn_all)
  then show ?thesis using False by (simp add: push_record_def)
qed

lemma addToWindow_Ret:
  "0 \<le> cfg_WindowSize cfg \<Longrightarrow> addToWindow cfg ws k r = Ret (add_window cfg ws k r)"
  by (auto simp: add_window_def addToWindow_def split: option.split)

lemma map_of_add_window:
  assumes "0 \<le> cfg_WindowSize cfg"
  shows "map_of (add_window cfg ws k r) = (map_of ws)(k \<mapsto> push_record
    (case map_of ws k of None \<Rightarrow> \<lparr>pw_Records = [], pw_WindowSize = cfg_WindowSize cfg\<rparr> | Some w \<Rightarrow> w) r)"
  using assms by (simp add: add_window_def addToWindow_def update_conv' split: option.split)

lemma getWindowRecords_add_other:
  "0 \<le> cfg_WindowSize cfg \<Longrightarrow> k' \<noteq> k \<Longrightarrow>
     getWindowRecords (add_window cfg ws k r) k' = getWindowRecords ws k'"
  by (simp add: getWindowRecords_def map_of_add_window)

lemma getWindowRecords_add_same:
  "windows_ok cfg ws \<Longrightarrow> getWindowRecords (add_window cfg ws k r) k =
     lastn (nat (cfg_WindowSize cfg)) (getWindowRecords ws k @ [r])"
  by (auto simp: getWindowRecords_def map_of_add_window windows_ok_def push_record_records
      split: option.split)

lemma windows_ok_add: "windows_ok cfg ws \<Longrightarrow> windows_ok cfg (add_window cfg ws k r)"
  by (auto simp: windows_ok_def map_of_add_window push_record_records nat_le_iff
      split: option.split if_splits)

interpretation windows: bounded_history "add_window cfg" getWindowRecords
  "nat (cfg_WindowSize cfg)" "windows_ok cfg" for cfg
proof unfold_locales
  fix s k k' r
  assume ok: "windows_ok cfg s"
  then have size: "0 \<le> cfg_WindowSize cfg" by (simp add: windows_ok_def)
  show "getWindowRecords (add_window cfg s k r) k =
      lastn (nat (cfg_WindowSize cfg)) (getWindowRecords s k @ [r])"
    using ok by (rule getWindowRecords_add_same)
  show "windows_ok cfg (add_window cfg s k r)" using ok by (rule windows_ok_add)
  show "length (getWindowRecords s k) \<le> nat (cfg_WindowSize cfg)"
    using ok by (auto simp: windows_ok_def getWindowRecords_def le_nat_iff split: option.split)
  show "getWindowRecords (add_window cfg s k r) k' = getWindowRecords s k'" if "k' \<noteq> k"
    using size that by (rule getWindowRecords_add_other)
qed

section \<open>Keys and the cleanup\<close>

lemma windowKey_inj:
  assumes "CHR '':'' \<notin> set t" and "CHR '':'' \<notin> set t'"
  shows "windowKey g t p = windowKey g' t' p' \<longleftrightarrow> g = g' \<and> t = t' \<and> p = p'"
proof -
  have "windowKey g t p = windowKey g' t' p' \<longleftrightarrow>
      (g @ CHR '':'' # t) @ CHR '':'' # itoa (sint p) = (g' @ CHR '':'' # t') @ CHR '':'' # itoa (sint p')"
    by (simp add: windowKey_def)
  also have "\<dots> \<longleftrightarrow> g @ CHR '':'' # t = g' @ CHR '':'' # t' \<and> sint p = sint p'"
    by (simp only: split_last_unique [OF colon_notin_itoa colon_notin_itoa] itoa_inj)
  also have "\<dots> \<longleftrightarrow> g = g' \<and> t = t' \<and> p = p'"
    by (simp only: split_last_unique [OF assms] signed_word_eqI) (metis signed_word_eqI)
  finally show ?thesis .
qed

definition key_group :: "string \<Rightarrow> string" where
  "key_group key = takeWhile (\<lambda>c. c \<noteq> CHR '':'') key"

lemma key_group_windowKey: "CHR '':'' \<notin> set g \<Longrightarrow> key_group (windowKey g t p) = g"
  unfolding key_group_def windowKey_def append.simps by (subst takeWhile_append2) auto

lemma colon_in_windowKey [simp]: "CHR '':'' \<in> set (windowKey g t p)"
  by (simp add: windowKey_def)

lemma cleanup_filter:
  "\<forall>(k, w) \<in> set ws. CHR '':'' \<in> set k \<Longrightarrow>
     CleanupOldWindows active ws = Ret (filter (\<lambda>(k, w). key_group k \<in> set active) ws)"
proof (induction ws)
  case (Cons kw ws)
  obtain k w where kw: "kw = (k, w)" by (cases kw)
  then obtain i where i: "str_index (CHR '':'') k = Some i"
    using Cons.prems by (cases "str_index (CHR '':'') k") (auto simp: str_index_None_iff)
  show ?case using Cons by (simp add: kw i key_group_def str_index_takeWhile [OF i])
qed simp

lemma map_of_filter_key: "map_of (filter (\<lambda>(k, w). P k) ws) k = (if P k then map_of ws k else None)"
  by (induction ws) auto


section \<open>Properties\<close>

text \<open>A run of additions, as the code performs them; a panic ends it.\<close>

fun addAll :: "Config \<Rightarrow> (string \<times> OffsetRecord) list \<Rightarrow> windows \<Rightarrow> windows go" where
  "addAll cfg [] ws = Ret ws"
| "addAll cfg ((k, r) # ops) ws =
     go_bind (addToWindow cfg ws k r) (\<lambda>ws'. addAll cfg ops ws')"

lemma addAll_store_all:
  "0 \<le> cfg_WindowSize cfg \<Longrightarrow> addAll cfg ops ws = Ret (store_all (add_window cfg) ops ws)"
  by (induction ops arbitrary: ws) (auto simp: addToWindow_Ret)

lemma windows_ok_empty: "0 \<le> cfg_WindowSize cfg \<Longrightarrow> windows_ok cfg []"
  by (simp add: windows_ok_def)

text \<open>C6: From an empty collector, any sequence of additions succeeds and leaves under each key
  exactly the last WindowSize records added under it, whatever was added under other keys in
  between.\<close>

theorem windows_hold_last_records:
  assumes "0 \<le> cfg_WindowSize cfg"
  shows "\<exists>ws. addAll cfg ops [] = Ret ws \<and>
    (\<forall>k. getWindowRecords ws k = lastn (nat (cfg_WindowSize cfg)) (stored_under k ops))"
  using windows.get_store_all [OF windows_ok_empty [OF assms], of ops]
  by (simp add: addAll_store_all [OF assms]) (simp add: getWindowRecords_def)

theorem windows_hold_last_records_witness:
  "\<exists>ws. addAll (dev_config\<lparr>cfg_WindowSize := 2\<rparr>)
       [(''k'', check_at 1 9 0), (''m'', check_at 5 9 1), (''k'', check_at 2 9 2), (''k'', check_at 3 9 3)] [] = Ret ws \<and>
     getWindowRecords ws ''k'' = [check_at 2 9 2, check_at 3 9 3]"
  using windows_hold_last_records [of "dev_config\<lparr>cfg_WindowSize := 2\<rparr>"
      "[(''k'', check_at 1 9 0), (''m'', check_at 5 9 1), (''k'', check_at 2 9 2), (''k'', check_at 3 9 3)]"]
  by (fastforce simp: lastn_def)

text \<open>The key of a window identifies group, topic and partition as long as topics have no
  colon, which Kafka forbids in topic names; group names may have any.\<close>

lemma windowKey_injective:
  assumes "CHR '':'' \<notin> set t" and "CHR '':'' \<notin> set t'"
  shows "windowKey g t p = windowKey g' t' p' \<longleftrightarrow> g = g' \<and> t = t' \<and> p = p'"
  using assms by (rule windowKey_inj)

definition keys_well_formed :: "windows \<Rightarrow> bool" where
  "keys_well_formed ws \<longleftrightarrow> (\<forall>(k, w) \<in> set ws. \<exists>g t p. k = windowKey g t p)"

lemma cleanup_windows:
  "keys_well_formed ws \<Longrightarrow>
     CleanupOldWindows active ws = Ret (filter (\<lambda>(k, w). key_group k \<in> set active) ws)"
  by (rule cleanup_filter) (fastforce simp: keys_well_formed_def)

text \<open>The cleanup keeps the windows of every active group whose name has no colon and removes
  those of every inactive one; it never panics on the collector's keys.\<close>

lemma cleanup_exact:
  assumes "keys_well_formed ws" and "CHR '':'' \<notin> set g"
  shows "\<exists>ws'. CleanupOldWindows active ws = Ret ws' \<and>
    map_of ws' (windowKey g t p) = (if g \<in> set active then map_of ws (windowKey g t p) else None)"
  using cleanup_windows [OF assms(1)] key_group_windowKey [OF assms(2)]
  by (simp add: map_of_filter_key)

definition sample_windows :: windows where
  "sample_windows =
     [(windowKey ''a:b'' ''t'' 0, \<lparr>pw_Records = [check_at 1 9 0], pw_WindowSize = 10\<rparr>),
      (windowKey ''c'' ''t'' 0, \<lparr>pw_Records = [check_at 2 9 0], pw_WindowSize = 10\<rparr>)]"

lemma sample_windows_keys: "keys_well_formed sample_windows"
  unfolding keys_well_formed_def sample_windows_def by auto

text \<open>C39: The windows of a group whose name has a colon are judged by the part before it: they are
  removed although the group is active, unless that part names an active group.\<close>

theorem cleanup_drops_colon_group:
  assumes "keys_well_formed ws" and "CHR '':'' \<notin> set a" and "a \<notin> set active"
  shows "\<exists>ws'. CleanupOldWindows active ws = Ret ws' \<and> map_of ws' (windowKey (a @ '':'' @ b) t p) = None"
proof -
  have "windowKey (a @ '':'' @ b) t p = windowKey a (b @ '':'' @ t) p" by (simp add: windowKey_def)
  then show ?thesis using cleanup_windows [OF assms(1)] key_group_windowKey [OF assms(2)] assms(3)
    by (simp add: map_of_filter_key)
qed

theorem cleanup_drops_colon_group_witness:
  "\<exists>ws'. CleanupOldWindows [''a:b'', ''c''] sample_windows = Ret ws' \<and>
     map_of ws' (windowKey ''a:b'' ''t'' 0) = None"
  using cleanup_drops_colon_group [OF sample_windows_keys, of "''a''" "[''a:b'', ''c'']" "''b''" "''t''" 0]
  by simp

end
