(* ===== verification/Metrics.thy ===== *)
theory Metrics
  imports Go_Fmt
begin

text \<open>
  The Prometheus vectors of internal/metrics/metrics.go: their names and label lists, and the
  operations on them that the code performs, which the components record in order.  What a
  registry does with an operation is the client library's; that a vector given the wrong
  number of label values panics is what the arity results are for.
\<close>

datatype metric =
    ConsumerLag | ConsumerCurrentOffset | LogEndOffset | ConsumerGroupMembers
  | ScrapeDuration | ScrapeErrors
  | ConsumerGroupHealth | ConsumerGroupTotalLag | ConsumerGroupActivePartitions
  | ConsumerGroupStoppedPartitions | ConsumerGroupStalledPartitions
  | ConsumerStatusGauge | ConsumerLagTrend | ConsumerHealthGauge
  | ConsumerConsumptionRate | ConsumerLagChangeRate
  | ConsumerTimeSinceLastActivity | ConsumerLastActivityTimestamp
  | CollectionDuration | ActiveConsumerGroups | ClusterStatus

fun metric_name :: "metric \<Rightarrow> string" where
  "metric_name ConsumerLag = ''kafka_consumer_lag''"
| "metric_name ConsumerCurrentOffset = ''kafka_consumer_current_offset''"
| "metric_name LogEndOffset = ''kafka_partition_log_end_offset''"
| "metric_name ConsumerGroupMembers = ''kafka_consumer_group_members''"
| "metric_name ScrapeDuration = ''kafka_lag_exporter_scrape_duration_seconds''"
| "metric_name ScrapeErrors = ''kafka_lag_exporter_scrape_errors_total''"
| "metric_name ConsumerGroupHealth = ''kafka_consumer_group_health''"
| "metric_name ConsumerGroupTotalLag = ''kafka_consumer_group_total_lag''"
| "metric_name ConsumerGroupActivePartitions = ''kafka_consumer_group_active_partitions''"
| "metric_name ConsumerGroupStoppedPartitions = ''kafka_consumer_group_stopped_partitions''"
| "metric_name ConsumerGroupStalledPartitions = ''kafka_consumer_group_stalled_partitions''"
| "metric_name ConsumerStatusGauge = ''kafka_consumer_status''"
| "metric_name ConsumerLagTrend = ''kafka_consumer_lag_trend''"
| "metric_name ConsumerHealthGauge = ''kafka_consumer_health''"
| "metric_name ConsumerConsumptionRate = ''kafka_consumer_consumption_rate''"
| "metric_name ConsumerLagChangeRate = ''kafka_consumer_lag_change_rate''"
| "metric_name ConsumerTimeSinceLastActivity = ''kafka_consumer_time_since_last_activity_seconds''"
| "metric_name ConsumerLastActivityTimestamp = ''kafka_consumer_last_activity_timestamp''"
| "metric_name CollectionDuration = ''lagradar_collection_duration_seconds''"
| "metric_name ActiveConsumerGroups = ''lagradar_active_consumer_groups''"
| "metric_name ClusterStatus = ''lagradar_cluster_status''"

fun metric_labels :: "metric \<Rightarrow> string list" where
  "metric_labels ConsumerLag = [''cluster'', ''consumer_group'', ''topic'', ''partition'']"
| "metric_labels ConsumerCurrentOffset = [''cluster'', ''consumer_group'', ''topic'', ''partition'']"
| "metric_labels LogEndOffset = [''cluster'', ''topic'', ''partition'']"
| "metric_labels ConsumerGroupMembers = [''cluster'', ''consumer_group'']"
| "metric_labels ScrapeDuration = [''cluster'']"
| "metric_labels ScrapeErrors = [''cluster'']"
| "metric_labels ConsumerGroupHealth = [''cluster'', ''group'']"
| "metric_labels ConsumerGroupTotalLag = [''cluster'', ''group'']"
| "metric_labels ConsumerGroupActivePartitions = [''cluster'', ''group'']"
| "metric_labels ConsumerGroupStoppedPartitions = [''cluster'', ''group'']"
| "metric_labels ConsumerGroupStalledPartitions = [''cluster'', ''group'']"
| "metric_labels ConsumerStatusGauge = [''cluster'', ''group'', ''topic'', ''partition'']"
| "metric_labels ConsumerLagTrend = [''cluster'', ''group'', ''topic'', ''partition'']"
| "metric_labels ConsumerHealthGauge = [''cluster'', ''group'', ''topic'', ''partition'']"
| "metric_labels ConsumerConsumptionRate = [''cluster'', ''group'', ''topic'', ''partition'']"
| "metric_labels ConsumerLagChangeRate = [''cluster'', ''group'', ''topic'', ''partition'']"
| "metric_labels ConsumerTimeSinceLastActivity = [''cluster'', ''group'', ''topic'', ''partition'']"
| "metric_labels ConsumerLastActivityTimestamp = [''cluster'', ''group'', ''topic'', ''partition'']"
| "metric_labels CollectionDuration = [''cluster'', ''consumer_group'']"
| "metric_labels ActiveConsumerGroups = [''cluster'']"
| "metric_labels ClusterStatus = [''cluster'']"

text \<open>The type of each vector.\<close>

datatype metric_kind = Gauge | Counter | Histogram

fun kind_of :: "metric \<Rightarrow> metric_kind" where
  "kind_of ScrapeErrors = Counter"
| "kind_of CollectionDuration = Histogram"
| "kind_of _ = Gauge"

datatype metric_op =
    MSet metric "string list" f64
  | MInc metric "string list"
  | MObserve metric "string list" f64

fun op_metric :: "metric_op \<Rightarrow> metric" where
  "op_metric (MSet m ls v) = m" | "op_metric (MInc m ls) = m" | "op_metric (MObserve m ls v) = m"

fun op_labels :: "metric_op \<Rightarrow> string list" where
  "op_labels (MSet m ls v) = ls" | "op_labels (MInc m ls) = ls" | "op_labels (MObserve m ls v) = ls"

fun op_kind :: "metric_op \<Rightarrow> metric_kind" where
  "op_kind (MSet m ls v) = Gauge" | "op_kind (MInc m ls) = Counter" | "op_kind (MObserve m ls v) = Histogram"

definition op_ok :: "metric_op \<Rightarrow> bool" where
  "op_ok op \<longleftrightarrow> length (op_labels op) = length (metric_labels (op_metric op)) \<and> op_kind op = kind_of (op_metric op)"

text \<open>The value a gauge shows after some operations: the last one it was set to.\<close>

fun show_op :: "metric \<Rightarrow> string list \<Rightarrow> metric_op \<Rightarrow> f64 option \<Rightarrow> f64 option" where
  "show_op m ls (MSet m' ls' v) shown = (if m' = m \<and> ls' = ls then Some v else shown)"
| "show_op m ls (MInc m' ls') shown = shown"
| "show_op m ls (MObserve m' ls' v) shown = shown"

definition last_value :: "metric_op list \<Rightarrow> metric \<Rightarrow> string list \<Rightarrow> f64 option" where
  "last_value ops m ls = fold (show_op m ls) ops None"

lemma last_value_append:
  "last_value (ops @ ops') m ls = (case last_value ops' m ls of None \<Rightarrow> last_value ops m ls | Some v \<Rightarrow> Some v)"
proof (induction ops' rule: rev_induct)
  case (snoc op ops')
  then show ?case by (cases op) (simp_all add: last_value_def)
qed (simp add: last_value_def)

lemma last_value_other: "\<forall>op \<in> set ops. op_metric op \<noteq> m \<Longrightarrow> last_value ops m ls = None"
proof (induction ops rule: rev_induct)
  case (snoc op ops)
  then show ?case by (cases op) (simp_all add: last_value_def)
qed (simp add: last_value_def)

end
