(* ===== verification/Kafka_Client.thy ===== *)
theory Kafka_Client
  imports Prelude "HOL-Library.AList"
begin

text \<open>
  The client wrapper (pkg/kafka/client.go).  The confluent library is not part of the
  repository: each of its calls is represented by the reply it gave, an argument of the
  wrapper's method, and the methods are what the wrapper computes from the replies.
\<close>

section \<open>Types\<close>

record TopicPartitionOffset =
  tp_Topic :: string
  tp_Partition :: i32
  tp_Offset :: i64

record KafkaConfig =
  kc_Brokers :: string
  kc_ConsumerGroup :: string
  kc_RequestTimeout :: duration

text \<open>The fields of the library's replies that the wrapper reads; a nil topic is None.\<close>

record lib_partition =
  lp_Topic :: "string option"
  lp_Partition :: i32
  lp_Offset :: i64

record lib_group_description =
  lg_GroupID :: string
  lg_NoError :: bool
  lg_Members :: "string list"

text \<open>A client holds its two handles until it is closed.\<close>

record Client =
  cl_admin_open :: bool
  cl_consumer_open :: bool
  cl_config :: KafkaConfig

section \<open>Operations\<close>

definition fill_defaults :: "KafkaConfig \<Rightarrow> KafkaConfig" where
  "fill_defaults cfg =
     (let c1 = (if kc_ConsumerGroup cfg = '''' then cfg\<lparr>kc_ConsumerGroup := ''lagradar_metrics_collector''\<rparr> else cfg)
      in if kc_RequestTimeout c1 = 0 then c1\<lparr>kc_RequestTimeout := 5 * second\<rparr> else c1)"

text \<open>
  \<open>NewClient\<close>: the admin client first, then the consumer; when the consumer fails the admin
  client is closed again.  The result says which handles are still open.
\<close>

definition NewClient :: "KafkaConfig \<Rightarrow> unit result \<Rightarrow> unit result \<Rightarrow> Client result \<times> bool" where
  "NewClient cfg admin consumer =
     (let c = fill_defaults cfg in
      case admin of
        Inl e \<Rightarrow> (Inl (ErrWrap ''failed to create admin client: '' e), False)
      | Inr _ \<Rightarrow>
          (case consumer of
             Inl e \<Rightarrow> (Inl (ErrWrap ''failed to create consumer: '' e), False)
           | Inr _ \<Rightarrow> (Inr \<lparr>cl_admin_open = True, cl_consumer_open = True, cl_config = c\<rparr>, True)))"

definition Client_Close :: "Client \<Rightarrow> Client" where
  "Client_Close c = c\<lparr>cl_admin_open := False, cl_consumer_open := False\<rparr>"

definition ListConsumerGroups :: "string list result \<Rightarrow> string list result" where
  "ListConsumerGroups reply =
     (case reply of Inl e \<Rightarrow> Inl e | Inr valid \<Rightarrow> Inr (fold (\<lambda>g groups. groups @ [g]) valid []))"

fun offsets_loop :: "lib_partition list \<Rightarrow> TopicPartitionOffset list \<Rightarrow> TopicPartitionOffset list" where
  "offsets_loop [] results = results"
| "offsets_loop (tp # tps) results =
     (case lp_Topic tp of
        None \<Rightarrow> offsets_loop tps results
      | Some topic \<Rightarrow> offsets_loop tps
          (results @ [\<lparr>tp_Topic = topic, tp_Partition = lp_Partition tp, tp_Offset = lp_Offset tp\<rparr>]))"

definition GetConsumerGroupOffsets ::
  "lib_partition list list result \<Rightarrow> TopicPartitionOffset list result" where
  "GetConsumerGroupOffsets reply =
     (case reply of
        Inl e \<Rightarrow> Inl (ErrWrap ''failed to list offsets: '' e)
      | Inr [] \<Rightarrow> Inr []
      | Inr (groupOffsets # _) \<Rightarrow> Inr (offsets_loop groupOffsets []))"

definition GetHighWatermark :: "(i64 \<times> i64) result \<Rightarrow> i64 result" where
  "GetHighWatermark reply =
     (case reply of Inl e \<Rightarrow> Inl (ErrWrap ''failed to query watermark: '' e) | Inr (_, high) \<Rightarrow> Inr high)"

text \<open>The result is a Go map: a later description of the same group overwrites.\<close>

definition GetConsumerGroupMembers ::
  "lib_group_description list result \<Rightarrow> (string \<times> int) list result" where
  "GetConsumerGroupMembers reply =
     (case reply of
        Inl e \<Rightarrow> Inl e
      | Inr descs \<Rightarrow> Inr (fold (\<lambda>d members.
          if lg_NoError d then AList.update (lg_GroupID d) (int (length (lg_Members d))) members
          else members) descs []))"

section \<open>Results\<close>

lemma offsets_loop_eq:
  "offsets_loop tps acc = acc @ map (\<lambda>tp. \<lparr>tp_Topic = the (lp_Topic tp),
      tp_Partition = lp_Partition tp, tp_Offset = lp_Offset tp\<rparr>)
    (filter (\<lambda>tp. lp_Topic tp \<noteq> None) tps)"
  by (induction tps acc rule: offsets_loop.induct) (auto split: option.split)

end
