(* ===== verification/Collector.thy ===== *)
theory Collector
  imports Windows Metrics Kafka_Client
begin

text \<open>
  The collector (internal/collector/collector.go): evaluation of one partition, of one
  group, of all groups of a cluster, the periodic loop, and the metric updates.

  The Kafka client is the interface \<open>KafkaClient\<close>; a record \<open>kafka_env\<close> holds the
  replies of one collection round.  A round starts one goroutine per group; a goroutine is
  named by the position of its group in the group list, and each of its calls by the position
  of the partition, so every call site has its own reply and its own clock reading.
\<close>

section \<open>State\<close>

text \<open>
  The evaluation hook is a parameter: a function on a state of its own.  \<open>co_metrics\<close> is the
  sequence of metric operations performed so far.
\<close>

type_synonym 'h hook = "(PartitionConsumerStatus \<Rightarrow> OffsetRecord list \<Rightarrow> 'h \<Rightarrow> 'h) option"

record 'h Collector =
  co_config :: Config
  co_windows :: windows
  co_statusStore :: "(string \<times> GroupStatus) list"
  co_hasCollected :: bool
  co_hookState :: 'h
  co_metrics :: "metric_op list"

definition NewWithClient :: "Config \<Rightarrow> 'h \<Rightarrow> 'h Collector" where
  "NewWithClient cfg h = \<lparr>co_config = cfg, co_windows = [], co_statusStore = [],
     co_hasCollected = False, co_hookState = h, co_metrics = []\<rparr>"

text \<open>The Kafka client is made first; its two replies are those of \<open>NewClient\<close>.\<close>

definition NewWithConfig ::
  "string \<Rightarrow> Config \<Rightarrow> unit result \<Rightarrow> unit result \<Rightarrow> 'h \<Rightarrow> 'h Collector result" where
  "NewWithConfig brokers cfg adminReply consumerReply h =
     (case fst (NewClient \<lparr>kc_Brokers = brokers, kc_ConsumerGroup = ''lagradar_metrics_collector'',
                          kc_RequestTimeout = 5 * second\<rparr> adminReply consumerReply) of
        Inl e \<Rightarrow> Inl (ErrWrap ''failed to create kafka client: '' e)
      | Inr client \<Rightarrow> Inr (NewWithClient cfg h))"

definition emit :: "metric_op list \<Rightarrow> 'h Collector \<Rightarrow> 'h Collector" where
  "emit ops c = c\<lparr>co_metrics := co_metrics c @ ops\<rparr>"

record kafka_env =
  ke_OffsetInvalid :: i64
  ke_Groups :: "string list result"
  ke_Members :: "(string \<times> int) list result"
  ke_Offsets :: "nat \<Rightarrow> TopicPartitionOffset list result"
  ke_GroupNow :: "nat \<Rightarrow> gotime"
  ke_HighWatermark :: "nat \<Rightarrow> nat \<Rightarrow> i64 result"
  ke_Now :: "nat \<Rightarrow> nat \<Rightarrow> gotime"
  ke_GroupDuration :: "nat \<Rightarrow> duration"
  ke_RoundDuration :: duration

section \<open>Metric values\<close>

fun statusToFloat :: "ConsumerStatus \<Rightarrow> f64" where
  "statusToFloat StatusActive = FFin 0"
| "statusToFloat StatusLagging = FFin 1"
| "statusToFloat StatusStalled = FFin 2"
| "statusToFloat StatusStopped = FFin 3"
| "statusToFloat StatusEmpty = FFin 4"
| "statusToFloat _ = FFin (-1)"

fun trendToFloat :: "LagTrend \<Rightarrow> f64" where
  "trendToFloat TrendStable = FFin 1"
| "trendToFloat TrendIncreasing = FFin 2"
| "trendToFloat TrendDecreasing = FFin 3"
| "trendToFloat _ = FFin 0"

fun healthToFloat :: "ConsumerHealth \<Rightarrow> f64" where
  "healthToFloat HealthGood = FFin 0"
| "healthToFloat HealthWarning = FFin 1"
| "healthToFloat HealthCritical = FFin 2"
| "healthToFloat _ = FFin (-1)"

definition group_metric_ops :: "GroupStatus \<Rightarrow> string \<Rightarrow> metric_op list" where
  "group_metric_ops status clusterName =
     (let ls = [clusterName, gs_GroupID status] in
      [MSet ConsumerGroupHealth ls (healthToFloat (gs_OverallHealth status)),
       MSet ConsumerGroupTotalLag ls (f_of_int (sint (gs_TotalLag status))),
       MSet ConsumerGroupActivePartitions ls (f_of_int (gs_ActivePartitions status)),
       MSet ConsumerGroupStoppedPartitions ls (f_of_int (gs_StoppedPartitions status)),
       MSet ConsumerGroupStalledPartitions ls (f_of_int (gs_StalledPartitions status))])"

definition updateMetricsWithCluster :: "GroupStatus \<Rightarrow> string \<Rightarrow> 'h Collector \<Rightarrow> 'h Collector" where
  "updateMetricsWithCluster status clusterName c = emit (group_metric_ops status clusterName) c"

definition partition_metric_ops :: "PartitionConsumerStatus \<Rightarrow> string \<Rightarrow> metric_op list" where
  "partition_metric_ops status clusterName =
     (let partitionStr = itoa (sint (ps_Partition status));
          labels = [clusterName, ps_GroupID status, ps_Topic status, partitionStr] in
      [MSet ConsumerCurrentOffset labels (f_of_int (sint (ps_CurrentOffset status))),
       MSet ConsumerLag labels (f_of_int (sint (ps_CurrentLag status))),
       MSet LogEndOffset [clusterName, ps_Topic status, partitionStr]
         (f_of_int (sint (ps_HighWatermark status))),
       MSet ConsumerStatusGauge labels (statusToFloat (ps_Status status)),
       MSet ConsumerLagTrend labels (trendToFloat (ps_LagTrend status)),
       MSet ConsumerHealthGauge labels (healthToFloat (ps_Health status)),
       MSet ConsumerConsumptionRate labels (ps_ConsumptionRate status),
       MSet ConsumerLagChangeRate labels (ps_LagChangeRate status),
       MSet ConsumerTimeSinceLastActivity labels (dur_seconds (ps_TimeSinceLastMove status))] @
      (if ps_IsActive status
       then [MSet ConsumerLastActivityTimestamp labels
               (f_of_int (time_unix (ps_LastUpdateTime status)))]
       else []))"

definition updatePartitionMetricsWithCluster ::
  "PartitionConsumerStatus \<Rightarrow> string \<Rightarrow> 'h Collector \<Rightarrow> 'h Collector" where
  "updatePartitionMetricsWithCluster status clusterName c =
     emit (partition_metric_ops status clusterName) c"

section \<open>One partition\<close>

definition lag_of :: "i64 \<Rightarrow> i64 \<Rightarrow> i64" where
  "lag_of highWatermark offset =
     (let lag = highWatermark - offset in if sint lag < 0 then 0 else lag)"

definition run_hook ::
  "'h hook \<Rightarrow> PartitionConsumerStatus \<Rightarrow> OffsetRecord list \<Rightarrow> 'h Collector \<Rightarrow> 'h Collector" where
  "run_hook hook status records c =
     (case hook of None \<Rightarrow> c | Some h \<Rightarrow> c\<lparr>co_hookState := h status records (co_hookState c)\<rparr>)"

text \<open>\<open>hwReply\<close> is the reply of \<open>GetHighWatermark\<close>, \<open>now\<close> the clock.\<close>

definition evaluatePartition ::
  "'h hook \<Rightarrow> i64 \<Rightarrow> string \<Rightarrow> string \<Rightarrow> TopicPartitionOffset \<Rightarrow> i64 result \<Rightarrow> gotime \<Rightarrow>
     'h Collector \<Rightarrow> (PartitionConsumerStatus result \<times> 'h Collector) go" where
  "evaluatePartition hook offsetInvalid clusterName groupID tpo hwReply now c =
     (case hwReply of
        Inl e \<Rightarrow> Ret (Inl e, c)
      | Inr highWatermark \<Rightarrow>
          if tp_Offset tpo = offsetInvalid then
            Ret (Inr (zero_PartitionConsumerStatus
              \<lparr>ps_GroupID := groupID, ps_Topic := tp_Topic tpo, ps_Partition := tp_Partition tpo,
               ps_Status := StatusUnknown, ps_Health := HealthWarning,
               ps_Message := ''No committed offset'', ps_HighWatermark := highWatermark\<rparr>), c)
          else
            let r = \<lparr>or_Offset = tp_Offset tpo, or_HighWatermark = highWatermark,
                     or_Lag = lag_of highWatermark (tp_Offset tpo), or_CheckTimestamp = now\<rparr>;
                key = windowKey groupID (tp_Topic tpo) (tp_Partition tpo) in
            go_bind (addToWindow (co_config c) (co_windows c) key r) (\<lambda>ws.
              let c1 = c\<lparr>co_windows := ws\<rparr>;
                  records = getWindowRecords ws key;
                  status = EvaluatePartitionConsumer (co_config c) records groupID
                    (tp_Topic tpo) (tp_Partition tpo);
                  c2 = run_hook hook status records c1
              in Ret (Inr status, updatePartitionMetricsWithCluster status clusterName c2)))"

section \<open>One group\<close>

definition count_partition :: "PartitionConsumerStatus \<Rightarrow> GroupStatus \<Rightarrow> GroupStatus" where
  "count_partition st gs =
     (case ps_Status st of
        StatusActive \<Rightarrow> gs\<lparr>gs_ActivePartitions := gs_ActivePartitions gs + 1\<rparr>
      | StatusEmpty \<Rightarrow> gs\<lparr>gs_ActivePartitions := gs_ActivePartitions gs + 1\<rparr>
      | StatusStopped \<Rightarrow> gs\<lparr>gs_StoppedPartitions := gs_StoppedPartitions gs + 1\<rparr>
      | StatusStalled \<Rightarrow> gs\<lparr>gs_StalledPartitions := gs_StalledPartitions gs + 1\<rparr>
      | _ \<Rightarrow> gs)"

definition file_partition :: "PartitionConsumerStatus \<Rightarrow> GroupStatus \<Rightarrow> GroupStatus" where
  "file_partition st gs =
     (case ps_Health st of
        HealthCritical \<Rightarrow> gs\<lparr>gs_CriticalPartitions := gs_CriticalPartitions gs @ [st]\<rparr>
      | HealthWarning \<Rightarrow> gs\<lparr>gs_WarningPartitions := gs_WarningPartitions gs @ [st]\<rparr>
      | HealthGood \<Rightarrow> gs\<lparr>gs_HealthyPartitions := gs_HealthyPartitions gs @ [st]\<rparr>
      | _ \<Rightarrow> gs)"

text \<open>The loop over the group's partitions; a partition whose evaluation fails is skipped.\<close>

fun partitions_loop ::
  "'h hook \<Rightarrow> kafka_env \<Rightarrow> string \<Rightarrow> string \<Rightarrow> nat \<Rightarrow> nat \<Rightarrow> TopicPartitionOffset list \<Rightarrow>
     GroupStatus \<Rightarrow> i64 \<Rightarrow> 'h Collector \<Rightarrow> (GroupStatus \<times> i64 \<times> 'h Collector) go" where
  "partitions_loop hook env clusterName groupID i j [] gs totalLag c = Ret (gs, totalLag, c)"
| "partitions_loop hook env clusterName groupID i j (tpo # tpos) gs totalLag c =
     go_bind (evaluatePartition hook (ke_OffsetInvalid env) clusterName groupID tpo
               (ke_HighWatermark env i j) (ke_Now env i j) c) (\<lambda>(res, c').
       case res of
         Inl e \<Rightarrow> partitions_loop hook env clusterName groupID i (Suc j) tpos gs totalLag c'
       | Inr st \<Rightarrow> partitions_loop hook env clusterName groupID i (Suc j) tpos
           (file_partition st (count_partition st gs)) (totalLag + ps_CurrentLag st) c')"

definition overall_health :: "GroupStatus \<Rightarrow> ConsumerHealth" where
  "overall_health gs =
     (if 0 < length (gs_CriticalPartitions gs) then HealthCritical
      else if 0 < length (gs_WarningPartitions gs) then HealthWarning
      else HealthGood)"

definition collectGroupMetricsWithCluster ::
  "'h hook \<Rightarrow> kafka_env \<Rightarrow> string \<Rightarrow> nat \<Rightarrow> string \<Rightarrow> int \<Rightarrow> 'h Collector \<Rightarrow>
     (GroupStatus result \<times> 'h Collector) go" where
  "collectGroupMetricsWithCluster hook env clusterName i groupID memberCount c =
     (case ke_Offsets env i of
        Inl e \<Rightarrow>
          Ret (Inl (ErrWrap (''['' @ clusterName @ ''] Error : failed to get group offsets: '') e), c)
      | Inr offsets \<Rightarrow>
          go_bind (partitions_loop hook env clusterName groupID i 0 offsets
              (zero_GroupStatus\<lparr>gs_GroupID := groupID, gs_MemberCount := memberCount,
                 gs_LastUpdateTime := ke_GroupNow env i,
                 gs_PartitionCount := int (length offsets)\<rparr>) 0 c) (\<lambda>(gs, totalLag, c').
            let gs' = gs\<lparr>gs_TotalLag := totalLag\<rparr>
            in Ret (Inr (gs'\<lparr>gs_OverallHealth := overall_health gs'\<rparr>), c')))"

section \<open>One round\<close>

definition member_count :: "(string \<times> int) list \<Rightarrow> string \<Rightarrow> int" where
  "member_count memberCounts g = (case map_of memberCounts g of None \<Rightarrow> 0 | Some n \<Rightarrow> n)"

text \<open>
  The goroutines, in the order in which they reach the results channel; each also observes
  how long it took.
\<close>

fun run_goroutines ::
  "'h hook \<Rightarrow> kafka_env \<Rightarrow> string \<Rightarrow> string list \<Rightarrow> (string \<times> int) list \<Rightarrow> nat list \<Rightarrow>
     'h Collector \<Rightarrow> ((string \<times> GroupStatus result) list \<times> 'h Collector) go" where
  "run_goroutines hook env clusterName groupIDs memberCounts [] c = Ret ([], c)"
| "run_goroutines hook env clusterName groupIDs memberCounts (i # order) c =
     (let gid = groupIDs ! i in
      go_bind (collectGroupMetricsWithCluster hook env clusterName i gid (member_count memberCounts gid) c)
        (\<lambda>(res, c1).
          go_bind (run_goroutines hook env clusterName groupIDs memberCounts order
              (emit [MObserve CollectionDuration [clusterName, gid]
                       (dur_seconds (ke_GroupDuration env i))] c1))
            (\<lambda>(results, c2). Ret ((gid, res) # results, c2))))"

text \<open>The loop over the results channel.\<close>

fun handle_results ::
  "string \<Rightarrow> (string \<times> GroupStatus result) list \<Rightarrow> 'h Collector \<Rightarrow> 'h Collector" where
  "handle_results clusterName [] c = c"
| "handle_results clusterName ((gid, res) # results) c =
     (case res of
        Inl e \<Rightarrow> handle_results clusterName results (emit [MInc ScrapeErrors [clusterName]] c)
      | Inr status \<Rightarrow>
          let c1 = c\<lparr>co_statusStore := AList.update gid status (co_statusStore c)\<rparr>;
              c2 = updateMetricsWithCluster status clusterName c1
          in handle_results clusterName results (c2\<lparr>co_hasCollected := True\<rparr>))"

definition round_body ::
  "'h hook \<Rightarrow> kafka_env \<Rightarrow> string \<Rightarrow> nat list \<Rightarrow> 'h Collector \<Rightarrow> (unit result \<times> 'h Collector) go" where
  "round_body hook env clusterName order c =
     (case ke_Groups env of
        Inl e \<Rightarrow>
          Ret (Inl (ErrText (''['' @ clusterName @ ''] Error: failed to list consumer groups: '' @
                 err_string e)), emit [MInc ScrapeErrors [clusterName]] c)
      | Inr groupIDs \<Rightarrow>
          let c1 = emit [MSet ActiveConsumerGroups [clusterName] (f_of_int (int (length groupIDs)))] c;
              memberCounts = (case ke_Members env of Inl e \<Rightarrow> [] | Inr m \<Rightarrow> m);
              c2 = emit (map (\<lambda>(g, n). MSet ConsumerGroupMembers [clusterName, g] (f_of_int n))
                     memberCounts) c1
          in if cfg_MaxConcurrency (co_config c) < 0 then Panic ''makechan: size out of range''
             else if cfg_MaxConcurrency (co_config c) = 0 \<and> groupIDs \<noteq> [] then Blocked
             else go_bind (run_goroutines hook env clusterName groupIDs memberCounts order c2)
               (\<lambda>(results, c3). Ret (Inr (), handle_results clusterName results c3)))"

text \<open>\<open>order\<close> is the schedule: the goroutines in the order of their results.\<close>

definition CollectMetricsWithCluster ::
  "'h hook \<Rightarrow> kafka_env \<Rightarrow> string \<Rightarrow> nat list \<Rightarrow> 'h Collector \<Rightarrow> (unit result \<times> 'h Collector) go" where
  "CollectMetricsWithCluster hook env clusterName order c =
     go_bind (round_body hook env clusterName order c) (\<lambda>(res, c').
       Ret (res, emit [MSet ScrapeDuration [clusterName] (dur_seconds (ke_RoundDuration env))] c'))"

section \<open>Reading the store, and the periodic loop\<close>

definition GetGroupStatus :: "'h Collector \<Rightarrow> string \<Rightarrow> GroupStatus option" where
  "GetGroupStatus c groupID = map_of (co_statusStore c) groupID"

definition GetAllGroupStatuses :: "'h Collector \<Rightarrow> (string \<times> GroupStatus) list" where
  "GetAllGroupStatuses c = fold (\<lambda>(k, v) result. AList.update k v result) (co_statusStore c) []"

definition IsReady :: "'h Collector \<Rightarrow> bool" where
  "IsReady c = co_hasCollected c"

datatype tick = CleanupTick | CollectTick kafka_env "nat list" | CtxDone

definition cleanup_step :: "'h Collector \<Rightarrow> 'h Collector go" where
  "cleanup_step c =
     (let activeGroups = map fst (GetAllGroupStatuses c) in
      go_bind (CleanupOldWindows activeGroups (co_windows c)) (\<lambda>ws. Ret (c\<lparr>co_windows := ws\<rparr>)))"

text \<open>The select loop, over the events it receives; a failed round is only logged.\<close>

fun periodic_loop :: "'h hook \<Rightarrow> string \<Rightarrow> tick list \<Rightarrow> 'h Collector \<Rightarrow> 'h Collector go" where
  "periodic_loop hook clusterName [] c = Ret c"
| "periodic_loop hook clusterName (CtxDone # ticks) c = Ret c"
| "periodic_loop hook clusterName (CleanupTick # ticks) c =
     go_bind (cleanup_step c) (\<lambda>c'. periodic_loop hook clusterName ticks c')"
| "periodic_loop hook clusterName (CollectTick env order # ticks) c =
     go_bind (CollectMetricsWithCluster hook env clusterName order c) (\<lambda>(res, c').
       periodic_loop hook clusterName ticks c')"

text \<open>A ticker with an interval that is not positive panics.\<close>

definition StartPeriodicCollection ::
  "'h hook \<Rightarrow> string \<Rightarrow> kafka_env \<Rightarrow> nat list \<Rightarrow> tick list \<Rightarrow> 'h Collector \<Rightarrow> 'h Collector go" where
  "StartPeriodicCollection hook clusterName env order ticks c =
     (if cfg_CheckInterval (co_config c) \<le> 0 then Panic ''non-positive interval for NewTicker''
      else go_bind (CollectMetricsWithCluster hook env clusterName order c) (\<lambda>(res, c').
        periodic_loop hook clusterName ticks c'))"

end
