(* ===== verification/Collector_Round.thy ===== *)
theory Collector_Round
  imports Collector "HOL-Library.Multiset"
begin

text \<open>
  What a collection round of internal/collector/collector.go does: the loop of one group as a
  function of its windows, the independence of groups that share the window map, the effect of
  a round on the status store, and the invariants of the periodic collection.
\<close>


section \<open>What a goroutine computes\<close>

text \<open>
  The record a partition's check adds to its window, and the statuses a group's loop
  collects, as functions of the windows at its start.
\<close>

definition check_record :: "i64 \<Rightarrow> i64 \<Rightarrow> gotime \<Rightarrow> OffsetRecord" where
  "check_record hw off now = \<lparr>or_Offset = off, or_HighWatermark = hw, or_Lag = lag_of hw off,
     or_CheckTimestamp = now\<rparr>"

definition no_offset_status :: "string \<Rightarrow> TopicPartitionOffset \<Rightarrow> i64 \<Rightarrow> PartitionConsumerStatus" where
  "no_offset_status groupID tpo hw = zero_PartitionConsumerStatus
     \<lparr>ps_GroupID := groupID, ps_Topic := tp_Topic tpo, ps_Partition := tp_Partition tpo,
      ps_Status := StatusUnknown, ps_Health := HealthWarning,
      ps_Message := ''No committed offset'', ps_HighWatermark := hw\<rparr>"

fun evaluated ::
  "Config \<Rightarrow> kafka_env \<Rightarrow> string \<Rightarrow> nat \<Rightarrow> nat \<Rightarrow> TopicPartitionOffset list \<Rightarrow> windows \<Rightarrow>
     PartitionConsumerStatus list \<times> windows" where
  "evaluated cfg env gid i j [] ws = ([], ws)"
| "evaluated cfg env gid i j (tpo # tpos) ws =
     (case ke_HighWatermark env i j of
        Inl e \<Rightarrow> evaluated cfg env gid i (Suc j) tpos ws
      | Inr hw \<Rightarrow>
          if tp_Offset tpo = ke_OffsetInvalid env then
            (let (sts, ws') = evaluated cfg env gid i (Suc j) tpos ws
             in (no_offset_status gid tpo hw # sts, ws'))
          else
            let key = windowKey gid (tp_Topic tpo) (tp_Partition tpo);
                ws1 = add_window cfg ws key (check_record hw (tp_Offset tpo) (ke_Now env i j));
                (sts, ws') = evaluated cfg env gid i (Suc j) tpos ws1
            in (EvaluatePartitionConsumer cfg (getWindowRecords ws1 key) gid (tp_Topic tpo)
                  (tp_Partition tpo) # sts, ws'))"

definition tally :: "PartitionConsumerStatus list \<Rightarrow> GroupStatus \<Rightarrow> GroupStatus" where
  "tally sts gs = fold (\<lambda>st gs. file_partition st (count_partition st gs)) sts gs"

definition total_lag :: "PartitionConsumerStatus list \<Rightarrow> i64 \<Rightarrow> i64" where
  "total_lag sts t = fold (\<lambda>st t. t + ps_CurrentLag st) sts t"

lemma tally_simps [simp]:
  "tally [] gs = gs" "tally (st # sts) gs = tally sts (file_partition st (count_partition st gs))"
  "total_lag [] t = t" "total_lag (st # sts) t = total_lag sts (t + ps_CurrentLag st)"
  by (simp_all add: tally_def total_lag_def)

text \<open>The part of a collector that a goroutine leaves alone.\<close>

definition same_frame :: "'h Collector \<Rightarrow> 'h Collector \<Rightarrow> bool" where
  "same_frame c c' \<longleftrightarrow> co_config c' = co_config c \<and> co_statusStore c' = co_statusStore c \<and>
     co_hasCollected c' = co_hasCollected c"

lemma same_frame_refl [simp]: "same_frame c c"
  by (simp add: same_frame_def)

lemma same_frame_trans: "same_frame a b \<Longrightarrow> same_frame b c \<Longrightarrow> same_frame a c"
  by (simp add: same_frame_def)

lemma same_frame_emit [simp]: "same_frame c (emit ops c)"
  by (simp add: same_frame_def emit_def)

lemma emit_windows [simp]:
  "co_windows (emit ops c) = co_windows c" "co_config (emit ops c) = co_config c"
  "co_statusStore (emit ops c) = co_statusStore c" "co_hasCollected (emit ops c) = co_hasCollected c"
  "co_metrics (emit ops c) = co_metrics c @ ops"
  by (simp_all add: emit_def)

lemma run_hook_frame [simp]:
  "co_windows (run_hook hook st rs c) = co_windows c" "co_config (run_hook hook st rs c) = co_config c"
  "co_statusStore (run_hook hook st rs c) = co_statusStore c"
  "co_hasCollected (run_hook hook st rs c) = co_hasCollected c"
  "co_metrics (run_hook hook st rs c) = co_metrics c"
  by (simp_all add: run_hook_def split: option.split)

lemma partitions_loop_eq:
  assumes "0 \<le> cfg_WindowSize (co_config c)"
  shows "\<exists>c'. partitions_loop hook env cl gid i j tpos gs t c =
      Ret (tally (fst (evaluated (co_config c) env gid i j tpos (co_windows c))) gs,
           total_lag (fst (evaluated (co_config c) env gid i j tpos (co_windows c))) t, c') \<and>
    co_windows c' = snd (evaluated (co_config c) env gid i j tpos (co_windows c)) \<and> same_frame c c'"
  using assms
proof (induction tpos arbitrary: j gs t c)
  case Nil
  then show ?case by simp
next
  case (Cons tpo tpos)
  show ?case
  proof (cases "ke_HighWatermark env i j")
    case (Inl e)
    then show ?thesis using Cons.IH [OF Cons.prems] by (simp add: evaluatePartition_def)
  next
    case (Inr hw)
    show ?thesis
    proof (cases "tp_Offset tpo = ke_OffsetInvalid env")
      case True
      with Inr Cons.IH [OF Cons.prems] show ?thesis
        by (simp add: evaluatePartition_def no_offset_status_def [symmetric] split_def Let_def)
    next
      case False
      let ?key = "windowKey gid (tp_Topic tpo) (tp_Partition tpo)"
      let ?ws = "add_window (co_config c) (co_windows c) ?key
        (check_record hw (tp_Offset tpo) (ke_Now env i j))"
      let ?st = "EvaluatePartitionConsumer (co_config c) (getWindowRecords ?ws ?key) gid
        (tp_Topic tpo) (tp_Partition tpo)"
      let ?c1 = "updatePartitionMetricsWithCluster ?st cl
        (run_hook hook ?st (getWindowRecords ?ws ?key) (c\<lparr>co_windows := ?ws\<rparr>))"
      have ev: "evaluatePartition hook (ke_OffsetInvalid env) cl gid tpo (ke_HighWatermark env i j)
          (ke_Now env i j) c = Ret (Inr ?st, ?c1)"
        using Inr False Cons.prems
        by (simp add: evaluatePartition_def Let_def check_record_def [symmetric] addToWindow_Ret)
      have c1: "co_config ?c1 = co_config c" "co_windows ?c1 = ?ws" "same_frame c ?c1"
        by (simp_all add: updatePartitionMetricsWithCluster_def same_frame_def)
      have evd: "evaluated (co_config c) env gid i j (tpo # tpos) (co_windows c) =
          (?st # fst (evaluated (co_config c) env gid i (Suc j) tpos ?ws),
           snd (evaluated (co_config c) env gid i (Suc j) tpos ?ws))"
        using Inr False by (simp add: Let_def split_def)
      have "0 \<le> cfg_WindowSize (co_config ?c1)" using Cons.prems c1(1) by simp
      from Cons.IH [OF this, of "Suc j" "file_partition ?st (count_partition ?st gs)" "t + ps_CurrentLag ?st"]
      obtain c' where c': "partitions_loop hook env cl gid i (Suc j) tpos
            (file_partition ?st (count_partition ?st gs)) (t + ps_CurrentLag ?st) ?c1 =
          Ret (tally (fst (evaluated (co_config c) env gid i (Suc j) tpos ?ws))
                 (file_partition ?st (count_partition ?st gs)),
               total_lag (fst (evaluated (co_config c) env gid i (Suc j) tpos ?ws)) (t + ps_CurrentLag ?st), c')"
          "co_windows c' = snd (evaluated (co_config c) env gid i (Suc j) tpos ?ws)" "same_frame ?c1 c'"
        unfolding c1(1,2) by blast
      have "same_frame c c'" using c1(3) c'(3) by (rule same_frame_trans)
      moreover have "partitions_loop hook env cl gid i j (tpo # tpos) gs t c =
          partitions_loop hook env cl gid i (Suc j) tpos
            (file_partition ?st (count_partition ?st gs)) (t + ps_CurrentLag ?st) ?c1"
        by (simp only: partitions_loop.simps ev go_bind_simps prod.case sum.case)
      ultimately show ?thesis unfolding evd fst_conv snd_conv tally_simps using c'(1,2) by metis
    qed
  qed
qed

text \<open>The status of a group after its loop.\<close>

definition group_result ::
  "Config \<Rightarrow> kafka_env \<Rightarrow> string \<Rightarrow> nat \<Rightarrow> string \<Rightarrow> int \<Rightarrow> windows \<Rightarrow> GroupStatus result \<times> windows" where
  "group_result cfg env cl i gid mc ws =
     (case ke_Offsets env i of
        Inl e \<Rightarrow> (Inl (ErrWrap (''['' @ cl @ ''] Error : failed to get group offsets: '') e), ws)
      | Inr offs \<Rightarrow>
          let sts = fst (evaluated cfg env gid i 0 offs ws);
              gs = (tally sts (zero_GroupStatus\<lparr>gs_GroupID := gid, gs_MemberCount := mc,
                 gs_LastUpdateTime := ke_GroupNow env i,
                 gs_PartitionCount := int (length offs)\<rparr>))\<lparr>gs_TotalLag := total_lag sts 0\<rparr>
          in (Inr (gs\<lparr>gs_OverallHealth := overall_health gs\<rparr>), snd (evaluated cfg env gid i 0 offs ws)))"

lemma collectGroup_eq:
  assumes "0 \<le> cfg_WindowSize (co_config c)"
  shows "\<exists>c'. collectGroupMetricsWithCluster hook env cl i gid mc c =
      Ret (fst (group_result (co_config c) env cl i gid mc (co_windows c)), c') \<and>
    co_windows c' = snd (group_result (co_config c) env cl i gid mc (co_windows c)) \<and> same_frame c c'"
proof (cases "ke_Offsets env i")
  case (Inr offs)
  let ?gs = "zero_GroupStatus\<lparr>gs_GroupID := gid, gs_MemberCount := mc,
    gs_LastUpdateTime := ke_GroupNow env i, gs_PartitionCount := int (length offs)\<rparr>"
  obtain c' where "partitions_loop hook env cl gid i 0 offs ?gs 0 c =
      Ret (tally (fst (evaluated (co_config c) env gid i 0 offs (co_windows c))) ?gs,
           total_lag (fst (evaluated (co_config c) env gid i 0 offs (co_windows c))) 0, c')"
      "co_windows c' = snd (evaluated (co_config c) env gid i 0 offs (co_windows c))" "same_frame c c'"
    using partitions_loop_eq [OF assms] by blast
  then show ?thesis using Inr
    by (intro exI [of _ c']) (simp add: collectGroupMetricsWithCluster_def group_result_def Let_def)
qed (simp add: collectGroupMetricsWithCluster_def group_result_def)

section \<open>Separate groups do not interfere\<close>

definition topics_ok :: "kafka_env \<Rightarrow> bool" where
  "topics_ok env \<longleftrightarrow> (\<forall>i offs tpo. ke_Offsets env i = Inr offs \<longrightarrow> tpo \<in> set offs \<longrightarrow> CHR '':'' \<notin> set (tp_Topic tpo))"

definition agree_on :: "string \<Rightarrow> windows \<Rightarrow> windows \<Rightarrow> bool" where
  "agree_on g ws ws' \<longleftrightarrow> (\<forall>t p. CHR '':'' \<notin> set t \<longrightarrow>
     getWindowRecords ws (windowKey g t p) = getWindowRecords ws' (windowKey g t p))"

lemma agree_on_refl [simp]: "agree_on g ws ws"
  by (simp add: agree_on_def)

lemma agree_on_trans: "agree_on g a b \<Longrightarrow> agree_on g b c \<Longrightarrow> agree_on g a c"
  by (simp add: agree_on_def)

lemma agree_on_add:
  assumes "agree_on g ws ws'" and "windows_ok cfg ws" and "windows_ok cfg ws'" and "CHR '':'' \<notin> set t"
  shows "agree_on g (add_window cfg ws (windowKey g t p) r) (add_window cfg ws' (windowKey g t p) r)"
  unfolding agree_on_def
proof (intro allI impI)
  fix t' p' assume t': "CHR '':'' \<notin> set (t' :: string)"
  show "getWindowRecords (add_window cfg ws (windowKey g t p) r) (windowKey g t' p') =
      getWindowRecords (add_window cfg ws' (windowKey g t p) r) (windowKey g t' p')"
  proof (cases "windowKey g t' p' = windowKey g t p")
    case True
    have "getWindowRecords ws (windowKey g t p) = getWindowRecords ws' (windowKey g t p)"
      using assms(1,4) unfolding agree_on_def by blast
    then show ?thesis using assms(2,3) by (simp only: True windows.get_add_same)
  next
    case False
    then show ?thesis using assms t' by (simp add: windows.get_add_other agree_on_def)
  qed
qed

lemma evaluated_own:
  assumes "windows_ok cfg ws" and "windows_ok cfg ws'" and "agree_on g ws ws'"
    and "\<forall>tpo \<in> set tpos. CHR '':'' \<notin> set (tp_Topic tpo)"
  shows "fst (evaluated cfg env g i j tpos ws) = fst (evaluated cfg env g i j tpos ws') \<and>
    agree_on g (snd (evaluated cfg env g i j tpos ws)) (snd (evaluated cfg env g i j tpos ws'))"
  using assms
proof (induction tpos arbitrary: j ws ws')
  case (Cons tpo tpos)
  let ?key = "windowKey g (tp_Topic tpo) (tp_Partition tpo)"
  show ?case
  proof (cases "ke_HighWatermark env i j")
    case (Inr hw)
    let ?r = "check_record hw (tp_Offset tpo) (ke_Now env i j)"
    show ?thesis
    proof (cases "tp_Offset tpo = ke_OffsetInvalid env")
      case False
      have t: "CHR '':'' \<notin> set (tp_Topic tpo)" using Cons.prems(4) by simp
      have "fst (evaluated cfg env g i (Suc j) tpos (add_window cfg ws ?key ?r)) =
            fst (evaluated cfg env g i (Suc j) tpos (add_window cfg ws' ?key ?r)) \<and>
          agree_on g (snd (evaluated cfg env g i (Suc j) tpos (add_window cfg ws ?key ?r)))
            (snd (evaluated cfg env g i (Suc j) tpos (add_window cfg ws' ?key ?r)))"
        using Cons.prems t by (intro Cons.IH windows_ok_add agree_on_add) simp_all
      moreover have "getWindowRecords (add_window cfg ws ?key ?r) ?key =
          getWindowRecords (add_window cfg ws' ?key ?r) ?key"
        using Cons.prems t by (simp add: windows.get_add_same agree_on_def)
      ultimately show ?thesis using Inr False by (simp add: Let_def split_def)
    next
      case True
      then show ?thesis using Inr Cons.IH [of ws ws' "Suc j"] Cons.prems by (simp add: split_def Let_def)
    qed
  next
    case (Inl e)
    then show ?thesis using Cons.IH [of ws ws' "Suc j"] Cons.prems by simp
  qed
qed simp

lemma evaluated_other:
  assumes "windows_ok cfg ws" and "g' \<noteq> g" and "\<forall>tpo \<in> set tpos. CHR '':'' \<notin> set (tp_Topic tpo)"
  shows "windows_ok cfg (snd (evaluated cfg env g i j tpos ws)) \<and>
    agree_on g' ws (snd (evaluated cfg env g i j tpos ws))"
  using assms
proof (induction tpos arbitrary: j ws)
  case (Cons tpo tpos)
  let ?key = "windowKey g (tp_Topic tpo) (tp_Partition tpo)"
  show ?case
  proof (cases "ke_HighWatermark env i j")
    case (Inr hw)
    let ?ws = "add_window cfg ws ?key (check_record hw (tp_Offset tpo) (ke_Now env i j))"
    have "agree_on g' ws ?ws"
      using Cons.prems by (auto simp: agree_on_def windows.get_add_other windowKey_inj)
    moreover have "windows_ok cfg ?ws" using Cons.prems(1) by (rule windows_ok_add)
    ultimately show ?thesis
      using Cons.IH [of ws "Suc j"] Cons.IH [of ?ws "Suc j"] Cons.prems Inr
      by (auto simp: Let_def split_def intro: agree_on_trans)
  next
    case (Inl e)
    then show ?thesis using Cons.IH [of ws "Suc j"] Cons.prems by simp
  qed
qed simp

lemma group_result_own:
  assumes "windows_ok cfg ws" and "windows_ok cfg ws'" and "agree_on g ws ws'" and "topics_ok env"
  shows "fst (group_result cfg env cl i g mc ws) = fst (group_result cfg env cl i g mc ws')"
    and "agree_on g (snd (group_result cfg env cl i g mc ws)) (snd (group_result cfg env cl i g mc ws'))"
proof -
  have "fst (group_result cfg env cl i g mc ws) = fst (group_result cfg env cl i g mc ws') \<and>
    agree_on g (snd (group_result cfg env cl i g mc ws)) (snd (group_result cfg env cl i g mc ws'))"
  proof (cases "ke_Offsets env i")
    case (Inr offs)
    then have "\<forall>tpo \<in> set offs. CHR '':'' \<notin> set (tp_Topic tpo)"
      using assms(4) by (auto simp: topics_ok_def)
    then show ?thesis using evaluated_own [OF assms(1-3)] Inr by (simp add: group_result_def Let_def)
  qed (simp add: group_result_def assms(3))
  then show "fst (group_result cfg env cl i g mc ws) = fst (group_result cfg env cl i g mc ws')"
    and "agree_on g (snd (group_result cfg env cl i g mc ws)) (snd (group_result cfg env cl i g mc ws'))"
    by blast+
qed

lemma group_result_other:
  assumes "windows_ok cfg ws" and "topics_ok env"
  shows "windows_ok cfg (snd (group_result cfg env cl i g mc ws))"
    and "g' \<noteq> g \<Longrightarrow> agree_on g' ws (snd (group_result cfg env cl i g mc ws))"
proof -
  have "windows_ok cfg (snd (group_result cfg env cl i g mc ws)) \<and>
      (g' \<noteq> g \<longrightarrow> agree_on g' ws (snd (group_result cfg env cl i g mc ws)))" for g'
  proof (cases "ke_Offsets env i")
    case (Inr offs)
    then have t: "\<forall>tpo \<in> set offs. CHR '':'' \<notin> set (tp_Topic tpo)" using assms(2) by (auto simp: topics_ok_def)
    obtain g0 where "g0 \<noteq> g" by (metis list.distinct(1))
    then show ?thesis using evaluated_other [OF assms(1) _ t] Inr by (simp add: group_result_def Let_def)
  qed (simp add: group_result_def assms(1))
  then show "windows_ok cfg (snd (group_result cfg env cl i g mc ws))"
    and "g' \<noteq> g \<Longrightarrow> agree_on g' ws (snd (group_result cfg env cl i g mc ws))" by blast+
qed


section \<open>A whole round\<close>

definition result_of ::
  "Config \<Rightarrow> kafka_env \<Rightarrow> string \<Rightarrow> string list \<Rightarrow> (string \<times> int) list \<Rightarrow> windows \<Rightarrow> nat \<Rightarrow>
     GroupStatus result \<times> windows" where
  "result_of cfg env cl gids mc ws i =
     group_result cfg env cl i (gids ! i) (member_count mc (gids ! i)) ws"

lemma run_goroutines_eq:
  assumes "windows_ok (co_config c) (co_windows c)" and "topics_ok env" and "distinct gids"
    and "distinct order" and "\<forall>i \<in> set order. i < length gids"
  shows "\<exists>c'. run_goroutines hook env cl gids mc order c =
      Ret (map (\<lambda>i. (gids ! i, fst (result_of (co_config c) env cl gids mc (co_windows c) i))) order, c') \<and>
    windows_ok (co_config c) (co_windows c') \<and> same_frame c c' \<and>
    (\<forall>g. g \<notin> (\<lambda>i. gids ! i) ` set order \<longrightarrow> agree_on g (co_windows c) (co_windows c')) \<and>
    (\<forall>i \<in> set order. agree_on (gids ! i)
        (snd (result_of (co_config c) env cl gids mc (co_windows c) i)) (co_windows c'))"
  using assms
proof (induction order arbitrary: c)
  case Nil
  then show ?case by simp
next
  case (Cons i order)
  let ?cfg = "co_config c" and ?ws = "co_windows c" and ?g = "gids ! i"
  let ?R = "result_of ?cfg env cl gids mc"
  have size: "0 \<le> cfg_WindowSize ?cfg" using Cons.prems(1) by (simp add: windows_ok_def)
  obtain c1 where c1: "collectGroupMetricsWithCluster hook env cl i ?g (member_count mc ?g) c =
        Ret (fst (?R ?ws i), c1)" "co_windows c1 = snd (?R ?ws i)" "same_frame c c1"
    using collectGroup_eq [OF size] unfolding result_of_def by blast
  define c2 where "c2 = emit [MObserve CollectionDuration [cl, ?g] (dur_seconds (ke_GroupDuration env i))] c1"
  have c2: "co_windows c2 = snd (?R ?ws i)" "co_config c2 = ?cfg" "same_frame c c2"
    using c1 by (simp_all add: c2_def same_frame_def)
  have ok2: "windows_ok ?cfg (co_windows c2)" and other: "\<And>g. g \<noteq> ?g \<Longrightarrow> agree_on g ?ws (co_windows c2)"
    using group_result_other [OF Cons.prems(1,2)] unfolding c2(1) result_of_def by blast+
  have ne: "gids ! k \<noteq> ?g" if "k \<in> set order" for k
    using that Cons.prems(3-5) by (auto simp: nth_eq_iff_index_eq)
  have own: "fst (?R (co_windows c2) k) = fst (?R ?ws k)"
      "agree_on (gids ! k) (snd (?R ?ws k)) (snd (?R (co_windows c2) k))" if "k \<in> set order" for k
    using group_result_own [OF Cons.prems(1) ok2 other [OF ne [OF that]] Cons.prems(2)]
    unfolding result_of_def by simp_all
  obtain c' where c': "run_goroutines hook env cl gids mc order c2 =
        Ret (map (\<lambda>k. (gids ! k, fst (?R (co_windows c2) k))) order, c')"
      "windows_ok ?cfg (co_windows c')" "same_frame c2 c'"
      "\<And>g. g \<notin> (\<lambda>i. gids ! i) ` set order \<Longrightarrow> agree_on g (co_windows c2) (co_windows c')"
      "\<And>k. k \<in> set order \<Longrightarrow> agree_on (gids ! k) (snd (?R (co_windows c2) k)) (co_windows c')"
    using Cons.IH [of c2] Cons.prems ok2 unfolding c2(2) by auto
  have "map (\<lambda>k. (gids ! k, fst (?R (co_windows c2) k))) order = map (\<lambda>k. (gids ! k, fst (?R ?ws k))) order"
    using own(1) by simp
  then have run: "run_goroutines hook env cl gids mc (i # order) c =
      Ret (map (\<lambda>k. (gids ! k, fst (?R ?ws k))) (i # order), c')"
    using c'(1) by (simp add: Let_def c1(1) c2_def)
  have "?g \<notin> (\<lambda>i. gids ! i) ` set order" using ne by (metis imageE)
  then have "agree_on ?g (snd (?R ?ws i)) (co_windows c')" using c'(4) c2(1) by simp
  moreover have "agree_on (gids ! k) (snd (?R ?ws k)) (co_windows c')" if "k \<in> set order" for k
    using own(2) [OF that] c'(5) [OF that] by (rule agree_on_trans)
  moreover have "agree_on g ?ws (co_windows c')" if "g \<notin> (\<lambda>i. gids ! i) ` set (i # order)" for g
    using other [of g] c'(4) [of g] that by (auto intro: agree_on_trans)
  moreover have "same_frame c c'" using c2(3) c'(3) by (rule same_frame_trans)
  ultimately show ?case using run c'(2) by auto
qed

lemma handle_results_frame [simp]:
  "co_windows (handle_results cl results c) = co_windows c"
  "co_config (handle_results cl results c) = co_config c"
  "co_hookState (handle_results cl results c) = co_hookState c"
  by (induction cl results c rule: handle_results.induct)
    (auto simp: Let_def updateMetricsWithCluster_def emit_def split: sum.split)

definition keep_ok :: "'a result option \<Rightarrow> 'a option \<Rightarrow> 'a option" where
  "keep_ok new old = (case new of Some (Inr x) \<Rightarrow> Some x | _ \<Rightarrow> old)"

lemma handle_results_store:
  "distinct (map fst results) \<Longrightarrow>
     map_of (co_statusStore (handle_results cl results c)) g =
       keep_ok (map_of results g) (map_of (co_statusStore c) g)"
proof (induction cl results c rule: handle_results.induct)
  case (2 cl gid res results c)
  have none: "map_of results gid = None" using 2(3) by (simp add: map_of_eq_None_iff)
  have dis: "distinct (map fst results)" using 2(3) by simp
  show ?case
  proof (cases res)
    case (Inl e)
    with 2(1) [OF Inl dis] none show ?thesis by (auto simp: keep_ok_def)
  next
    case (Inr st)
    with 2(2) [OF Inr refl refl dis] none show ?thesis
      by (auto simp: Let_def updateMetricsWithCluster_def update_conv' keep_ok_def)
  qed
qed (simp add: keep_ok_def)

lemma handle_results_hasCollected:
  "co_hasCollected (handle_results cl results c) \<longleftrightarrow>
     co_hasCollected c \<or> (\<exists>(g, res) \<in> set results. \<exists>st. res = Inr st)"
  by (induction cl results c rule: handle_results.induct)
    (auto simp: Let_def updateMetricsWithCluster_def split: sum.split)


section \<open>The round as a whole\<close>


lemma map_of_indexed_Some:
  assumes "distinct gids" and "distinct order" and "\<forall>i \<in> set order. i < length gids" and "i \<in> set order"
  shows "map_of (map (\<lambda>i. (gids ! i, f i)) order) (gids ! i) = Some (f i)"
proof (rule map_of_is_SomeI)
  show "distinct (map fst (map (\<lambda>i. (gids ! i, f i)) order))"
    using assms(1-3) by (auto simp: distinct_map inj_on_def nth_eq_iff_index_eq comp_def)
  show "(gids ! i, f i) \<in> set (map (\<lambda>i. (gids ! i, f i)) order)" using assms(4) by auto
qed

text \<open>A goroutine run by itself on the state at the start of the round.\<close>

definition alone ::
  "'h hook \<Rightarrow> kafka_env \<Rightarrow> string \<Rightarrow> nat \<Rightarrow> string \<Rightarrow> 'h Collector \<Rightarrow> GroupStatus result option" where
  "alone hook env cl i gid c =
     (case collectGroupMetricsWithCluster hook env cl i gid
        (member_count (case ke_Members env of Inl e \<Rightarrow> [] | Inr m \<Rightarrow> m) gid) c of
        Ret (res, c') \<Rightarrow> Some res | _ \<Rightarrow> None)"

definition schedule :: "string list \<Rightarrow> nat list \<Rightarrow> bool" where
  "schedule gids order \<longleftrightarrow> distinct order \<and> set order = {..<length gids}"

lemma alone_eq:
  assumes "0 \<le> cfg_WindowSize (co_config c)"
  shows "alone hook env cl i gid c = Some (fst (group_result (co_config c) env cl i gid
    (member_count (case ke_Members env of Inl e \<Rightarrow> [] | Inr m \<Rightarrow> m) gid) (co_windows c)))"
  using collectGroup_eq [OF assms, of hook env cl i gid
    "member_count (case ke_Members env of Inl e \<Rightarrow> [] | Inr m \<Rightarrow> m) gid"]
  by (auto simp: alone_def)

lemma round_eq:
  assumes "windows_ok (co_config c) (co_windows c)" and "topics_ok env"
    and "ke_Groups env = Inr gids" and "distinct gids" and "0 < cfg_MaxConcurrency (co_config c)"
    and "schedule gids order"
  shows "\<exists>c'. CollectMetricsWithCluster hook env cl order c = Ret (Inr (), c') \<and>
    windows_ok (co_config c') (co_windows c') \<and> co_config c' = co_config c \<and>
    (\<forall>i < length gids. GetGroupStatus c' (gids ! i) =
       keep_ok (alone hook env cl i (gids ! i) c) (GetGroupStatus c (gids ! i))) \<and>
    (\<forall>g. g \<notin> set gids \<longrightarrow> GetGroupStatus c' g = GetGroupStatus c g)"
proof -
  let ?mc = "case ke_Members env of Inl e \<Rightarrow> [] | Inr m \<Rightarrow> m"
  let ?cfg = "co_config c" and ?ws = "co_windows c"
  define c2 where "c2 = emit (map (\<lambda>(g, n). MSet ConsumerGroupMembers [cl, g] (f_of_int n)) ?mc)
    (emit [MSet ActiveConsumerGroups [cl] (f_of_int (int (length gids)))] c)"
  have c2: "co_config c2 = ?cfg" "co_windows c2 = ?ws" "co_statusStore c2 = co_statusStore c"
    by (simp_all add: c2_def)
  have order: "distinct order" "\<forall>i \<in> set order. i < length gids"
    using assms(6) by (auto simp: schedule_def)
  define results where "results =
    map (\<lambda>i. (gids ! i, fst (result_of ?cfg env cl gids ?mc ?ws i))) order"
  obtain c3 where c3: "run_goroutines hook env cl gids ?mc order c2 = Ret (results, c3)"
      "windows_ok ?cfg (co_windows c3)" "same_frame c2 c3"
    using run_goroutines_eq [of c2 env gids order hook cl ?mc] assms(1,2,4) order
    unfolding c2 results_def by blast
  define c' where "c' = emit [MSet ScrapeDuration [cl] (dur_seconds (ke_RoundDuration env))]
    (handle_results cl results c3)"
  have run: "CollectMetricsWithCluster hook env cl order c = Ret (Inr (), c')"
    using assms(3,5) c3(1)
    by (simp add: CollectMetricsWithCluster_def round_body_def Let_def c2_def [symmetric] c'_def)
  have fst_results: "map fst results = map ((!) gids) order" by (simp add: results_def comp_def)
  have dist: "distinct (map fst results)" unfolding fst_results
    using order assms(4) by (auto simp: distinct_map inj_on_def nth_eq_iff_index_eq)
  have store: "GetGroupStatus c' g = keep_ok (map_of results g) (GetGroupStatus c g)" for g
    using handle_results_store [OF dist, of cl c3 g] c3(3) c2(3)
    by (simp add: c'_def GetGroupStatus_def same_frame_def)
  have own: "map_of results (gids ! i) = alone hook env cl i (gids ! i) c" if "i < length gids" for i
  proof -
    have "map_of results (gids ! i) = Some (fst (result_of ?cfg env cl gids ?mc ?ws i))"
      unfolding results_def using assms(4,6) order that
      by (intro map_of_indexed_Some) (auto simp: schedule_def)
    then show ?thesis using alone_eq [of c hook env cl i "gids ! i"] assms(1)
      by (simp add: result_of_def windows_ok_def)
  qed
  have other: "map_of results g = None" if "g \<notin> set gids" for g
    unfolding map_of_eq_None_iff image_set fst_results using that order by auto
  have "GetGroupStatus c' g = GetGroupStatus c g" if "g \<notin> set gids" for g
    using store [of g] other [OF that] by (simp add: keep_ok_def)
  moreover have "co_config c' = ?cfg" "windows_ok (co_config c') (co_windows c')"
    using c3(2,3) c2(1) by (simp_all add: c'_def same_frame_def)
  ultimately show ?thesis using run store own by auto
qed


section \<open>Accounting of a group\<close>

definition all_partitions :: "GroupStatus \<Rightarrow> PartitionConsumerStatus list" where
  "all_partitions gs = gs_CriticalPartitions gs @ gs_WarningPartitions gs @ gs_HealthyPartitions gs"

definition with_health :: "ConsumerHealth \<Rightarrow> PartitionConsumerStatus list \<Rightarrow> PartitionConsumerStatus list" where
  "with_health h sts = filter (\<lambda>st. ps_Health st = h) sts"

definition count_status :: "ConsumerStatus set \<Rightarrow> PartitionConsumerStatus list \<Rightarrow> int" where
  "count_status S sts = int (length (filter (\<lambda>st. ps_Status st \<in> S) sts))"

lemma with_health_simps [simp]:
  "with_health h [] = []"
  "with_health h (st # sts) = (if ps_Health st = h then st # with_health h sts else with_health h sts)"
  "with_health h (xs @ ys) = with_health h xs @ with_health h ys"
  by (simp_all add: with_health_def)

lemma count_status_simps [simp]:
  "count_status S [] = 0"
  "count_status S (st # sts) = (if ps_Status st \<in> S then 1 else 0) + count_status S sts"
  "count_status S (xs @ ys) = count_status S xs + count_status S ys"
  by (simp_all add: count_status_def)

lemma tally_eq:
  "tally sts gs = gs
     \<lparr>gs_ActivePartitions := gs_ActivePartitions gs + count_status {StatusActive, StatusEmpty} sts,
      gs_StoppedPartitions := gs_StoppedPartitions gs + count_status {StatusStopped} sts,
      gs_StalledPartitions := gs_StalledPartitions gs + count_status {StatusStalled} sts,
      gs_CriticalPartitions := gs_CriticalPartitions gs @ with_health HealthCritical sts,
      gs_WarningPartitions := gs_WarningPartitions gs @ with_health HealthWarning sts,
      gs_HealthyPartitions := gs_HealthyPartitions gs @ with_health HealthGood sts\<rparr>"
  by (induction sts arbitrary: gs)
    (simp_all add: count_partition_def file_partition_def split: ConsumerStatus.split ConsumerHealth.split)

lemma total_lag_eq: "total_lag sts t = t + sum_list (map ps_CurrentLag sts)"
  by (induction sts arbitrary: t) (simp_all add: add.assoc)

definition part_id :: "PartitionConsumerStatus \<Rightarrow> string \<times> string \<times> i32" where
  "part_id st = (ps_GroupID st, ps_Topic st, ps_Partition st)"

text \<open>The partitions of a group whose high watermark could be read.\<close>

definition readable :: "kafka_env \<Rightarrow> nat \<Rightarrow> nat \<Rightarrow> TopicPartitionOffset list \<Rightarrow> TopicPartitionOffset list" where
  "readable env i j tpos = map fst (filter (\<lambda>(tpo, k). \<exists>hw. ke_HighWatermark env i k = Inr hw)
     (zip tpos [j..<j + length tpos]))"

lemma readable_simps [simp]:
  "readable env i j [] = []"
  "readable env i j (tpo # tpos) = (case ke_HighWatermark env i j of
     Inl e \<Rightarrow> readable env i (Suc j) tpos | Inr hw \<Rightarrow> tpo # readable env i (Suc j) tpos)"
proof -
  show "readable env i j [] = []" by (simp add: readable_def)
  have "[j..<j + length (tpo # tpos)] = j # [Suc j..<Suc j + length tpos]"
    by (simp add: upt_conv_Cons del: upt_Suc)
  then show "readable env i j (tpo # tpos) = (case ke_HighWatermark env i j of
     Inl e \<Rightarrow> readable env i (Suc j) tpos | Inr hw \<Rightarrow> tpo # readable env i (Suc j) tpos)"
    by (simp add: readable_def del: upt_Suc split: sum.split)
qed

lemma lag_of_nonneg: "0 \<le> sint (lag_of hw off)"
  by (simp add: lag_of_def Let_def)

lemma evaluate_health_known:
  "ps_Health (EvaluatePartitionConsumer cfg rs g t p) \<in> {HealthCritical, HealthWarning, HealthGood}"
proof (cases "evaluable cfg rs")
  case True
  then show ?thesis by (simp add: evaluate_health split: ConsumerStatus.split)
qed (simp add: evaluate_unknown)

definition filed_ok :: "string \<Rightarrow> PartitionConsumerStatus \<Rightarrow> bool" where
  "filed_ok gid st \<longleftrightarrow> ps_GroupID st = gid \<and> 0 \<le> sint (ps_CurrentLag st) \<and>
     ps_Health st \<in> {HealthCritical, HealthWarning, HealthGood}"

lemma filed_ok_no_offset: "filed_ok gid (no_offset_status gid tpo hw)"
  by (simp add: filed_ok_def no_offset_status_def zero_PartitionConsumerStatus_def)

lemma part_id_simps [simp]:
  "part_id (no_offset_status gid tpo hw) = (gid, tp_Topic tpo, tp_Partition tpo)"
  "part_id (EvaluatePartitionConsumer cfg rs gid t p) = (gid, t, p)"
  by (simp_all add: part_id_def no_offset_status_def)

lemma filed_ok_evaluate:
  assumes "windows_ok cfg ws" and "0 < cfg_WindowSize cfg" and "0 \<le> sint (or_Lag r)"
  shows "filed_ok gid (EvaluatePartitionConsumer cfg (getWindowRecords (add_window cfg ws key r) key) gid t p)"
proof -
  have "getWindowRecords (add_window cfg ws key r) key =
      lastn (nat (cfg_WindowSize cfg) - 1) (getWindowRecords ws key) @ [r]"
    using assms(1,2) by (simp add: windows.get_add_same lastn_snoc)
  then show ?thesis using assms(3) evaluate_health_known by (simp add: filed_ok_def evaluate_latest)
qed

lemma evaluated_filed:
  assumes "windows_ok cfg ws" and "0 < cfg_WindowSize cfg"
  shows "map part_id (fst (evaluated cfg env gid i j tpos ws)) =
      map (\<lambda>tpo. (gid, tp_Topic tpo, tp_Partition tpo)) (readable env i j tpos) \<and>
    (\<forall>st \<in> set (fst (evaluated cfg env gid i j tpos ws)). filed_ok gid st)"
  using assms
proof (induction tpos arbitrary: j ws)
  case (Cons tpo tpos)
  show ?case
  proof (cases "ke_HighWatermark env i j")
    case (Inr hw)
    let ?key = "windowKey gid (tp_Topic tpo) (tp_Partition tpo)"
    let ?r = "check_record hw (tp_Offset tpo) (ke_Now env i j)"
    have "filed_ok gid (EvaluatePartitionConsumer cfg (getWindowRecords (add_window cfg ws ?key ?r) ?key)
        gid (tp_Topic tpo) (tp_Partition tpo))"
      using Cons.prems by (intro filed_ok_evaluate) (simp_all add: check_record_def lag_of_nonneg)
    then show ?thesis
      using Inr Cons.IH [OF Cons.prems, of "Suc j"]
        Cons.IH [OF windows_ok_add [OF Cons.prems(1)] Cons.prems(2), of "Suc j" ?key ?r]
      by (auto simp: Let_def split_def filed_ok_no_offset)
  next
    case (Inl e)
    then show ?thesis using Cons.IH [OF Cons.prems, of "Suc j"] by simp
  qed
qed simp

lemma with_health_cover:
  assumes "\<forall>st \<in> set sts. filed_ok gid st"
  shows "mset (with_health HealthCritical sts @ with_health HealthWarning sts @ with_health HealthGood sts) = mset sts"
  using assms by (induction sts) (auto simp: filed_ok_def)

lemma count_status_mset: "mset xs = mset ys \<Longrightarrow> count_status S xs = count_status S ys"
  unfolding count_status_def by (metis mset_filter size_mset)


text \<open>The sum of the lags, as an integer.\<close>

definition lag_sum :: "PartitionConsumerStatus list \<Rightarrow> int" where
  "lag_sum sts = (\<Sum>st\<leftarrow>sts. sint (ps_CurrentLag st))"

lemma sum_words_exact:
  assumes "\<forall>st \<in> set sts. 0 \<le> sint (ps_CurrentLag st)" and "lag_sum sts < 2 ^ 63"
  shows "sint (sum_list (map ps_CurrentLag sts)) = lag_sum sts"
proof -
  have "0 \<le> lag_sum sts \<and> (lag_sum sts < 2 ^ 63 \<longrightarrow> sint (sum_list (map ps_CurrentLag sts)) = lag_sum sts)"
    using assms(1)
  proof (induction sts)
    case (Cons st sts)
    then show ?case by (auto simp: lag_sum_def sint_i64_add wrap64_id)
  qed (simp add: lag_sum_def)
  then show ?thesis using assms(2) by blast
qed

lemma sum_list_mset_cong: "mset xs = mset ys \<Longrightarrow> sum_list (map f xs) = (sum_list (map f ys) :: 'a::comm_monoid_add)"
  by (metis mset_map sum_mset_sum_list)

lemma collectGroup_accounting:
  assumes "windows_ok (co_config c) (co_windows c)" and "0 < cfg_WindowSize (co_config c)"
    and "ke_Offsets env i = Inr offs"
    and "collectGroupMetricsWithCluster hook env cl i gid mc c = Ret (Inr gs, c')"
  shows "\<exists>sts. mset (all_partitions gs) = mset sts \<and> (\<forall>st \<in> set sts. filed_ok gid st) \<and>
    map part_id sts = map (\<lambda>tpo. (gid, tp_Topic tpo, tp_Partition tpo)) (readable env i 0 offs) \<and>
    gs_CriticalPartitions gs = with_health HealthCritical sts \<and>
    gs_WarningPartitions gs = with_health HealthWarning sts \<and>
    gs_HealthyPartitions gs = with_health HealthGood sts \<and>
    gs_ActivePartitions gs = count_status {StatusActive, StatusEmpty} sts \<and>
    gs_StoppedPartitions gs = count_status {StatusStopped} sts \<and>
    gs_StalledPartitions gs = count_status {StatusStalled} sts \<and>
    gs_TotalLag gs = sum_list (map ps_CurrentLag sts) \<and>
    gs_OverallHealth gs = overall_health gs \<and>
    gs_PartitionCount gs = int (length offs) \<and> gs_GroupID gs = gid \<and> gs_MemberCount gs = mc"
proof -
  define sts where "sts = fst (evaluated (co_config c) env gid i 0 offs (co_windows c))"
  have filed: "\<forall>st \<in> set sts. filed_ok gid st"
    and ids: "map part_id sts = map (\<lambda>tpo. (gid, tp_Topic tpo, tp_Partition tpo)) (readable env i 0 offs)"
    using evaluated_filed [OF assms(1,2), of env gid i 0 offs] by (simp_all add: sts_def)
  have "Inr gs = fst (group_result (co_config c) env cl i gid mc (co_windows c))"
    using collectGroup_eq [of c hook env cl i gid mc] assms(2,4) by auto
  then have gs: "gs = (let g = (tally sts (zero_GroupStatus\<lparr>gs_GroupID := gid, gs_MemberCount := mc,
        gs_LastUpdateTime := ke_GroupNow env i, gs_PartitionCount := int (length offs)\<rparr>))
          \<lparr>gs_TotalLag := total_lag sts 0\<rparr> in g\<lparr>gs_OverallHealth := overall_health g\<rparr>)"
    using assms(3) by (simp add: group_result_def Let_def sts_def)
  have lists: "gs_CriticalPartitions gs = with_health HealthCritical sts"
      "gs_WarningPartitions gs = with_health HealthWarning sts"
      "gs_HealthyPartitions gs = with_health HealthGood sts"
    by (simp_all add: gs tally_eq Let_def zero_GroupStatus_def)
  have "mset (all_partitions gs) = mset sts"
    unfolding all_partitions_def lists by (rule with_health_cover [OF filed])
  then show ?thesis using filed ids lists
    by (intro exI [of _ sts])
      (simp_all add: gs tally_eq total_lag_eq Let_def zero_GroupStatus_def overall_health_def)
qed


section \<open>Properties of a round\<close>

lemma partition_lags_nonneg: "lag_of hw off = 0 \<or> lag_of hw off = hw - off"
  by (simp add: lag_of_def Let_def)

text \<open>The lag of a partition is never negative, and it is the distance from the committed
  offset to the high watermark, or 0 when the offset is ahead, for offsets and watermarks that
  are not negative.\<close>

lemma lag_is_clamped_distance:
  assumes "0 \<le> sint hw" and "0 \<le> sint off"
  shows "sint (lag_of hw off) = max 0 (sint hw - sint off)"
proof -
  have "sint (hw - off) = sint hw - sint off"
    unfolding sint_i64_sub using assms sint_i64_range(2) [of hw] sint_i64_range(2) [of off]
    by (intro wrap64_id) simp_all
  then show ?thesis by (simp add: lag_of_def)
qed

definition sample_env :: kafka_env where
  "sample_env =
     \<lparr>ke_OffsetInvalid = -1, ke_Groups = Inr [''g'', ''h''], ke_Members = Inr [(''g'', 2)],
      ke_Offsets = (\<lambda>i. if i = 0
        then Inr [\<lparr>tp_Topic = ''t'', tp_Partition = 0, tp_Offset = 7\<rparr>,
                  \<lparr>tp_Topic = ''t'', tp_Partition = 1, tp_Offset = 7\<rparr>,
                  \<lparr>tp_Topic = ''t'', tp_Partition = 2, tp_Offset = -1\<rparr>]
        else Inl (ErrText ''timeout'')),
      ke_GroupNow = (\<lambda>i. 100 * second),
      ke_HighWatermark = (\<lambda>i j. if j = 1 then Inl (ErrText ''no leader'') else Inr 9),
      ke_Now = (\<lambda>i j. 100 * second), ke_GroupDuration = (\<lambda>i. second), ke_RoundDuration = 2 * second\<rparr>"

definition sample_collector :: "unit Collector" where
  "sample_collector = NewWithClient dev_config ()"

lemma sample_collector_simps [simp]:
  "co_config sample_collector = dev_config" "co_windows sample_collector = []"
  "co_statusStore sample_collector = []" "co_hasCollected sample_collector = False"
  "co_metrics sample_collector = []" "cfg_WindowSize dev_config = 10"
  "cfg_MaxConcurrency dev_config = 10" "cfg_MinWindowSize dev_config = 5"
  "cfg_CheckInterval dev_config = 10 * second"
  by (simp_all add: sample_collector_def NewWithClient_def dev_config_def)

lemma sample_windows_ok: "windows_ok (co_config sample_collector) (co_windows sample_collector)"
  by (simp add: windows_ok_def)

lemma sample_group:
  "\<exists>gs c'. collectGroupMetricsWithCluster None sample_env ''c1'' 0 ''g'' 2 sample_collector = Ret (Inr gs, c') \<and>
     gs_TotalLag gs = 2 \<and> length (gs_WarningPartitions gs) = 2 \<and>
     map (sint \<circ> ps_CurrentLag) (gs_WarningPartitions gs) = [2, 0] \<and> gs_CriticalPartitions gs = [] \<and> gs_HealthyPartitions gs = []"
proof -
  obtain c' where "collectGroupMetricsWithCluster None sample_env ''c1'' 0 ''g'' 2 sample_collector =
      Ret (fst (group_result dev_config sample_env ''c1'' 0 ''g'' 2 []), c')"
    using collectGroup_eq [of sample_collector None sample_env "''c1''" 0 "''g''" 2] by auto
  then show ?thesis
    by (simp add: group_result_def sample_env_def Let_def evaluated.simps no_offset_status_def
        zero_PartitionConsumerStatus_def zero_GroupStatus_def tally_eq total_lag_eq
        add_window_def addToWindow_def push_record_def getWindowRecords_def check_record_def lag_of_def
        EvaluatePartitionConsumer_def)
qed

lemma group_worst_health:
  assumes "windows_ok (co_config c) (co_windows c)" and "0 < cfg_WindowSize (co_config c)"
    and "ke_Offsets env i = Inr offs"
    and "collectGroupMetricsWithCluster hook env cl i gid mc c = Ret (Inr gs, c')"
  shows "gs_OverallHealth gs = Max (insert HealthGood (ps_Health ` set (all_partitions gs)))"
proof -
  obtain sts where sts: "mset (all_partitions gs) = mset sts"
      "gs_CriticalPartitions gs = with_health HealthCritical sts"
      "gs_WarningPartitions gs = with_health HealthWarning sts"
      "gs_OverallHealth gs = overall_health gs"
    using collectGroup_accounting [OF assms] by blast
  have "h \<in> ps_Health ` set (all_partitions gs) \<longleftrightarrow> with_health h sts \<noteq> []" for h
    using mset_eq_setD [OF sts(1)] by (auto simp: with_health_def filter_empty_conv)
  then show ?thesis by (simp add: sts(2-4) overall_health_def worst_health)
qed

lemma group_lag_exact:
  assumes "windows_ok (co_config c) (co_windows c)" and "0 < cfg_WindowSize (co_config c)"
    and "ke_Offsets env i = Inr offs"
    and "collectGroupMetricsWithCluster hook env cl i gid mc c = Ret (Inr gs, c')"
    and "lag_sum (all_partitions gs) < 2 ^ 63"
  shows "sint (gs_TotalLag gs) = lag_sum (all_partitions gs)"
proof -
  obtain sts where sts: "mset (all_partitions gs) = mset sts" "\<forall>st \<in> set sts. filed_ok gid st"
      "gs_TotalLag gs = sum_list (map ps_CurrentLag sts)"
    using collectGroup_accounting [OF assms(1-4)] by blast
  have "gs_TotalLag gs = sum_list (map ps_CurrentLag (all_partitions gs))"
    using sts(3) sum_list_mset_cong [OF sts(1), of ps_CurrentLag] by simp
  moreover have "\<forall>st \<in> set (all_partitions gs). 0 \<le> sint (ps_CurrentLag st)"
    using sts(2) mset_eq_setD [OF sts(1)] by (auto simp: filed_ok_def)
  ultimately show ?thesis using sum_words_exact assms(5) by simp
qed

text \<open>C34: Every partition of a group whose high watermark could be read is in exactly one of the
  three health lists of the group's status, every partition of a list has that health, and the
  status counters count the partitions of the lists by status. The health of the group is the worst
  of its partitions, GOOD without any, and its total lag the sum of their lags, as integers, whenever
  that sum fits in an int64. A partition whose watermark could not be read is in none of the lists,
  though PartitionCount counts it.\<close>

theorem group_accounting:
  assumes "windows_ok (co_config c) (co_windows c)" and "0 < cfg_WindowSize (co_config c)"
    and "ke_Offsets env i = Inr offs"
    and "collectGroupMetricsWithCluster hook env cl i gid mc c = Ret (Inr gs, c')"
  shows "mset (map part_id (all_partitions gs)) =
      mset (map (\<lambda>tpo. (gid, tp_Topic tpo, tp_Partition tpo)) (readable env i 0 offs)) \<and>
    with_health HealthCritical (gs_CriticalPartitions gs) = gs_CriticalPartitions gs \<and>
    with_health HealthWarning (gs_WarningPartitions gs) = gs_WarningPartitions gs \<and>
    with_health HealthGood (gs_HealthyPartitions gs) = gs_HealthyPartitions gs \<and>
    gs_ActivePartitions gs = count_status {StatusActive, StatusEmpty} (all_partitions gs) \<and>
    gs_StoppedPartitions gs = count_status {StatusStopped} (all_partitions gs) \<and>
    gs_StalledPartitions gs = count_status {StatusStalled} (all_partitions gs) \<and>
    gs_OverallHealth gs = Max (insert HealthGood (ps_Health ` set (all_partitions gs))) \<and>
    (lag_sum (all_partitions gs) < 2 ^ 63 \<longrightarrow> sint (gs_TotalLag gs) = lag_sum (all_partitions gs)) \<and>
    gs_PartitionCount gs = int (length offs)"
proof -
  obtain sts where sts: "mset (all_partitions gs) = mset sts"
      "map part_id sts = map (\<lambda>tpo. (gid, tp_Topic tpo, tp_Partition tpo)) (readable env i 0 offs)"
      "gs_CriticalPartitions gs = with_health HealthCritical sts"
      "gs_WarningPartitions gs = with_health HealthWarning sts"
      "gs_HealthyPartitions gs = with_health HealthGood sts"
      "gs_ActivePartitions gs = count_status {StatusActive, StatusEmpty} sts"
      "gs_StoppedPartitions gs = count_status {StatusStopped} sts"
      "gs_StalledPartitions gs = count_status {StatusStalled} sts"
      "gs_PartitionCount gs = int (length offs)"
    using collectGroup_accounting [OF assms] by blast
  have "mset (map part_id (all_partitions gs)) = mset (map part_id sts)"
    using sts(1) by (simp only: mset_map)
  then show ?thesis
    using sts(3-9) count_status_mset [OF sts(1)] group_worst_health [OF assms] group_lag_exact [OF assms]
    by (simp add: sts(2) with_health_def)
qed

theorem group_accounting_witness:
  "\<exists>gs c'. collectGroupMetricsWithCluster None sample_env ''c1'' 0 ''g'' 2 sample_collector = Ret (Inr gs, c') \<and>
     mset (map part_id (all_partitions gs)) = {#(''g'', ''t'', 0), (''g'', ''t'', 2)#} \<and>
     gs_PartitionCount gs = 3 \<and> gs_OverallHealth gs = HealthWarning \<and> sint (gs_TotalLag gs) = 2"
proof -
  obtain gs c' where gs: "collectGroupMetricsWithCluster None sample_env ''c1'' 0 ''g'' 2 sample_collector = Ret (Inr gs, c')"
      "length (gs_WarningPartitions gs) = 2" "map (sint \<circ> ps_CurrentLag) (gs_WarningPartitions gs) = [2, 0]"
      "gs_CriticalPartitions gs = []" "gs_HealthyPartitions gs = []"
    using sample_group by (elim exE conjE) simp_all
  note acc = group_accounting [OF sample_windows_ok _ _ gs(1)]
  have all: "all_partitions gs = gs_WarningPartitions gs" by (simp add: all_partitions_def gs(4,5))
  have "lag_sum (all_partitions gs) = sum_list (map (sint \<circ> ps_CurrentLag) (gs_WarningPartitions gs))"
    by (simp add: lag_sum_def all comp_def)
  then have sum: "lag_sum (all_partitions gs) = 2" by (simp add: gs(3))
  obtain a b where ab: "gs_WarningPartitions gs = [a, b]"
    using gs(2) by (auto simp: numeral_2_eq_2 length_Suc_conv)
  have "ps_Health a = HealthWarning" "ps_Health b = HealthWarning"
    using acc by (auto simp: sample_env_def ab split: if_splits)
  then have "gs_OverallHealth gs = HealthWarning" using acc by (simp add: sample_env_def all ab max_def less_eq_ConsumerHealth_def)
  moreover have "sint (gs_TotalLag gs) = 2" using acc sum by (simp add: sample_env_def)
  ultimately show ?thesis using gs(1) acc by (auto simp: sample_env_def)
qed


lemma sample_topics_ok: "topics_ok sample_env"
  by (auto simp: topics_ok_def sample_env_def split: if_splits)

end
