(* ===== verification/Pool.thy ===== *)
theory Pool
  imports Collector_Round
begin

text \<open>
  The goroutines of one round (internal/collector/collector.go,
  \<open>CollectMetricsWithCluster\<close>) step by step: the semaphore channel, the wait group, the
  buffered results channel, the goroutine that closes it and the loop that drains it.  A
  goroutine's steps are its calls; the calls of several goroutines interleave in any order.
\<close>

section \<open>States and steps\<close>

datatype phase =
    NotStarted
  | Fetch
  | Loop nat "TopicPartitionOffset list" GroupStatus i64
  | Computed "GroupStatus result"
  | Ready "GroupStatus result"
  | Sent
  | Released
  | Finished

text \<open>
  \<open>pl_added\<close>: the launching loop has called \<open>wg.Add\<close> for the next group and waits for
  the semaphore; \<open>pl_sem\<close>: the elements in the semaphore channel; \<open>pl_results\<close>: the
  elements in the results channel.
\<close>

record 'h pool =
  pl_todo :: "nat list"
  pl_added :: bool
  pl_sem :: nat
  pl_wg :: nat
  pl_phase :: "nat \<Rightarrow> phase"
  pl_results :: "(string \<times> GroupStatus result) list"
  pl_closed :: bool
  pl_finished :: bool
  pl_coll :: "'h Collector"

definition group_start :: "kafka_env \<Rightarrow> nat \<Rightarrow> string \<Rightarrow> int \<Rightarrow> nat \<Rightarrow> GroupStatus" where
  "group_start env i gid mc n = zero_GroupStatus\<lparr>gs_GroupID := gid, gs_MemberCount := mc,
     gs_LastUpdateTime := ke_GroupNow env i, gs_PartitionCount := int n\<rparr>"

definition group_end :: "GroupStatus \<Rightarrow> i64 \<Rightarrow> GroupStatus" where
  "group_end gs totalLag =
     (let gs' = gs\<lparr>gs_TotalLag := totalLag\<rparr> in gs'\<lparr>gs_OverallHealth := overall_health gs'\<rparr>)"

definition after_partition ::
  "nat \<Rightarrow> TopicPartitionOffset list \<Rightarrow> GroupStatus \<Rightarrow> i64 \<Rightarrow> PartitionConsumerStatus result \<Rightarrow> phase" where
  "after_partition j tpos gs totalLag res =
     (case res of
        Inl e \<Rightarrow> Loop (Suc j) tpos gs totalLag
      | Inr st \<Rightarrow> Loop (Suc j) tpos (file_partition st (count_partition st gs)) (totalLag + ps_CurrentLag st))"

inductive pool_step ::
  "'h hook \<Rightarrow> kafka_env \<Rightarrow> string \<Rightarrow> string list \<Rightarrow> (string \<times> int) list \<Rightarrow> 'h pool \<Rightarrow> 'h pool \<Rightarrow> bool"
  for hook env cl gids mc where
  add: "\<lbrakk>pl_todo s \<noteq> []; \<not> pl_added s\<rbrakk>
    \<Longrightarrow> pool_step hook env cl gids mc s (s\<lparr>pl_added := True, pl_wg := pl_wg s + 1\<rparr>)"
| launch: "\<lbrakk>pl_todo s = i # todo; pl_added s; int (pl_sem s) < cfg_MaxConcurrency (co_config (pl_coll s))\<rbrakk>
    \<Longrightarrow> pool_step hook env cl gids mc s (s\<lparr>pl_todo := todo, pl_added := False, pl_sem := pl_sem s + 1,
          pl_phase := (pl_phase s)(i := Fetch)\<rparr>)"
| fetch_error: "\<lbrakk>pl_phase s i = Fetch; ke_Offsets env i = Inl e\<rbrakk>
    \<Longrightarrow> pool_step hook env cl gids mc s (s\<lparr>pl_phase := (pl_phase s)(i := Computed (Inl (ErrWrap
          (''['' @ cl @ ''] Error : failed to get group offsets: '') e)))\<rparr>)"
| fetch: "\<lbrakk>pl_phase s i = Fetch; ke_Offsets env i = Inr offs\<rbrakk>
    \<Longrightarrow> pool_step hook env cl gids mc s (s\<lparr>pl_phase := (pl_phase s)(i :=
          Loop 0 offs (group_start env i (gids ! i) (member_count mc (gids ! i)) (length offs)) 0)\<rparr>)"
| evaluate: "\<lbrakk>pl_phase s i = Loop j (tpo # tpos) gs totalLag;
      evaluatePartition hook (ke_OffsetInvalid env) cl (gids ! i) tpo (ke_HighWatermark env i j)
        (ke_Now env i j) (pl_coll s) = Ret (res, c')\<rbrakk>
    \<Longrightarrow> pool_step hook env cl gids mc s (s\<lparr>pl_phase := (pl_phase s)(i :=
          after_partition j tpos gs totalLag res), pl_coll := c'\<rparr>)"
| compute: "pl_phase s i = Loop j [] gs totalLag
    \<Longrightarrow> pool_step hook env cl gids mc s (s\<lparr>pl_phase := (pl_phase s)(i := Computed (Inr (group_end gs totalLag)))\<rparr>)"
| observe: "pl_phase s i = Computed res
    \<Longrightarrow> pool_step hook env cl gids mc s (s\<lparr>pl_phase := (pl_phase s)(i := Ready res),
          pl_coll := emit [MObserve CollectionDuration [cl, gids ! i] (dur_seconds (ke_GroupDuration env i))] (pl_coll s)\<rparr>)"
| send: "\<lbrakk>pl_phase s i = Ready res; \<not> pl_closed s; length (pl_results s) < length gids\<rbrakk>
    \<Longrightarrow> pool_step hook env cl gids mc s (s\<lparr>pl_phase := (pl_phase s)(i := Sent),
          pl_results := pl_results s @ [(gids ! i, res)]\<rparr>)"
| release: "\<lbrakk>pl_phase s i = Sent; 0 < pl_sem s\<rbrakk>
    \<Longrightarrow> pool_step hook env cl gids mc s (s\<lparr>pl_phase := (pl_phase s)(i := Released), pl_sem := pl_sem s - 1\<rparr>)"
| wg_done: "\<lbrakk>pl_phase s i = Released; 0 < pl_wg s\<rbrakk>
    \<Longrightarrow> pool_step hook env cl gids mc s (s\<lparr>pl_phase := (pl_phase s)(i := Finished), pl_wg := pl_wg s - 1\<rparr>)"
| close: "\<lbrakk>pl_todo s = []; pl_wg s = 0; \<not> pl_closed s\<rbrakk>
    \<Longrightarrow> pool_step hook env cl gids mc s (s\<lparr>pl_closed := True\<rparr>)"
| receive: "\<lbrakk>pl_todo s = []; pl_results s = (gid, res) # results\<rbrakk>
    \<Longrightarrow> pool_step hook env cl gids mc s (s\<lparr>pl_results := results,
          pl_coll := handle_results cl [(gid, res)] (pl_coll s)\<rparr>)"
| finish: "\<lbrakk>pl_todo s = []; pl_results s = []; pl_closed s; \<not> pl_finished s\<rbrakk>
    \<Longrightarrow> pool_step hook env cl gids mc s (s\<lparr>pl_finished := True\<rparr>)"

definition pool_start :: "string list \<Rightarrow> 'h Collector \<Rightarrow> 'h pool" where
  "pool_start gids c = \<lparr>pl_todo = [0..<length gids], pl_added = False, pl_sem = 0, pl_wg = 0,
     pl_phase = (\<lambda>i. NotStarted), pl_results = [], pl_closed = False, pl_finished = False, pl_coll = c\<rparr>"

inductive_cases pool_stepE: "pool_step hook env cl gids mc s s'"

section \<open>Counting goroutines\<close>

fun holds_slot :: "phase \<Rightarrow> bool" where
  "holds_slot NotStarted = False" | "holds_slot Released = False" | "holds_slot Finished = False"
| "holds_slot _ = True"

fun unfinished :: "phase \<Rightarrow> bool" where
  "unfinished NotStarted = False" | "unfinished Finished = False" | "unfinished _ = True"

fun has_sent :: "phase \<Rightarrow> bool" where
  "has_sent Sent = True" | "has_sent Released = True" | "has_sent Finished = True"
| "has_sent _ = False"

definition how_many :: "nat \<Rightarrow> (phase \<Rightarrow> bool) \<Rightarrow> (nat \<Rightarrow> phase) \<Rightarrow> nat" where
  "how_many n P f = (\<Sum>k<n. if P (f k) then 1 else 0)"

lemma sum_fun_upd:
  fixes n :: nat
  shows "i < n \<Longrightarrow> (\<Sum>k<n. w k ((f(i := x)) k)) + w i (f i) = (\<Sum>k<n. w k (f k)) + (w i x :: nat)"
proof (induction n)
  case (Suc n)
  show ?case
  proof (cases "i = n")
    case True
    have "(\<Sum>k<n. w k ((f(i := x)) k)) = (\<Sum>k<n. w k (f k))"
      using True by (intro sum.cong) auto
    then show ?thesis using True by simp
  next
    case False
    then show ?thesis using Suc by simp
  qed
qed simp

lemma how_many_upd:
  "i < n \<Longrightarrow> how_many n P (f(i := x)) + (if P (f i) then 1 else 0) = how_many n P f + (if P x then 1 else 0)"
  unfolding how_many_def using sum_fun_upd [of i n "\<lambda>k p. if P p then 1 else 0" f x] by simp

lemma how_many_upd_pred:
  assumes "i < n" and "f i = y"
  shows "how_many n P (f(i := x)) = how_many n P f + (if P x then 1 else 0) - (if P y then 1 else 0)"
  using how_many_upd [OF assms(1), of P f x] assms(2) by simp

lemma how_many_le: "how_many n P f \<le> n"
proof -
  have "how_many n P f \<le> (\<Sum>k<n. 1)" unfolding how_many_def by (intro sum_mono) simp
  then show ?thesis by simp
qed

lemma how_many_card: "how_many n P f = card {k. k < n \<and> P (f k)}"
  by (simp add: how_many_def sum.If_cases lessThan_def Int_def)

lemma how_many_less: "i < n \<Longrightarrow> \<not> P (f i) \<Longrightarrow> how_many n P f < n"
proof -
  assume i: "i < n" "\<not> P (f i)"
  then have "{k. k < n \<and> P (f k)} \<subset> {..<n}" by auto
  then have "card {k. k < n \<and> P (f k)} < card {..<n}" by (intro psubset_card_mono) simp_all
  then show ?thesis by (simp add: how_many_card)
qed

lemma how_many_zero_iff: "how_many n P f = 0 \<longleftrightarrow> (\<forall>k<n. \<not> P (f k))"
  by (auto simp: how_many_def)

lemma how_many_pos: "i < n \<Longrightarrow> P (f i) \<Longrightarrow> 0 < how_many n P f"
  using how_many_zero_iff [of n P f] by auto

lemma how_many_zero_fun [simp]: "\<not> P NotStarted \<Longrightarrow> how_many n P (\<lambda>i. NotStarted) = 0"
  by (simp add: how_many_def)

section \<open>The control invariant\<close>

definition control_ok :: "nat \<Rightarrow> 'h pool \<Rightarrow> bool" where
  "control_ok n s \<longleftrightarrow>
     distinct (pl_todo s) \<and> (\<forall>i. i \<in> set (pl_todo s) \<longleftrightarrow> i < n \<and> pl_phase s i = NotStarted) \<and>
     (\<forall>i. pl_phase s i \<noteq> NotStarted \<longrightarrow> i < n) \<and>
     pl_sem s = how_many n holds_slot (pl_phase s) \<and>
     pl_wg s = how_many n unfinished (pl_phase s) + (if pl_added s then 1 else 0) \<and>
     (pl_added s \<longrightarrow> pl_todo s \<noteq> []) \<and>
     int (pl_sem s) \<le> max 0 (cfg_MaxConcurrency (co_config (pl_coll s))) \<and>
     length (pl_results s) \<le> how_many n has_sent (pl_phase s) \<and>
     (pl_closed s \<longrightarrow> pl_todo s = [] \<and> pl_wg s = 0) \<and>
     (pl_finished s \<longrightarrow> pl_closed s \<and> pl_results s = [])"

lemma control_start: "control_ok (length gids) (pool_start gids c)"
  by (simp add: control_ok_def pool_start_def)

lemma evaluatePartition_config:
  "evaluatePartition hook invalid cl gid tpo reply now c = Ret (res, c') \<Longrightarrow> co_config c' = co_config c"
  by (auto simp: evaluatePartition_def Let_def go_bind_Ret_iff updatePartitionMetricsWithCluster_def
      split: sum.splits if_splits)

text \<open>Steps that move one goroutine on without touching a counter.\<close>

lemma control_phase:
  assumes "control_ok n s" and "pl_phase s i = p" and "p \<noteq> NotStarted" and "q \<noteq> NotStarted"
    and "holds_slot q = holds_slot p" and "unfinished q = unfinished p" and "has_sent q = has_sent p"
    and "co_config c' = co_config (pl_coll s)"
  shows "control_ok n (s\<lparr>pl_phase := (pl_phase s)(i := q), pl_coll := c'\<rparr>)"
proof -
  have i: "i < n" using assms(1-3) by (simp add: control_ok_def)
  have "how_many n P ((pl_phase s)(i := q)) = how_many n P (pl_phase s)" if "P q = P p" for P
    using how_many_upd [OF i, of P "pl_phase s" q] that assms(2) by (simp split: if_splits)
  note counts = this [OF assms(5)] this [OF assms(6)] this [OF assms(7)]
  have "(((pl_phase s)(i := q)) k = NotStarted) = (pl_phase s k = NotStarted)" for k
    using assms(2-4) by simp
  then show ?thesis using assms(1,8) unfolding control_ok_def
    by (simp add: counts del: fun_upd_apply split del: if_split) auto
qed


lemma control_step:
  assumes "pool_step hook env cl gids mc s s'" and "control_ok (length gids) s"
  shows "control_ok (length gids) s'"
  using assms
proof cases
  case add
  then show ?thesis using assms(2) by (auto simp: control_ok_def)
next
  case (launch i todo)
  let ?n = "length gids"
  have i: "i < ?n" "pl_phase s i = NotStarted" using assms(2) launch(2) unfolding control_ok_def by auto
  note n = how_many_upd [OF i(1), of _ "pl_phase s" Fetch] i(2)
  have "how_many ?n holds_slot ((pl_phase s)(i := Fetch)) = how_many ?n holds_slot (pl_phase s) + 1"
      "how_many ?n unfinished ((pl_phase s)(i := Fetch)) = how_many ?n unfinished (pl_phase s) + 1"
      "how_many ?n has_sent ((pl_phase s)(i := Fetch)) = how_many ?n has_sent (pl_phase s)"
    using n(1) [of holds_slot] n(1) [of unfinished] n(1) [of has_sent] n(2) by simp_all
  then show ?thesis using assms(2) launch i by (auto simp: control_ok_def split: if_splits)
next
  case (fetch_error i e)
  show ?thesis unfolding fetch_error(1) using fetch_error assms(2)
      control_phase [of "length gids" s i Fetch _ "pl_coll s"] by simp
next
  case (fetch i offs)
  show ?thesis unfolding fetch(1) using fetch assms(2)
      control_phase [of "length gids" s i Fetch _ "pl_coll s"] by simp
next
  case (evaluate i j tpo tpos gs totalLag res c')
  show ?thesis unfolding evaluate(1)
    by (rule control_phase [OF assms(2) evaluate(2)])
      (use evaluatePartition_config [OF evaluate(3)] in \<open>simp_all add: after_partition_def split: sum.split\<close>)
next
  case (compute i j gs totalLag)
  show ?thesis unfolding compute(1) using compute assms(2)
      control_phase [of "length gids" s i "Loop j [] gs totalLag" _ "pl_coll s"] by simp
next
  case (observe i res)
  show ?thesis unfolding observe(1) by (rule control_phase [OF assms(2) observe(2)]) simp_all
next
  case (send i res)
  let ?n = "length gids"
  have i: "i < ?n" using assms(2) send(2) unfolding control_ok_def by auto
  note n = how_many_upd [OF i(1), of _ "pl_phase s" Sent]
  have "how_many ?n holds_slot ((pl_phase s)(i := Sent)) = how_many ?n holds_slot (pl_phase s)"
      "how_many ?n unfinished ((pl_phase s)(i := Sent)) = how_many ?n unfinished (pl_phase s)"
      "how_many ?n has_sent ((pl_phase s)(i := Sent)) = how_many ?n has_sent (pl_phase s) + 1"
    using n [of holds_slot] n [of unfinished] n [of has_sent] send(2) by simp_all
  then show ?thesis using assms(2) send i by (auto simp: control_ok_def)
next
  case (release i)
  let ?n = "length gids"
  have i: "i < ?n" using assms(2) release(2) unfolding control_ok_def by auto
  note n = how_many_upd [OF i(1), of _ "pl_phase s" Released]
  have "how_many ?n holds_slot ((pl_phase s)(i := Released)) = how_many ?n holds_slot (pl_phase s) - 1"
      "how_many ?n unfinished ((pl_phase s)(i := Released)) = how_many ?n unfinished (pl_phase s)"
      "how_many ?n has_sent ((pl_phase s)(i := Released)) = how_many ?n has_sent (pl_phase s)"
    using n [of holds_slot] n [of unfinished] n [of has_sent] release(2) by simp_all
  then show ?thesis using assms(2) release i by (auto simp: control_ok_def)
next
  case (wg_done i)
  let ?n = "length gids"
  have i: "i < ?n" using assms(2) wg_done(2) unfolding control_ok_def by auto
  have pos: "0 < how_many ?n unfinished (pl_phase s)" using i wg_done(2) by (intro how_many_pos) auto
  note n = how_many_upd [OF i(1), of _ "pl_phase s" Finished]
  have "how_many ?n holds_slot ((pl_phase s)(i := Finished)) = how_many ?n holds_slot (pl_phase s)"
      "how_many ?n unfinished ((pl_phase s)(i := Finished)) = how_many ?n unfinished (pl_phase s) - 1"
      "how_many ?n has_sent ((pl_phase s)(i := Finished)) = how_many ?n has_sent (pl_phase s)"
    using n [of holds_slot] n [of unfinished] n [of has_sent] wg_done(2) by simp_all
  then show ?thesis using assms(2) wg_done i pos by (auto simp: control_ok_def)
next
  case close
  then show ?thesis using assms(2) by (auto simp: control_ok_def)
next
  case (receive gid res results)
  then show ?thesis using assms(2) handle_results_frame(2) [of cl "[(gid, res)]" "pl_coll s"]
    by (auto simp: control_ok_def simp del: handle_results.simps)
next
  case finish
  then show ?thesis using assms(2) by (auto simp: control_ok_def)
qed


section \<open>Progress\<close>

lemma evaluatePartition_Ret:
  "0 \<le> cfg_WindowSize (co_config c) \<Longrightarrow>
     \<exists>res c'. evaluatePartition hook invalid cl gid tpo reply now c = Ret (res, c')"
  by (simp add: evaluatePartition_def Let_def addToWindow_Ret split: sum.split)

lemma started_goroutine_steps:
  assumes "control_ok (length gids) s" and "0 \<le> cfg_WindowSize (co_config (pl_coll s))"
    and "pl_phase s i \<noteq> NotStarted" and "pl_phase s i \<noteq> Finished"
  shows "\<exists>s'. pool_step hook env cl gids mc s s'"
proof -
  let ?n = "length gids"
  have i: "i < ?n" using assms(1,3) by (simp add: control_ok_def)
  have open_wg: "0 < pl_wg s"
    using how_many_pos [OF i, of unfinished "pl_phase s"] assms(1,3,4)
    by (cases "pl_phase s i") (auto simp: control_ok_def)
  show ?thesis
  proof (cases "pl_phase s i")
    case Fetch
    then show ?thesis by (cases "ke_Offsets env i") (blast intro: pool_step.fetch pool_step.fetch_error)+
  next
    case (Loop j tpos gs t)
    then show ?thesis using evaluatePartition_Ret [OF assms(2)]
      by (cases tpos) (blast intro: pool_step.compute pool_step.evaluate)+
  next
    case (Ready res)
    have "length (pl_results s) < ?n"
      using how_many_less [OF i, of has_sent "pl_phase s"] Ready assms(1) by (simp add: control_ok_def)
    moreover have "\<not> pl_closed s" using open_wg assms(1) by (auto simp: control_ok_def)
    ultimately show ?thesis using Ready by (blast intro: pool_step.send)
  next
    case Sent
    then have "0 < pl_sem s"
      using how_many_pos [OF i, of holds_slot "pl_phase s"] assms(1) by (simp add: control_ok_def)
    then show ?thesis using Sent by (blast intro: pool_step.release)
  qed (use assms(3,4) open_wg in \<open>blast intro: pool_step.observe pool_step.wg_done\<close>)+
qed

lemma pool_progress:
  assumes "control_ok (length gids) s" and "0 \<le> cfg_WindowSize (co_config (pl_coll s))"
    and "0 < cfg_MaxConcurrency (co_config (pl_coll s))" and "\<not> pl_finished s"
  shows "\<exists>s'. pool_step hook env cl gids mc s s'"
proof (cases "\<exists>i. pl_phase s i \<noteq> NotStarted \<and> pl_phase s i \<noteq> Finished")
  case True
  then show ?thesis using started_goroutine_steps [OF assms(1,2)] by blast
next
  case False
  have "pl_phase s k = NotStarted \<or> pl_phase s k = Finished" for k using False by blast
  then have idle: "\<not> holds_slot (pl_phase s k) \<and> \<not> unfinished (pl_phase s k)" for k
    by (metis holds_slot.simps(1,3) unfinished.simps(1,2))
  have sem: "pl_sem s = 0" and wg: "pl_wg s = (if pl_added s then 1 else 0)"
    using assms(1) idle how_many_zero_iff [of "length gids" holds_slot "pl_phase s"]
      how_many_zero_iff [of "length gids" unfinished "pl_phase s"] by (simp_all add: control_ok_def)
  show ?thesis
  proof (cases "pl_todo s")
    case (Cons i todo)
    show ?thesis
    proof (cases "pl_added s")
      case True
      with Cons sem assms(3) show ?thesis by (intro exI) (rule pool_step.launch, simp_all)
    next
      case False
      with Cons show ?thesis by (intro exI) (rule pool_step.add, simp_all)
    qed
  next
    case Nil
    then have wg0: "pl_wg s = 0" using wg assms(1) by (simp add: control_ok_def)
    show ?thesis
    proof (cases "pl_closed s")
      case False
      with Nil wg0 show ?thesis by (intro exI) (rule pool_step.close, simp_all)
    next
      case True
      show ?thesis
      proof (cases "pl_results s")
        case Nil
        with \<open>pl_todo s = []\<close> True assms(4) show ?thesis by (intro exI) (rule pool_step.finish, simp_all)
      next
        case (Cons r rs)
        with Nil show ?thesis by (cases r) (blast intro: pool_step.receive)
      qed
    qed
  qed
qed

section \<open>Termination\<close>

fun weight :: "kafka_env \<Rightarrow> nat \<Rightarrow> phase \<Rightarrow> nat" where
  "weight env i NotStarted = 9 + (case ke_Offsets env i of Inl e \<Rightarrow> 0 | Inr offs \<Rightarrow> length offs)"
| "weight env i Fetch = 7 + (case ke_Offsets env i of Inl e \<Rightarrow> 0 | Inr offs \<Rightarrow> length offs)"
| "weight env i (Loop j tpos gs t) = 6 + length tpos"
| "weight env i (Computed res) = 5"
| "weight env i (Ready res) = 4"
| "weight env i Sent = 2"
| "weight env i Released = 1"
| "weight env i Finished = 0"

definition remaining :: "kafka_env \<Rightarrow> nat \<Rightarrow> 'h pool \<Rightarrow> nat" where
  "remaining env n s = (\<Sum>k<n. weight env k (pl_phase s k)) + length (pl_results s) +
     (if pl_added s then 0 else 1) + (if pl_closed s then 0 else 1) + (if pl_finished s then 0 else 1)"

lemma weight_upd:
  "i < n \<Longrightarrow> f i = p \<Longrightarrow> (\<Sum>k<n. weight env k ((f(i := q)) k)) + weight env i p =
     (\<Sum>k<n. weight env k (f k)) + weight env i q"
  using sum_fun_upd [of i n "weight env" f q] by simp

lemma remaining_phase:
  assumes "control_ok n s" and "pl_phase s i = p" and "p \<noteq> NotStarted" and "weight env i q < weight env i p"
  shows "(\<Sum>k<n. weight env k (((pl_phase s)(i := q)) k)) < (\<Sum>k<n. weight env k (pl_phase s k))"
    and "Suc (weight env i q) < weight env i p \<Longrightarrow>
      Suc (\<Sum>k<n. weight env k (((pl_phase s)(i := q)) k)) < (\<Sum>k<n. weight env k (pl_phase s k))"
proof -
  have "i < n" using assms(1-3) by (simp add: control_ok_def)
  from weight_upd [where f = "pl_phase s" and env = env and q = q, OF this assms(2)] assms(4)
  show "(\<Sum>k<n. weight env k (((pl_phase s)(i := q)) k)) < (\<Sum>k<n. weight env k (pl_phase s k))"
    and "Suc (weight env i q) < weight env i p \<Longrightarrow>
      Suc (\<Sum>k<n. weight env k (((pl_phase s)(i := q)) k)) < (\<Sum>k<n. weight env k (pl_phase s k))"
    by linarith+
qed

lemma remaining_decreases:
  assumes "pool_step hook env cl gids mc s s'" and "control_ok (length gids) s"
  shows "remaining env (length gids) s' < remaining env (length gids) s"
  using assms
proof cases
  case (launch i todo)
  have i: "i < length gids" "pl_phase s i = NotStarted"
    using assms(2) launch(2) unfolding control_ok_def by auto
  then show ?thesis unfolding launch(1) remaining_def
    using weight_upd [where f = "pl_phase s" and env = env and q = Fetch, OF i] launch(3)
    by (simp del: fun_upd_apply)
next
  case (fetch_error i e)
  then show ?thesis using remaining_phase(1) [OF assms(2) fetch_error(2)]
    by (simp add: remaining_def del: fun_upd_apply)
next
  case (fetch i offs)
  then show ?thesis using remaining_phase(1) [OF assms(2) fetch(2)]
    by (simp add: remaining_def del: fun_upd_apply)
next
  case (evaluate i j tpo tpos gs totalLag res c')
  then show ?thesis using remaining_phase(1) [OF assms(2) evaluate(2)]
    by (simp add: remaining_def after_partition_def del: fun_upd_apply split: sum.split)
next
  case (compute i j gs totalLag)
  then show ?thesis using remaining_phase(1) [OF assms(2) compute(2)]
    by (simp add: remaining_def del: fun_upd_apply)
next
  case (observe i res)
  then show ?thesis using remaining_phase(1) [OF assms(2) observe(2)]
    by (simp add: remaining_def del: fun_upd_apply)
next
  case (send i res)
  then show ?thesis using remaining_phase(2) [OF assms(2) send(2), of env Sent]
    by (simp add: remaining_def del: fun_upd_apply)
next
  case (release i)
  then show ?thesis using remaining_phase(1) [OF assms(2) release(2)]
    by (simp add: remaining_def del: fun_upd_apply)
next
  case (wg_done i)
  then show ?thesis using remaining_phase(1) [OF assms(2) wg_done(2)]
    by (simp add: remaining_def del: fun_upd_apply)
qed (auto simp: remaining_def)


section \<open>The data of the goroutines\<close>

text \<open>What a goroutine still has to deliver, if it ran alone from here on.\<close>

fun future ::
  "Config \<Rightarrow> kafka_env \<Rightarrow> string \<Rightarrow> string \<Rightarrow> int \<Rightarrow> nat \<Rightarrow> phase \<Rightarrow> windows \<Rightarrow> GroupStatus result option" where
  "future cfg env cl gid m i (Loop j tpos gs t) ws =
     (let sts = fst (evaluated cfg env gid i j tpos ws)
      in Some (Inr (group_end (tally sts gs) (total_lag sts t))))"
| "future cfg env cl gid m i (Computed res) ws = Some res"
| "future cfg env cl gid m i (Ready res) ws = Some res"
| "future cfg env cl gid m i NotStarted ws = Some (fst (group_result cfg env cl i gid m ws))"
| "future cfg env cl gid m i Fetch ws = Some (fst (group_result cfg env cl i gid m ws))"
| "future cfg env cl gid m i _ ws = None"

fun topics_free :: "phase \<Rightarrow> bool" where
  "topics_free (Loop j tpos gs t) = (\<forall>tpo \<in> set tpos. CHR '':'' \<notin> set (tp_Topic tpo))"
| "topics_free _ = True"

lemma future_agree:
  assumes "windows_ok cfg ws" and "windows_ok cfg ws'" and "agree_on gid ws ws'"
    and "topics_ok env" and "topics_free p"
  shows "future cfg env cl gid m i p ws = future cfg env cl gid m i p ws'"
proof (cases p)
  case (Loop j tpos gs t)
  then show ?thesis using evaluated_own [OF assms(1-3), of tpos env i j] assms(5) by simp
qed (use group_result_own [OF assms(1-4)] in simp_all)

lemma evaluate_one:
  assumes "windows_ok (co_config c) (co_windows c)"
    and "evaluatePartition hook (ke_OffsetInvalid env) cl gid tpo (ke_HighWatermark env i j) (ke_Now env i j) c = Ret (res, c')"
  shows "same_frame c c' \<and> windows_ok (co_config c) (co_windows c') \<and>
    fst (evaluated (co_config c) env gid i j (tpo # tpos) (co_windows c)) =
      (case res of Inl e \<Rightarrow> [] | Inr st \<Rightarrow> [st]) @ fst (evaluated (co_config c) env gid i (Suc j) tpos (co_windows c')) \<and>
    (CHR '':'' \<notin> set (tp_Topic tpo) \<longrightarrow> (\<forall>g. g \<noteq> gid \<longrightarrow> agree_on g (co_windows c) (co_windows c')))"
proof (cases "ke_HighWatermark env i j")
  case (Inl e)
  then show ?thesis using assms by (auto simp: evaluatePartition_def)
next
  case (Inr hw)
  show ?thesis
  proof (cases "tp_Offset tpo = ke_OffsetInvalid env")
    case True
    then show ?thesis using assms Inr
      by (auto simp: evaluatePartition_def no_offset_status_def [symmetric] split_def Let_def)
  next
    case False
    define ws where "ws = add_window (co_config c) (co_windows c) (windowKey gid (tp_Topic tpo) (tp_Partition tpo))
      (check_record hw (tp_Offset tpo) (ke_Now env i j))"
    define st where "st = EvaluatePartitionConsumer (co_config c)
      (getWindowRecords ws (windowKey gid (tp_Topic tpo) (tp_Partition tpo))) gid (tp_Topic tpo) (tp_Partition tpo)"
    have size: "0 \<le> cfg_WindowSize (co_config c)" using assms(1) by (simp add: windows_ok_def)
    have res: "res = Inr st" and c': "same_frame c c'" "co_windows c' = ws"
      using assms(2) Inr False size
      by (auto simp: evaluatePartition_def Let_def check_record_def [symmetric] addToWindow_Ret
          ws_def [symmetric] st_def [symmetric] updatePartitionMetricsWithCluster_def same_frame_def)
    have "fst (evaluated (co_config c) env gid i j (tpo # tpos) (co_windows c)) =
        st # fst (evaluated (co_config c) env gid i (Suc j) tpos ws)"
      using Inr False by (simp add: Let_def split_def ws_def [symmetric] st_def [symmetric])
    moreover have "windows_ok (co_config c) ws" unfolding ws_def using assms(1) by (rule windows_ok_add)
    moreover have "agree_on g (co_windows c) ws" if "CHR '':'' \<notin> set (tp_Topic tpo)" "g \<noteq> gid" for g
      unfolding ws_def using assms(1) that by (auto simp: agree_on_def windows.get_add_other windowKey_inj)
    ultimately show ?thesis using c' by (simp add: res)
  qed
qed

text \<open>\<open>planned\<close>: what goroutine \<open>i\<close> computes on the windows at the start.\<close>

definition planned ::
  "'h Collector \<Rightarrow> kafka_env \<Rightarrow> string \<Rightarrow> string list \<Rightarrow> (string \<times> int) list \<Rightarrow> nat \<Rightarrow> GroupStatus result" where
  "planned c env cl gids mc i = fst (result_of (co_config c) env cl gids mc (co_windows c) i)"

definition future_ok ::
  "'h Collector \<Rightarrow> kafka_env \<Rightarrow> string \<Rightarrow> string list \<Rightarrow> (string \<times> int) list \<Rightarrow> 'h pool \<Rightarrow> nat \<Rightarrow> bool" where
  "future_ok c env cl gids mc s i \<longleftrightarrow> topics_free (pl_phase s i) \<and> (\<not> has_sent (pl_phase s i) \<longrightarrow>
     future (co_config c) env cl (gids ! i) (member_count mc (gids ! i)) i (pl_phase s i) (co_windows (pl_coll s)) =
       Some (planned c env cl gids mc i))"

definition store_ok ::
  "'h Collector \<Rightarrow> kafka_env \<Rightarrow> string \<Rightarrow> string list \<Rightarrow> (string \<times> int) list \<Rightarrow> 'h pool \<Rightarrow> nat \<Rightarrow> bool" where
  "store_ok c env cl gids mc s i \<longleftrightarrow>
     (if map_of (pl_results s) (gids ! i) = None
      then GetGroupStatus (pl_coll s) (gids ! i) =
        (if has_sent (pl_phase s i) then keep_ok (Some (planned c env cl gids mc i)) (GetGroupStatus c (gids ! i))
         else GetGroupStatus c (gids ! i))
      else has_sent (pl_phase s i) \<and> map_of (pl_results s) (gids ! i) = Some (planned c env cl gids mc i) \<and>
        GetGroupStatus (pl_coll s) (gids ! i) = GetGroupStatus c (gids ! i))"

definition data_ok ::
  "'h Collector \<Rightarrow> kafka_env \<Rightarrow> string \<Rightarrow> string list \<Rightarrow> (string \<times> int) list \<Rightarrow> 'h pool \<Rightarrow> bool" where
  "data_ok c env cl gids mc s \<longleftrightarrow>
     co_config (pl_coll s) = co_config c \<and> windows_ok (co_config c) (co_windows (pl_coll s)) \<and>
     (\<forall>i<length gids. future_ok c env cl gids mc s i \<and> store_ok c env cl gids mc s i) \<and>
     distinct (map fst (pl_results s)) \<and> fst ` set (pl_results s) \<subseteq> set gids \<and>
     (\<forall>g. g \<notin> set gids \<longrightarrow> GetGroupStatus (pl_coll s) g = GetGroupStatus c g)"

lemma data_start:
  assumes "windows_ok (co_config c) (co_windows c)"
  shows "data_ok c env cl gids mc (pool_start gids c)"
  using assms
  by (simp add: data_ok_def pool_start_def future_ok_def store_ok_def planned_def result_of_def GetGroupStatus_def)

text \<open>A step of one goroutine before its result is sent.\<close>

lemma data_local:
  assumes "data_ok c env cl gids mc s" and "distinct gids" and "topics_ok env" and "i < length gids"
    and "pl_phase s i = p" and "pl_phase s' = (pl_phase s)(i := q)" and "pl_results s' = pl_results s"
    and "same_frame (pl_coll s) (pl_coll s')" and "windows_ok (co_config c) (co_windows (pl_coll s'))"
    and "\<And>g. g \<noteq> gids ! i \<Longrightarrow> agree_on g (co_windows (pl_coll s)) (co_windows (pl_coll s'))"
    and "topics_free q" and "\<not> has_sent p" and "\<not> has_sent q"
    and "future (co_config c) env cl (gids ! i) (member_count mc (gids ! i)) i q (co_windows (pl_coll s')) =
      future (co_config c) env cl (gids ! i) (member_count mc (gids ! i)) i p (co_windows (pl_coll s))"
  shows "data_ok c env cl gids mc s'"
proof -
  have store: "GetGroupStatus (pl_coll s') g = GetGroupStatus (pl_coll s) g" for g
    using assms(8) by (simp add: GetGroupStatus_def same_frame_def)
  have "future_ok c env cl gids mc s' k" if k: "k < length gids" for k
  proof (cases "k = i")
    case True
    have "future_ok c env cl gids mc s i" using assms(1,4) by (simp add: data_ok_def)
    then show ?thesis using True assms(5,6,11-14) by (simp add: future_ok_def)
  next
    case False
    then have "gids ! k \<noteq> gids ! i" using assms(2,4) k by (simp add: nth_eq_iff_index_eq)
    moreover have "windows_ok (co_config c) (co_windows (pl_coll s))" "future_ok c env cl gids mc s k"
      using assms(1) k by (simp_all add: data_ok_def)
    ultimately show ?thesis using False assms(6)
        future_agree [OF _ assms(9) assms(10) assms(3), of "gids ! k" "pl_phase s k" cl "member_count mc (gids ! k)" k]
      by (simp add: future_ok_def)
  qed
  moreover have "store_ok c env cl gids mc s' k" if k: "k < length gids" for k
  proof -
    have "has_sent (pl_phase s' k) = has_sent (pl_phase s k)" using assms(5,6,12,13) by simp
    moreover have "store_ok c env cl gids mc s k" using assms(1) k by (simp add: data_ok_def)
    ultimately show ?thesis unfolding store_ok_def by (simp only: store assms(7))
  qed
  ultimately show ?thesis using assms(1,7,8,9) unfolding data_ok_def by (simp add: store same_frame_def)
qed

lemma data_step:
  assumes "pool_step hook env cl gids mc s s'" and "data_ok c env cl gids mc s"
    and "control_ok (length gids) s" and "distinct gids" and "topics_ok env"
  shows "data_ok c env cl gids mc s'"
proof -
  have ok: "co_config (pl_coll s) = co_config c" "windows_ok (co_config c) (co_windows (pl_coll s))"
    using assms(2) by (simp_all add: data_ok_def)
  have started: "i < length gids" if "pl_phase s i \<noteq> NotStarted" for i
    using that assms(3) by (simp add: control_ok_def)
  note local = data_local [OF assms(2,4,5)]
  from assms(1) show ?thesis
  proof cases
    case add
    then show ?thesis using assms(2) by (simp add: data_ok_def future_ok_def store_ok_def)
  next
    case close
    then show ?thesis using assms(2) by (simp add: data_ok_def future_ok_def store_ok_def)
  next
    case finish
    then show ?thesis using assms(2) by (simp add: data_ok_def future_ok_def store_ok_def)
  next
    case (launch i todo)
    then have "i < length gids" "pl_phase s i = NotStarted" using assms(3) unfolding control_ok_def by auto
    then show ?thesis using ok by (intro local [of i NotStarted s' Fetch]) (simp_all add: launch(1))
  next
    case (fetch_error i e)
    then show ?thesis using ok started [of i]
      by (intro local [of i Fetch s' "pl_phase s' i"]) (simp_all add: group_result_def)
  next
    case (fetch i offs)
    then show ?thesis using ok started [of i] assms(5)
      by (intro local [of i Fetch s' "pl_phase s' i"])
        (auto simp: group_result_def group_end_def group_start_def Let_def topics_ok_def)
  next
    case (evaluate i j tpo tpos gs totalLag res c')
    have i: "i < length gids" using started [of i] evaluate(2) by simp
    have "topics_free (pl_phase s i)" using assms(2) i by (simp add: data_ok_def future_ok_def)
    then have free: "\<forall>tpo \<in> set (tpo # tpos). CHR '':'' \<notin> set (tp_Topic tpo)"
      by (simp add: evaluate(2))
    show ?thesis
      using evaluate_one [of "pl_coll s" hook env cl "gids ! i" tpo i j res c' tpos] ok evaluate i free
      by (intro local [of i "Loop j (tpo # tpos) gs totalLag" s' "pl_phase s' i"])
        (auto simp: after_partition_def Let_def simp del: evaluated.simps split: sum.split)
  next
    case (compute i j gs totalLag)
    then show ?thesis using ok started [of i] by (intro local [of i "Loop j [] gs totalLag" s' "pl_phase s' i"]) simp_all
  next
    case (observe i res)
    then show ?thesis using ok started [of i] by (intro local [of i "Computed res" s' "pl_phase s' i"]) simp_all
  next
    case (send i res)
    let ?n = "length gids"
    have i: "i < ?n" using started [of i] send(2) by simp
    have sti: "store_ok c env cl gids mc s i" "future_ok c env cl gids mc s i"
      using assms(2) i by (simp_all add: data_ok_def)
    have res: "res = planned c env cl gids mc i" using sti(2) send(2) by (simp add: future_ok_def)
    have none: "map_of (pl_results s) (gids ! i) = None" and st: "GetGroupStatus (pl_coll s) (gids ! i) = GetGroupStatus c (gids ! i)"
      using sti(1) send(2) by (simp_all add: store_ok_def split: if_splits)
    have other: "gids ! k \<noteq> gids ! i" if "k < ?n" "k \<noteq> i" for k
      using that i assms(4) by (simp add: nth_eq_iff_index_eq)
    have "store_ok c env cl gids mc s' k" if k: "k < ?n" for k
    proof (cases "k = i")
      case True
      then show ?thesis using none st res send(1) by (simp add: store_ok_def map_add_def)
    next
      case False
      have "store_ok c env cl gids mc s k" using assms(2) k by (simp add: data_ok_def)
      then show ?thesis using other [OF k False] False send(1) unfolding store_ok_def
        by (simp add: map_add_def split: option.split)
    qed
    moreover have "future_ok c env cl gids mc s' k" if k: "k < ?n" for k
    proof -
      have "future_ok c env cl gids mc s k" using assms(2) k by (simp add: data_ok_def)
      then show ?thesis using send(1) by (simp add: future_ok_def)
    qed
    moreover have "gids ! i \<notin> fst ` set (pl_results s)" using none by (simp add: map_of_eq_None_iff)
    ultimately show ?thesis using assms(2) send(1) i by (simp add: data_ok_def)
  next
    case (release i)
    then show ?thesis using assms(2) by (auto simp: data_ok_def future_ok_def store_ok_def)
  next
    case (wg_done i)
    then show ?thesis using assms(2) by (auto simp: data_ok_def future_ok_def store_ok_def)
  next
    case (receive gid res results)
    have dist: "distinct (map fst (pl_results s))" and sub: "fst ` set (pl_results s) \<subseteq> set gids"
      using assms(2) by (simp_all add: data_ok_def)
    have fresh: "map_of results gid = None" and gid: "gid \<in> set gids"
      using dist sub receive(3) by (simp_all add: map_of_eq_None_iff)
    have store: "GetGroupStatus (pl_coll s') g =
        keep_ok (if g = gid then Some res else None) (GetGroupStatus (pl_coll s) g)" for g
      using handle_results_store [of "[(gid, res)]" cl "pl_coll s" g] receive(1)
      by (simp add: GetGroupStatus_def del: handle_results.simps)
    have proj: "pl_phase s' = pl_phase s" "pl_results s' = results" using receive(1) by simp_all
    have "store_ok c env cl gids mc s' k" if k: "k < length gids" for k
    proof -
      have "store_ok c env cl gids mc s k" using assms(2) k by (simp add: data_ok_def)
      then show ?thesis using receive(3) fresh unfolding store_ok_def proj store
        by (auto simp: keep_ok_def split: if_splits sum.split)
    qed
    moreover have "future_ok c env cl gids mc s' k" if k: "k < length gids" for k
    proof -
      have "future_ok c env cl gids mc s k" using assms(2) k by (simp add: data_ok_def)
      then show ?thesis using receive(1) by (simp add: future_ok_def del: handle_results.simps)
    qed
    moreover have "GetGroupStatus (pl_coll s') g = GetGroupStatus c g" if "g \<notin> set gids" for g
    proof -
      have "g \<noteq> gid" using gid that by blast
      then show ?thesis using store [of g] assms(2) that by (simp add: keep_ok_def data_ok_def)
    qed
    ultimately show ?thesis using assms(2) receive(1,3) by (simp add: data_ok_def del: handle_results.simps)
  qed
qed


section \<open>Reachable states\<close>

lemma pool_reach_ok:
  assumes "rtranclp (pool_step hook env cl gids mc) (pool_start gids c) s"
    and "windows_ok (co_config c) (co_windows c)" and "distinct gids" and "topics_ok env"
  shows "control_ok (length gids) s \<and> data_ok c env cl gids mc s"
  using assms(1)
proof (induction rule: rtranclp_induct)
  case base
  show ?case using control_start data_start [OF assms(2)] by blast
next
  case (step s s')
  then show ?case using control_step data_step assms(3,4) by blast
qed

lemma finished_store:
  assumes "control_ok (length gids) s" and "data_ok c env cl gids mc s" and "pl_finished s"
  shows "\<forall>i<length gids. GetGroupStatus (pl_coll s) (gids ! i) =
    keep_ok (Some (planned c env cl gids mc i)) (GetGroupStatus c (gids ! i))"
proof (intro allI impI)
  fix i assume i: "i < length gids"
  have fin: "pl_todo s = []" "pl_wg s = 0" "pl_results s = []" using assms(1,3) by (auto simp: control_ok_def)
  have "how_many (length gids) unfinished (pl_phase s) = 0" using fin assms(1) by (simp add: control_ok_def)
  then have "\<not> unfinished (pl_phase s i)" using i by (simp add: how_many_zero_iff)
  moreover have "pl_phase s i \<noteq> NotStarted" using fin(1) i assms(1) by (auto simp: control_ok_def)
  ultimately have "has_sent (pl_phase s i)" by (cases "pl_phase s i") simp_all
  then show "GetGroupStatus (pl_coll s) (gids ! i) =
      keep_ok (Some (planned c env cl gids mc i)) (GetGroupStatus c (gids ! i))"
    using assms(2) i fin(3) by (simp add: data_ok_def store_ok_def)
qed

lemma zero_pool_stuck:
  assumes "rtranclp (pool_step hook env cl gids mc) (pool_start gids c) s"
    and "cfg_MaxConcurrency (co_config c) \<le> 0" and "gids \<noteq> []"
  shows "pl_todo s = [0..<length gids] \<and> (\<forall>i. pl_phase s i = NotStarted) \<and> pl_results s = [] \<and>
    \<not> pl_finished s \<and> co_config (pl_coll s) = co_config c"
  using assms(1)
proof (induction rule: rtranclp_induct)
  case base
  then show ?case by (simp add: pool_start_def)
next
  case (step s s')
  have ne: "pl_todo s \<noteq> []" using step.IH assms(3) by simp
  from step.hyps(2) step.IH ne assms(2) show ?case by cases auto
qed


section \<open>Properties\<close>

lemma reach_config:
  assumes "rtranclp (pool_step hook env cl gids mc) (pool_start gids c) s"
  shows "control_ok (length gids) s \<and> co_config (pl_coll s) = co_config c"
  using assms
proof (induction rule: rtranclp_induct)
  case base
  then show ?case by (simp add: control_start) (simp add: pool_start_def)
next
  case (step s s')
  have "co_config (pl_coll s') = co_config (pl_coll s)"
    using step.hyps(2) by cases
      (auto simp: evaluatePartition_config handle_results_frame(2) simp del: handle_results.simps)
  then show ?case using control_step [OF step.hyps(2)] step.IH by simp
qed

lemma run_bounded:
  "(pool_step hook env cl gids mc ^^ k) s s' \<Longrightarrow> control_ok (length gids) s \<Longrightarrow>
     remaining env (length gids) s' + k \<le> remaining env (length gids) s"
proof (induction k arbitrary: s')
  case (Suc k)
  then obtain s1 where s1: "(pool_step hook env cl gids mc ^^ k) s s1" "pool_step hook env cl gids mc s1 s'"
    by auto
  have "control_ok (length gids) s1"
    using s1(1) Suc.prems(2) by (induction k arbitrary: s1) (auto intro: control_step)
  then show ?case using Suc.IH [OF s1(1) Suc.prems(2)] remaining_decreases [OF s1(2)] by simp
qed simp

lemma reaches_finish:
  assumes "control_ok (length gids) s" and "0 \<le> cfg_WindowSize (co_config (pl_coll s))"
    and "0 < cfg_MaxConcurrency (co_config (pl_coll s))"
  shows "\<exists>s'. rtranclp (pool_step hook env cl gids mc) s s' \<and> pl_finished s'"
  using assms
proof (induction "remaining env (length gids) s" arbitrary: s rule: less_induct)
  case less
  show ?case
  proof (cases "pl_finished s")
    case False
    then obtain s1 where s1: "pool_step hook env cl gids mc s s1"
      using pool_progress less.prems by blast
    have "co_config (pl_coll s1) = co_config (pl_coll s)"
      using s1 by cases
        (auto simp: evaluatePartition_config handle_results_frame(2) simp del: handle_results.simps)
    then obtain s' where "rtranclp (pool_step hook env cl gids mc) s1 s'" "pl_finished s'"
      using less.hyps [OF remaining_decreases [OF s1 less.prems(1)] control_step [OF s1 less.prems(1)]] less.prems
      by auto
    then show ?thesis using s1 by (blast intro: converse_rtranclp_into_rtranclp)
  qed blast
qed

text \<open>C17: At every point of a round at most MaxConcurrency goroutines hold a slot of the semaphore;
  a goroutine with a result finds the results channel open and with room, so that no send blocks or
  panics; a goroutine that gives its slot back finds one to take, and the wait group never goes
  below zero.\<close>

theorem pool_is_safe:
  assumes "rtranclp (pool_step hook env cl gids mc) (pool_start gids c) s"
  shows "int (how_many (length gids) holds_slot (pl_phase s)) \<le> max 0 (cfg_MaxConcurrency (co_config c)) \<and>
    (\<forall>i. (\<exists>res. pl_phase s i = Ready res) \<longrightarrow> \<not> pl_closed s \<and> length (pl_results s) < length gids) \<and>
    (\<forall>i. pl_phase s i = Sent \<longrightarrow> 0 < pl_sem s) \<and> (\<forall>i. pl_phase s i = Released \<longrightarrow> 0 < pl_wg s)"
proof -
  let ?n = "length gids"
  have ok: "control_ok ?n s" "co_config (pl_coll s) = co_config c" using reach_config [OF assms] by blast+
  have started: "i < ?n" if "pl_phase s i \<noteq> NotStarted" for i using that ok(1) by (simp add: control_ok_def)
  have wg: "0 < pl_wg s" if "unfinished (pl_phase s i)" for i
  proof -
    have "i < ?n" using started [of i] that by (cases "pl_phase s i") simp_all
    then show ?thesis using how_many_pos [of i ?n unfinished "pl_phase s"] that ok(1) by (simp add: control_ok_def)
  qed
  have ready: "\<not> pl_closed s \<and> length (pl_results s) < ?n" if "pl_phase s i = Ready res" for i res
    using how_many_less [OF started, of i has_sent "pl_phase s"] wg [of i] that ok(1)
    by (simp add: control_ok_def)
  have sent: "0 < pl_sem s" if "pl_phase s i = Sent" for i
    using how_many_pos [OF started, of i holds_slot "pl_phase s"] that ok(1) by (simp add: control_ok_def)
  have released: "0 < pl_wg s" if "pl_phase s i = Released" for i using wg [of i] that by simp
  have "int (how_many ?n holds_slot (pl_phase s)) \<le> max 0 (cfg_MaxConcurrency (co_config c))"
    using ok by (simp add: control_ok_def)
  then show ?thesis using ready sent released by blast
qed

theorem pool_is_safe_witness:
  "\<exists>s. pool_step None sample_env ''c1'' [''g'', ''h''] [] (pool_start [''g'', ''h''] sample_collector) s \<and>
     int (how_many (length [''g'', ''h'']) holds_slot (pl_phase s)) \<le> 10"
proof -
  let ?start = "pool_start [''g'', ''h''] sample_collector"
  let ?s = "?start\<lparr>pl_added := True, pl_wg := pl_wg ?start + 1\<rparr>"
  have step: "pool_step None sample_env ''c1'' [''g'', ''h''] [] ?start ?s"
    by (rule pool_step.add) (simp_all add: pool_start_def)
  show ?thesis using step pool_is_safe [OF r_into_rtranclp [where r = "pool_step _ _ _ _ _", OF step]]
    by (intro exI [of _ ?s] conjI) (simp_all del: list.size add: list.size(4))
qed

text \<open>C3: A round always ends when MaxConcurrency is positive: no run has more than 9 steps per group,
  one per partition and 3 more, and a run that cannot go on has drained the results channel and left
  the loop. There is no deadlock between the semaphore, the results channel and the wait group.\<close>

theorem pool_terminates:
  assumes "0 < cfg_MaxConcurrency (co_config c)" and "0 \<le> cfg_WindowSize (co_config c)"
  shows "((pool_step hook env cl gids mc ^^ k) (pool_start gids c) s \<longrightarrow>
      k \<le> (\<Sum>i<length gids. 9 + (case ke_Offsets env i of Inl e \<Rightarrow> 0 | Inr offs \<Rightarrow> length offs)) + 3) \<and>
    (rtranclp (pool_step hook env cl gids mc) (pool_start gids c) s \<longrightarrow>
      (\<exists>s'. pool_step hook env cl gids mc s s') \<or> pl_finished s)"
proof -
  have "remaining env (length gids) (pool_start gids c) =
      (\<Sum>i<length gids. 9 + (case ke_Offsets env i of Inl e \<Rightarrow> 0 | Inr offs \<Rightarrow> length offs)) + 3"
    by (simp add: remaining_def pool_start_def)
  moreover have "(\<exists>s'. pool_step hook env cl gids mc s s') \<or> pl_finished s"
    if "rtranclp (pool_step hook env cl gids mc) (pool_start gids c) s"
    using reach_config [OF that] pool_progress [of gids s hook env cl mc] assms by auto
  ultimately show ?thesis using run_bounded [of k hook env cl gids mc "pool_start gids c" s] control_start [of gids c]
    by force
qed

theorem pool_terminates_witness:
  "\<forall>k s. \<not> ((pool_step None sample_env ''c1'' [''g'', ''h''] [] ^^ k)
     (pool_start [''g'', ''h''] sample_collector) s \<and> 24 < k)"
proof (intro allI)
  fix k s
  have bound: "(\<Sum>i<length [''g'', ''h'']. 9 + (case ke_Offsets sample_env i of Inl e \<Rightarrow> 0 | Inr offs \<Rightarrow> length offs)) + 3 = 24"
    by (simp add: sample_env_def)
  show "\<not> ((pool_step None sample_env ''c1'' [''g'', ''h''] [] ^^ k)
      (pool_start [''g'', ''h''] sample_collector) s \<and> 24 < k)"
    using pool_terminates [of sample_collector, where hook = None and env = sample_env and cl = "''c1''"
      and gids = "[''g'', ''h'']" and mc = "[]" and k = k and s = s] unfolding bound by auto
qed

text \<open>C2: However the calls of the goroutines interleave, a round that ends leaves the status store
  as \<open>CollectMetricsWithCluster\<close> leaves it when the goroutines run one after the other in any
  order: the model of a round by a schedule loses no behaviour.\<close>

theorem pool_refines_schedule:
  assumes "windows_ok (co_config c) (co_windows c)" and "topics_ok env"
    and "ke_Groups env = Inr gids" and "distinct gids" and "0 < cfg_MaxConcurrency (co_config c)"
    and "schedule gids order"
    and "rtranclp (pool_step hook env cl gids (case ke_Members env of Inl e \<Rightarrow> [] | Inr m \<Rightarrow> m)) (pool_start gids c) s"
    and "pl_finished s"
  shows "\<exists>c'. CollectMetricsWithCluster hook env cl order c = Ret (Inr (), c') \<and>
    (\<forall>g. GetGroupStatus (pl_coll s) g = GetGroupStatus c' g)"
proof -
  let ?mc = "case ke_Members env of Inl e \<Rightarrow> [] | Inr m \<Rightarrow> m"
  obtain c' where c': "CollectMetricsWithCluster hook env cl order c = Ret (Inr (), c')"
      "\<forall>i < length gids. GetGroupStatus c' (gids ! i) =
        keep_ok (alone hook env cl i (gids ! i) c) (GetGroupStatus c (gids ! i))"
      "\<forall>g. g \<notin> set gids \<longrightarrow> GetGroupStatus c' g = GetGroupStatus c g"
    using round_eq [OF assms(1-6)] by blast
  have ok: "control_ok (length gids) s" "data_ok c env cl gids ?mc s"
    using pool_reach_ok [OF assms(7,1,4,2)] by blast+
  have "alone hook env cl i (gids ! i) c = Some (planned c env cl gids ?mc i)" for i
    using alone_eq [of c hook env cl i "gids ! i"] assms(1)
    by (simp add: planned_def result_of_def windows_ok_def)
  then have listed: "GetGroupStatus (pl_coll s) (gids ! i) = GetGroupStatus c' (gids ! i)" if "i < length gids" for i
    using finished_store [OF ok assms(8)] c'(2) that by simp
  have "GetGroupStatus (pl_coll s) g = GetGroupStatus c' g" for g
  proof (cases "g \<in> set gids")
    case True
    then show ?thesis using listed by (auto simp: in_set_conv_nth)
  next
    case False
    then show ?thesis using ok(2) c'(3) by (simp add: data_ok_def)
  qed
  then show ?thesis using c'(1) by blast
qed

theorem pool_refines_schedule_witness:
  "\<exists>s c'. rtranclp (pool_step None sample_env ''c1'' [''g'', ''h''] [(''g'', 2)])
       (pool_start [''g'', ''h''] sample_collector) s \<and>
     CollectMetricsWithCluster None sample_env ''c1'' [1, 0] sample_collector = Ret (Inr (), c') \<and>
     GetGroupStatus (pl_coll s) ''g'' = GetGroupStatus c' ''g''"
proof -
  let ?step = "pool_step None sample_env ''c1'' [''g'', ''h''] [(''g'', 2)]"
  let ?start = "pool_start [''g'', ''h''] sample_collector"
  have coll: "pl_coll ?start = sample_collector" by (simp add: pool_start_def)
  obtain s where s: "rtranclp ?step ?start s" "pl_finished s"
    using reaches_finish [where s = "pool_start [''g'', ''h''] sample_collector" and hook = None and env = sample_env
      and cl = "''c1''" and gids = "[''g'', ''h'']" and mc = "[(''g'', 2)]"]
      control_start [of "[''g'', ''h'']" sample_collector]
    unfolding coll by auto
  have mc: "(case ke_Members sample_env of Inl e \<Rightarrow> [] | Inr m \<Rightarrow> m) = [(''g'', 2)]" by (simp add: sample_env_def)
  have "\<exists>c'. CollectMetricsWithCluster None sample_env ''c1'' [1, 0] sample_collector = Ret (Inr (), c') \<and>
      (\<forall>g. GetGroupStatus (pl_coll s) g = GetGroupStatus c' g)"
    by (rule pool_refines_schedule [where gids = "[''g'', ''h'']", OF sample_windows_ok sample_topics_ok _ _ _ _ _ s(2)])
      (use s(1) in \<open>auto simp: mc schedule_def sample_env_def\<close>)
  then show ?thesis using s(1) by blast
qed

text \<open>C37: With MaxConcurrency 0, the zero value of the configuration, a round with a group never ends:
  no goroutine is ever started, and the launching loop waits for the semaphore forever.\<close>

theorem zero_limit_deadlocks:
  assumes "rtranclp (pool_step hook env cl gids mc) (pool_start gids c) s"
    and "cfg_MaxConcurrency (co_config c) = 0" and "gids \<noteq> []"
  shows "\<not> pl_finished s \<and> (\<forall>i. pl_phase s i = NotStarted) \<and>
    (pl_added s \<longrightarrow> \<not> (\<exists>s'. pool_step hook env cl gids mc s s'))"
proof -
  have stuck: "pl_todo s = [0..<length gids]" "\<forall>i. pl_phase s i = NotStarted" "pl_results s = []"
      "\<not> pl_finished s" "co_config (pl_coll s) = co_config c"
    using zero_pool_stuck [OF assms(1) _ assms(3)] assms(2) by auto
  have "\<not> pool_step hook env cl gids mc s s'" if "pl_added s" for s'
  proof
    assume "pool_step hook env cl gids mc s s'"
    moreover have "pl_todo s \<noteq> []" using stuck(1) assms(3) by simp
    ultimately show False using stuck(2-5) that assms(2) by cases auto
  qed
  then show ?thesis using stuck by blast
qed

theorem zero_limit_deadlocks_witness:
  "\<exists>s. pool_step None sample_env ''c1'' [''g''] []
       (pool_start [''g''] (NewWithClient (dev_config\<lparr>cfg_MaxConcurrency := 0\<rparr>) ())) s \<and>
     (\<forall>s'. \<not> pool_step None sample_env ''c1'' [''g''] [] s s')"
proof -
  let ?start = "pool_start [''g''] (NewWithClient (dev_config\<lparr>cfg_MaxConcurrency := 0\<rparr>) ())"
  let ?s = "?start\<lparr>pl_added := True, pl_wg := pl_wg ?start + 1\<rparr>"
  have step: "pool_step None sample_env ''c1'' [''g''] [] ?start ?s"
    by (rule pool_step.add) (simp_all add: pool_start_def)
  show ?thesis
    using step zero_limit_deadlocks [OF r_into_rtranclp [where r = "pool_step _ _ _ _ _", OF step]]
    by (intro exI [of _ ?s]) (simp add: NewWithClient_def)
qed

end
