(* ===== verification/Collector_Periodic.thy ===== *)
theory Collector_Periodic
  imports Collector_Round
begin

text \<open>
  The periodic collection of internal/collector/collector.go: its invariant and the cleanup of
  old windows.
\<close>

section \<open>Window keys and store keys\<close>

definition keys :: "('k \<times> 'v) list \<Rightarrow> 'k set" where
  "keys al = fst ` set al"

lemma keys_simps [simp]:
  "keys [] = {}" "keys ((k, v) # al) = insert k (keys al)"
  "keys (AList.update k v al) = insert k (keys al)"
  by (auto simp: keys_def dom_update)

lemma keys_map_of: "k \<in> keys al \<longleftrightarrow> map_of al k \<noteq> None"
  by (auto simp: keys_def map_of_eq_None_iff)

definition group_keys :: "string \<Rightarrow> string set" where
  "group_keys g = {windowKey g t p | t p. True}"

lemma keys_add_window [simp]:
  "0 \<le> cfg_WindowSize cfg \<Longrightarrow> keys (add_window cfg ws k r) = insert k (keys ws)"
  by (simp add: add_window_def addToWindow_def split: option.split)

lemma windowKey_in_group_keys [simp]: "windowKey g t p \<in> group_keys g"
  by (auto simp: group_keys_def)

lemma evaluated_keys:
  "0 \<le> cfg_WindowSize cfg \<Longrightarrow>
     keys (snd (evaluated cfg env gid i j tpos ws)) \<subseteq> keys ws \<union> group_keys gid"
proof (induction tpos arbitrary: j ws)
  case (Cons tpo tpos)
  show ?case
  proof (cases "ke_HighWatermark env i j")
    case (Inr hw)
    let ?key = "windowKey gid (tp_Topic tpo) (tp_Partition tpo)"
    let ?ws = "add_window cfg ws ?key (check_record hw (tp_Offset tpo) (ke_Now env i j))"
    show ?thesis using Inr Cons.IH [OF Cons.prems, of "Suc j" ws] Cons.IH [OF Cons.prems, of "Suc j" ?ws] Cons.prems
      by (auto simp: Let_def split_def)
  next
    case (Inl e)
    then show ?thesis using Cons.IH [OF Cons.prems, of "Suc j" ws] by simp
  qed
qed simp

text \<open>What a goroutine leaves behind: the windows it adds belong to its group, and to a group
  whose offsets could not be read it adds none.\<close>

lemma group_result_keys:
  assumes "0 \<le> cfg_WindowSize cfg"
  shows "keys (snd (group_result cfg env cl i gid mc ws)) \<subseteq>
    keys ws \<union> (case fst (group_result cfg env cl i gid mc ws) of Inl e \<Rightarrow> {} | Inr st \<Rightarrow> group_keys gid)"
  using evaluated_keys [OF assms, of env gid i 0 _ ws]
  by (simp add: group_result_def Let_def split: sum.split)

definition succeeded :: "(string \<times> GroupStatus result) list \<Rightarrow> string set" where
  "succeeded results = {g. \<exists>st. (g, Inr st) \<in> set results}"

lemma succeeded_simps [simp]:
  "succeeded [] = {}"
  "succeeded ((g, res) # results) = (case res of Inl e \<Rightarrow> {} | Inr st \<Rightarrow> {g}) \<union> succeeded results"
  by (auto simp: succeeded_def split: sum.split)

lemma run_goroutines_keys:
  assumes "0 \<le> cfg_WindowSize (co_config c)"
    and "run_goroutines hook env cl gids mc order c = Ret (results, c')"
  shows "keys (co_windows c') \<subseteq> keys (co_windows c) \<union> (\<Union>g \<in> succeeded results. group_keys g) \<and>
    same_frame c c' \<and> map fst results = map ((!) gids) order"
  using assms
proof (induction order arbitrary: c results)
  case (Cons i order)
  let ?g = "gids ! i"
  let ?R = "group_result (co_config c) env cl i ?g (member_count mc ?g) (co_windows c)"
  let ?em = "emit [MObserve CollectionDuration [cl, ?g] (dur_seconds (ke_GroupDuration env i))]"
  obtain c1 where c1: "collectGroupMetricsWithCluster hook env cl i ?g (member_count mc ?g) c = Ret (fst ?R, c1)"
      "co_windows c1 = snd ?R" "same_frame c c1"
    using collectGroup_eq [OF Cons.prems(1)] by blast
  obtain results' where r: "run_goroutines hook env cl gids mc order (?em c1) = Ret (results', c')"
      "results = (?g, fst ?R) # results'"
    using Cons.prems(2) by (auto simp: Let_def c1(1) go_bind_Ret_iff)
  have "0 \<le> cfg_WindowSize (co_config (?em c1))" using Cons.prems(1) c1(3) by (simp add: same_frame_def)
  from Cons.IH [OF this r(1)] have IH: "keys (co_windows c') \<subseteq> keys (snd ?R) \<union> (\<Union>g \<in> succeeded results'. group_keys g)"
      "same_frame (?em c1) c'" "map fst results' = map ((!) gids) order"
    by (simp_all add: c1(2))
  have "keys (snd ?R) \<subseteq> keys (co_windows c) \<union> (case fst ?R of Inl e \<Rightarrow> {} | Inr st \<Rightarrow> group_keys ?g)"
    using Cons.prems(1) by (rule group_result_keys)
  also have "\<dots> \<subseteq> keys (co_windows c) \<union> (\<Union>g \<in> succeeded results. group_keys g)"
    by (auto simp: r(2) split: sum.splits)
  finally have "keys (co_windows c') \<subseteq> keys (co_windows c) \<union> (\<Union>g \<in> succeeded results. group_keys g)"
    using IH(1) by (auto simp: r(2))
  moreover have "same_frame c c'" using c1(3) IH(2) by (simp add: same_frame_def)
  ultimately show ?case using IH(3) r(2) by simp
qed simp

lemma handle_results_keys:
  "keys (co_statusStore (handle_results cl results c)) = keys (co_statusStore c) \<union> succeeded results"
  by (induction cl results c rule: handle_results.induct)
    (auto simp: Let_def updateMetricsWithCluster_def split: sum.split)

lemma handle_results_distinct:
  "distinct (map fst (co_statusStore c)) \<Longrightarrow>
     distinct (map fst (co_statusStore (handle_results cl results c)))"
  by (induction cl results c rule: handle_results.induct)
    (auto simp: Let_def updateMetricsWithCluster_def distinct_update split: sum.split)

lemma handle_results_ready:
  "co_hasCollected (handle_results cl results c) \<longleftrightarrow> co_hasCollected c \<or> succeeded results \<noteq> {}"
  by (induction cl results c rule: handle_results.induct)
    (auto simp: Let_def updateMetricsWithCluster_def split: sum.split)

section \<open>The invariant of a collector\<close>

definition collector_ok :: "'h Collector \<Rightarrow> bool" where
  "collector_ok c \<longleftrightarrow> 0 \<le> cfg_WindowSize (co_config c) \<and>
     keys (co_windows c) \<subseteq> (\<Union>g \<in> keys (co_statusStore c). group_keys g) \<and>
     distinct (map fst (co_statusStore c)) \<and>
     (co_hasCollected c \<longleftrightarrow> keys (co_statusStore c) \<noteq> {})"

text \<open>What a state has kept of an earlier one.\<close>

definition extends :: "'h Collector \<Rightarrow> 'h Collector \<Rightarrow> bool" where
  "extends c c' \<longleftrightarrow> co_config c' = co_config c \<and> keys (co_statusStore c) \<subseteq> keys (co_statusStore c')"

lemma extends_refl [simp]: "extends c c"
  by (simp add: extends_def)

lemma extends_trans: "extends a b \<Longrightarrow> extends b c \<Longrightarrow> extends a c"
  by (auto simp: extends_def)

lemma keys_filter [simp]: "keys (filter (\<lambda>(k, w). P k) al) = {k \<in> keys al. P k}"
  by (auto simp: keys_def)

lemma collector_ok_new: "0 \<le> cfg_WindowSize cfg \<Longrightarrow> collector_ok (NewWithClient cfg h)"
  by (simp add: collector_ok_def NewWithClient_def)

lemma collector_ok_emit [simp]: "collector_ok (emit ops c) = collector_ok c"
  by (simp add: collector_ok_def)

lemma extends_emit [simp]: "extends c (emit ops c)" "extends (emit ops c) c' = extends c c'"
  by (simp_all add: extends_def)

lemma round_results_ok:
  assumes "collector_ok c" and "run_goroutines hook env cl gids mc order c = Ret (results, c')"
  shows "collector_ok (handle_results cl results c') \<and> extends c (handle_results cl results c') \<and>
    keys (co_statusStore (handle_results cl results c')) \<subseteq>
      keys (co_statusStore c) \<union> (!) gids ` set order"
proof -
  have size: "0 \<le> cfg_WindowSize (co_config c)" using assms(1) by (simp add: collector_ok_def)
  have run: "keys (co_windows c') \<subseteq> keys (co_windows c) \<union> (\<Union>g \<in> succeeded results. group_keys g)"
      "same_frame c c'" "map fst results = map ((!) gids) order"
    using run_goroutines_keys [OF size assms(2)] by blast+
  have "co_hasCollected (handle_results cl results c') \<longleftrightarrow>
      keys (co_statusStore (handle_results cl results c')) \<noteq> {}"
    using assms(1) run(2) by (auto simp: handle_results_ready handle_results_keys collector_ok_def same_frame_def)
  then have "collector_ok (handle_results cl results c')"
    using assms(1) run(1,2) handle_results_distinct [of c' cl results]
    by (auto simp: collector_ok_def same_frame_def handle_results_keys)
  moreover have "extends c (handle_results cl results c')"
    using run(2) by (auto simp: extends_def same_frame_def handle_results_keys)
  moreover have "succeeded results \<subseteq> set (map fst results)" by (force simp: succeeded_def)
  ultimately show ?thesis using run(2,3) by (auto simp: handle_results_keys same_frame_def)
qed

definition round_groups :: "kafka_env \<Rightarrow> nat list \<Rightarrow> string set" where
  "round_groups env order = (case ke_Groups env of Inl e \<Rightarrow> {} | Inr gids \<Rightarrow> (!) gids ` set order)"

lemma round_body_ok:
  assumes "collector_ok c" and "round_body hook env cl order c = Ret (res, c')"
  shows "collector_ok c' \<and> extends c c' \<and>
    keys (co_statusStore c') \<subseteq> keys (co_statusStore c) \<union> round_groups env order"
proof (cases "ke_Groups env")
  case (Inl e)
  then show ?thesis using assms by (auto simp: round_body_def)
next
  case (Inr gids)
  let ?mc = "case ke_Members env of Inl e \<Rightarrow> [] | Inr m \<Rightarrow> m"
  define c2 where "c2 = emit (map (\<lambda>(g, n). MSet ConsumerGroupMembers [cl, g] (f_of_int n)) ?mc)
    (emit [MSet ActiveConsumerGroups [cl] (f_of_int (int (length gids)))] c)"
  have c2: "collector_ok c2" "extends c c'' = extends c2 c''" "co_statusStore c2 = co_statusStore c" for c''
    using assms(1) by (simp_all add: c2_def)
  have bind: "go_bind (run_goroutines hook env cl gids ?mc order c2)
      (\<lambda>(results, c3). Ret (Inr (), handle_results cl results c3)) = Ret (res, c')"
    using assms(2) unfolding round_body_def Inr Let_def sum.case c2_def [symmetric]
    by (simp split: if_splits)
  then obtain results c3 where run: "run_goroutines hook env cl gids ?mc order c2 = Ret (results, c3)"
      "c' = handle_results cl results c3"
    by (auto simp: go_bind_Ret_iff)
  show ?thesis using round_results_ok [OF c2(1) run(1)] c2(2,3) run(2) Inr by (simp add: round_groups_def)
qed

lemma collect_ok:
  assumes "collector_ok c" and "CollectMetricsWithCluster hook env cl order c = Ret (res, c')"
  shows "collector_ok c' \<and> extends c c' \<and>
    keys (co_statusStore c') \<subseteq> keys (co_statusStore c) \<union> round_groups env order"
proof -
  obtain c1 where c1: "round_body hook env cl order c = Ret (res, c1)"
      "c' = emit [MSet ScrapeDuration [cl] (dur_seconds (ke_RoundDuration env))] c1"
    using assms(2) by (auto simp: CollectMetricsWithCluster_def go_bind_Ret_iff)
  then show ?thesis using round_body_ok [OF assms(1) c1(1)] by (simp add: extends_def)
qed

section \<open>Reading the store, and the cleanup\<close>

lemma fold_update_fresh:
  "distinct (map fst xs) \<Longrightarrow> keys acc \<inter> keys xs = {} \<Longrightarrow>
     fold (\<lambda>(k, v) result. AList.update k v result) xs acc = acc @ xs"
proof (induction xs arbitrary: acc)
  case (Cons kv xs)
  obtain k v where kv: "kv = (k, v)" by (cases kv)
  have "k \<notin> keys acc" using Cons.prems(2) by (auto simp: kv)
  then have upd: "AList.update k v acc = acc @ [(k, v)]"
    by (induction acc) (auto simp: keys_def)
  have "keys (acc @ [(k, v)]) \<inter> keys xs = {}"
    using Cons.prems by (auto simp: kv keys_def)
  then show ?case using Cons by (simp add: kv upd)
qed simp

lemma GetAll_eq: "collector_ok c \<Longrightarrow> GetAllGroupStatuses c = co_statusStore c"
  by (simp add: GetAllGroupStatuses_def collector_ok_def fold_update_fresh)

lemma windows_well_formed: "collector_ok c \<Longrightarrow> keys_well_formed (co_windows c)"
  unfolding keys_well_formed_def
proof clarify
  fix k w assume ok: "collector_ok c" and kw: "(k, w) \<in> set (co_windows c)"
  then have "k \<in> keys (co_windows c)" by (force simp: keys_def)
  then show "\<exists>g t p. k = windowKey g t p"
    using ok unfolding collector_ok_def group_keys_def by blast
qed

lemma cleanup_step_eq:
  assumes "collector_ok c"
  shows "cleanup_step c = Ret (c\<lparr>co_windows :=
    filter (\<lambda>(k, w). key_group k \<in> keys (co_statusStore c)) (co_windows c)\<rparr>)"
proof -
  define active where "active = map fst (GetAllGroupStatuses c)"
  have active: "set active = keys (co_statusStore c)"
    unfolding active_def GetAll_eq [OF assms] by (simp add: keys_def)
  have "CleanupOldWindows active (co_windows c) =
      Ret (filter (\<lambda>(k, w). key_group k \<in> keys (co_statusStore c)) (co_windows c))"
    unfolding active [symmetric] by (rule cleanup_windows [OF windows_well_formed [OF assms]])
  then show ?thesis by (simp add: cleanup_step_def active_def)
qed

lemma cleanup_step_ok:
  assumes "collector_ok c" and "cleanup_step c = Ret c'"
  shows "collector_ok c' \<and> extends c c' \<and> co_statusStore c' = co_statusStore c"
  using assms(1) cleanup_step_eq [OF assms(1)] assms(2)
  by (auto simp: collector_ok_def extends_def)

lemma cleanup_step_noop:
  assumes "collector_ok c" and "\<forall>g \<in> keys (co_statusStore c). CHR '':'' \<notin> set g"
  shows "cleanup_step c = Ret c"
proof -
  have "key_group k \<in> keys (co_statusStore c)" if kw: "(k, w) \<in> set (co_windows c)" for k w
  proof -
    have "k \<in> keys (co_windows c)" using kw by (force simp: keys_def)
    then obtain g t p where "k = windowKey g t p" "g \<in> keys (co_statusStore c)"
      using assms(1) unfolding collector_ok_def group_keys_def by blast
    then show ?thesis using assms(2) by (simp add: key_group_windowKey)
  qed
  then have "filter (\<lambda>(k, w). key_group k \<in> keys (co_statusStore c)) (co_windows c) = co_windows c"
    by (auto simp: filter_id_conv)
  then show ?thesis using cleanup_step_eq [OF assms(1)] by simp
qed

fun tick_groups :: "tick \<Rightarrow> string set" where
  "tick_groups (CollectTick env order) = round_groups env order"
| "tick_groups _ = {}"

lemma periodic_loop_ok:
  assumes "collector_ok c" and "periodic_loop hook cl ticks c = Ret c'"
  shows "collector_ok c' \<and> extends c c' \<and>
    keys (co_statusStore c') \<subseteq> keys (co_statusStore c) \<union> (\<Union>t \<in> set ticks. tick_groups t)"
  using assms
proof (induction hook cl ticks c rule: periodic_loop.induct)
  case (3 hook cl ticks c)
  then obtain c1 where "cleanup_step c = Ret c1" "periodic_loop hook cl ticks c1 = Ret c'"
    by (auto simp: go_bind_Ret_iff)
  then show ?case using 3(1) [of c1] cleanup_step_ok [OF 3(2)] by (auto intro: extends_trans)
next
  case (4 hook cl env order ticks c)
  then obtain res c1 where c1: "CollectMetricsWithCluster hook env cl order c = Ret (res, c1)"
      "periodic_loop hook cl ticks c1 = Ret c'"
    by (auto simp: go_bind_Ret_iff)
  show ?case using 4(1) [OF c1(1) refl _ c1(2)] collect_ok [OF 4(2) c1(1)]
    by (auto intro: extends_trans)
qed auto

lemma start_ok:
  assumes "0 \<le> cfg_WindowSize cfg"
    and "StartPeriodicCollection hook cl env order ticks (NewWithClient cfg h) = Ret c'"
  shows "collector_ok c' \<and> keys (co_statusStore c') \<subseteq>
    round_groups env order \<union> (\<Union>t \<in> set ticks. tick_groups t)"
proof -
  obtain res c1 where c1: "CollectMetricsWithCluster hook env cl order (NewWithClient cfg h) = Ret (res, c1)"
      "periodic_loop hook cl ticks c1 = Ret c'"
    using assms(2) by (auto simp: StartPeriodicCollection_def go_bind_Ret_iff split: if_splits)
  have "collector_ok c1" "keys (co_statusStore c1) \<subseteq> round_groups env order"
    using collect_ok [OF collector_ok_new [OF assms(1)] c1(1)] by (auto simp: NewWithClient_def)
  then show ?thesis using periodic_loop_ok [OF _ c1(2)] by blast
qed

section \<open>Properties of the periodic collection\<close>

text \<open>A collection whose second round lists no groups any more.\<close>

definition gone_env :: kafka_env where
  "gone_env = sample_env\<lparr>ke_Groups := Inr []\<rparr>"

lemma sample_round:
  "\<exists>c. CollectMetricsWithCluster None sample_env ''c1'' [1, 0] sample_collector = Ret (Inr (), c) \<and>
     co_windows c \<noteq> [] \<and> GetGroupStatus c ''g'' \<noteq> None \<and> co_config c = dev_config"
  by (simp add: CollectMetricsWithCluster_def round_body_def sample_env_def Let_def
      collectGroupMetricsWithCluster_def evaluatePartition_def zero_PartitionConsumerStatus_def
      zero_GroupStatus_def run_hook_def add_window_def addToWindow_def push_record_def
      getWindowRecords_def lag_of_def EvaluatePartitionConsumer_def GetGroupStatus_def
      updateMetricsWithCluster_def updatePartitionMetricsWithCluster_def count_partition_def
      file_partition_def)

lemma gone_round:
  assumes "co_config c = dev_config"
  shows "\<exists>c'. CollectMetricsWithCluster None gone_env ''c1'' [] c = Ret (Inr (), c') \<and>
    co_windows c' = co_windows c \<and> co_statusStore c' = co_statusStore c"
  using assms
  by (simp add: CollectMetricsWithCluster_def round_body_def gone_env_def sample_env_def Let_def)

lemma sample_start:
  "\<exists>c. StartPeriodicCollection None ''c1'' sample_env [1, 0] [CollectTick gone_env []]
       (NewWithClient dev_config ()) = Ret c \<and> co_windows c \<noteq> [] \<and> GetGroupStatus c ''g'' \<noteq> None"
proof -
  obtain c where c: "CollectMetricsWithCluster None sample_env ''c1'' [1, 0] sample_collector = Ret (Inr (), c)"
      "co_windows c \<noteq> []" "GetGroupStatus c ''g'' \<noteq> None" "co_config c = dev_config"
    using sample_round by blast
  then obtain c' where c': "CollectMetricsWithCluster None gone_env ''c1'' [] c = Ret (Inr (), c')"
      "co_windows c' = co_windows c" "co_statusStore c' = co_statusStore c"
    using gone_round by blast
  have "StartPeriodicCollection None ''c1'' sample_env [1, 0] [CollectTick gone_env []]
      (NewWithClient dev_config ()) = Ret c'"
    unfolding StartPeriodicCollection_def sample_collector_def [symmetric] c(1)
    by (simp add: c'(1) second_def)
  then show ?thesis using c c' by (simp add: GetGroupStatus_def)
qed

lemma sample_groups:
  "round_groups sample_env [1, 0] \<union> (\<Union>t \<in> set [CollectTick gone_env []]. tick_groups t) = {''g'', ''h''}"
  by (auto simp: round_groups_def gone_env_def sample_env_def)



text \<open>C25: The cleanup of old windows removes nothing: whenever the listed groups have no colon in
  their names, the groups it takes for active are those of the status store, from which no group
  is ever removed, so every window is kept, also of a group the brokers no longer list.\<close>

theorem cleanup_removes_nothing:
  assumes "0 \<le> cfg_WindowSize cfg"
    and "StartPeriodicCollection hook cl env order ticks (NewWithClient cfg h) = Ret c"
    and "\<forall>g \<in> round_groups env order \<union> (\<Union>t \<in> set ticks. tick_groups t). CHR '':'' \<notin> set g"
  shows "cleanup_step c = Ret c"
  using start_ok [OF assms(1,2)] assms(3) by (intro cleanup_step_noop) blast+

theorem cleanup_removes_nothing_witness:
  "\<exists>c. StartPeriodicCollection None ''c1'' sample_env [1, 0] [CollectTick gone_env []]
       (NewWithClient dev_config ()) = Ret c \<and> co_windows c \<noteq> [] \<and> cleanup_step c = Ret c"
proof -
  obtain c where c: "StartPeriodicCollection None ''c1'' sample_env [1, 0] [CollectTick gone_env []]
       (NewWithClient dev_config ()) = Ret c" "co_windows c \<noteq> []"
    using sample_start by blast
  have size: "0 \<le> cfg_WindowSize dev_config" by simp
  have "cleanup_step c = Ret c"
    using cleanup_removes_nothing [OF size c(1)] unfolding sample_groups by simp
  then show ?thesis using c by blast
qed

text \<open>A group once in the status store stays there through the rest of the collection.\<close>

lemma status_store_never_shrinks:
  assumes "0 \<le> cfg_WindowSize cfg"
    and "StartPeriodicCollection hook cl env order ticks (NewWithClient cfg h) = Ret c"
    and "periodic_loop hook cl ticks' c = Ret c'" and "GetGroupStatus c g = Some st"
  shows "\<exists>st'. GetGroupStatus c' g = Some st'"
proof -
  have "extends c c'" using periodic_loop_ok [OF _ assms(3)] start_ok [OF assms(1,2)] by blast
  moreover have "g \<in> keys (co_statusStore c)" using assms(4) by (simp add: keys_map_of GetGroupStatus_def)
  ultimately have "g \<in> keys (co_statusStore c')" by (auto simp: extends_def)
  then show ?thesis by (simp add: keys_map_of GetGroupStatus_def)
qed

end
