(* ===== verification/Collector_Metrics.thy ===== *)
theory Collector_Metrics
  imports Collector_Periodic
begin

text \<open>
  The metric updates of the collection (internal/collector/collector.go) against the vectors of
  internal/metrics/metrics.go and against the status store that the HTTP interface answers from.
\<close>

section \<open>What the goroutines update\<close>

text \<open>The gauges of a group, with the part of its status that each shows.\<close>

definition group_gauges :: "(metric \<times> (GroupStatus \<Rightarrow> f64)) list" where
  "group_gauges =
     [(ConsumerGroupHealth, \<lambda>gs. healthToFloat (gs_OverallHealth gs)),
      (ConsumerGroupTotalLag, \<lambda>gs. f_of_int (sint (gs_TotalLag gs))),
      (ConsumerGroupActivePartitions, \<lambda>gs. f_of_int (gs_ActivePartitions gs)),
      (ConsumerGroupStoppedPartitions, \<lambda>gs. f_of_int (gs_StoppedPartitions gs)),
      (ConsumerGroupStalledPartitions, \<lambda>gs. f_of_int (gs_StalledPartitions gs))]"

definition side_op :: "metric_op \<Rightarrow> bool" where
  "side_op op \<longleftrightarrow> op_ok op \<and> op_metric op \<notin> fst ` set group_gauges"

text \<open>Only updates of other metrics are added, and the status store is left alone.\<close>

definition side :: "'h Collector \<Rightarrow> 'h Collector \<Rightarrow> bool" where
  "side c c' \<longleftrightarrow> (\<exists>ops. co_metrics c' = co_metrics c @ ops \<and> list_all side_op ops) \<and>
     co_statusStore c' = co_statusStore c"

lemma side_refl [simp]: "side c c"
  by (simp add: side_def)

lemma side_trans: "side c c1 \<Longrightarrow> side c1 c2 \<Longrightarrow> side c c2"
  by (auto simp: side_def)

lemma side_emit [simp]: "side c c1 \<Longrightarrow> list_all side_op ops \<Longrightarrow> side c (emit ops c1)"
  by (auto simp: side_def emit_def)

lemma side_frame [simp]:
  "side c (c1\<lparr>co_windows := ws\<rparr>) = side c c1" "side c (run_hook hook st rs c1) = side c c1"
  by (simp_all add: side_def run_hook_def split: option.split)

lemma side_ops [simp]: "list_all side_op (partition_metric_ops st cl)" "side_op (MSet ActiveConsumerGroups [cl] v)"
  "side_op (MSet ConsumerGroupMembers [cl, g] v)" "side_op (MInc ScrapeErrors [cl])"
  "side_op (MObserve CollectionDuration [cl, g] v)" "side_op (MSet ScrapeDuration [cl] v)"
  by (simp_all add: partition_metric_ops_def side_op_def op_ok_def group_gauges_def Let_def)

lemma evaluatePartition_side:
  "evaluatePartition hook invalid cl gid tpo reply now c = Ret (res, c') \<Longrightarrow> side c c'"
  by (auto simp: evaluatePartition_def Let_def go_bind_Ret_iff updatePartitionMetricsWithCluster_def
      split: sum.splits if_splits)

lemma partitions_loop_side:
  "partitions_loop hook env cl gid i j tpos gs t c = Ret (gs', t', c') \<Longrightarrow>
     side c c' \<and> gs_GroupID gs' = gs_GroupID gs"
proof (induction tpos arbitrary: j gs t c)
  case (Cons tpo tpos)
  from Cons.prems obtain res c1 where c1:
      "evaluatePartition hook (ke_OffsetInvalid env) cl gid tpo (ke_HighWatermark env i j) (ke_Now env i j) c = Ret (res, c1)"
      "(case res of Inl e \<Rightarrow> partitions_loop hook env cl gid i (Suc j) tpos gs t c1
        | Inr st \<Rightarrow> partitions_loop hook env cl gid i (Suc j) tpos
           (file_partition st (count_partition st gs)) (t + ps_CurrentLag st) c1) = Ret (gs', t', c')"
    by (auto simp: go_bind_Ret_iff)
  have kept: "gs_GroupID (file_partition st (count_partition st gs)) = gs_GroupID gs" for st
    by (simp add: file_partition_def count_partition_def split: ConsumerHealth.split ConsumerStatus.split)
  note step = side_trans [OF evaluatePartition_side [OF c1(1)]]
  show ?case
  proof (cases res)
    case (Inl e)
    then show ?thesis using c1(2) Cons.IH [of "Suc j" gs t c1] step by auto
  next
    case (Inr st)
    then have "partitions_loop hook env cl gid i (Suc j) tpos (file_partition st (count_partition st gs))
        (t + ps_CurrentLag st) c1 = Ret (gs', t', c')" using c1(2) by simp
    from Cons.IH [OF this] kept [of st] step show ?thesis by simp
  qed
qed simp

lemma collectGroup_side:
  "collectGroupMetricsWithCluster hook env cl i gid mc c = Ret (res, c') \<Longrightarrow>
     side c c' \<and> (\<forall>gs. res = Inr gs \<longrightarrow> gs_GroupID gs = gid)"
  using partitions_loop_side
  by (fastforce simp: collectGroupMetricsWithCluster_def Let_def go_bind_Ret_iff split: sum.splits)

definition named :: "(string \<times> GroupStatus result) list \<Rightarrow> bool" where
  "named results \<longleftrightarrow> (\<forall>g gs. (g, Inr gs) \<in> set results \<longrightarrow> gs_GroupID gs = g)"

lemma run_goroutines_side:
  "run_goroutines hook env cl gids mc order c = Ret (results, c') \<Longrightarrow> side c c' \<and> named results"
proof (induction order arbitrary: c results)
  case (Cons i order)
  let ?em = "emit [MObserve CollectionDuration [cl, gids ! i] (dur_seconds (ke_GroupDuration env i))]"
  from Cons.prems obtain res c1 results' where c1:
      "collectGroupMetricsWithCluster hook env cl i (gids ! i) (member_count mc (gids ! i)) c = Ret (res, c1)"
      "run_goroutines hook env cl gids mc order (?em c1) = Ret (results', c')" "results = (gids ! i, res) # results'"
    by (auto simp: Let_def go_bind_Ret_iff)
  have "side c (?em c1)" using collectGroup_side [OF c1(1)] by simp
  then have "side c c'" using Cons.IH [OF c1(2)] side_trans by blast
  then show ?case using Cons.IH [OF c1(2)] collectGroup_side [OF c1(1)] c1(3) by (auto simp: named_def)
qed (simp add: named_def)

section \<open>The gauges of the groups\<close>

text \<open>All updates fit their vectors, and each gauge shows what the store holds.\<close>

definition metrics_ok :: "string \<Rightarrow> 'h Collector \<Rightarrow> bool" where
  "metrics_ok cl c \<longleftrightarrow> list_all op_ok (co_metrics c) \<and>
     (\<forall>(m, part) \<in> set group_gauges. \<forall>g. last_value (co_metrics c) m [cl, g] = map_option part (GetGroupStatus c g))"

lemma side_ok:
  assumes "metrics_ok cl c" and "side c c'" shows "metrics_ok cl c'"
proof -
  obtain ops where ops: "co_metrics c' = co_metrics c @ ops" "list_all side_op ops" and st: "co_statusStore c' = co_statusStore c"
    using assms(2) unfolding side_def by blast
  have "last_value ops m ls = None" if "(m, part) \<in> set group_gauges" for m part ls
    using ops(2) that by (intro last_value_other) (force simp: list_all_iff side_op_def)
  moreover have "list_all op_ok ops" using ops(2) by (auto simp: list_all_iff side_op_def)
  ultimately show ?thesis using assms(1) by (auto simp: metrics_ok_def ops(1) st last_value_append GetGroupStatus_def)
qed

lemma handle_results_metrics: "named results \<Longrightarrow> metrics_ok cl c \<Longrightarrow> metrics_ok cl (handle_results cl results c)"
proof (induction cl results c rule: handle_results.induct)
  case (2 cl gid res results c)
  have named: "named results" using "2.prems"(1) by (simp add: named_def)
  show ?case
  proof (cases res)
    case (Inl e)
    have "metrics_ok cl (emit [MInc ScrapeErrors [cl]] c)"
      using "2.prems"(2) by (rule side_ok) simp
    then show ?thesis using "2.IH"(1) [OF Inl named] Inl by simp
  next
    case (Inr gs)
    have id: "gs_GroupID gs = gid" using "2.prems"(1) Inr by (simp add: named_def)
    let ?c1 = "c\<lparr>co_statusStore := AList.update gid gs (co_statusStore c)\<rparr>"
    have "last_value (group_metric_ops gs cl) m [cl, g] = (if g = gid then Some (part gs) else None)"
      if "(m, part) \<in> set group_gauges" for m part g
      using that by (auto simp: group_gauges_def group_metric_ops_def last_value_def Let_def id)
    moreover have "list_all op_ok (group_metric_ops gs cl)"
      by (simp add: group_metric_ops_def op_ok_def Let_def)
    ultimately have "metrics_ok cl ((updateMetricsWithCluster gs cl ?c1)\<lparr>co_hasCollected := True\<rparr>)"
      using "2.prems"(2)
      by (auto simp: metrics_ok_def updateMetricsWithCluster_def last_value_append GetGroupStatus_def update_conv' emit_def)
    then show ?thesis using "2.IH"(2) [OF Inr refl refl named] Inr by (simp add: Let_def)
  qed
qed simp

lemma collect_metrics:
  assumes "CollectMetricsWithCluster hook env cl order c = Ret (res, c')" and "metrics_ok cl c"
  shows "metrics_ok cl c'"
proof -
  obtain c1 where c1: "round_body hook env cl order c = Ret (res, c1)"
      "c' = emit [MSet ScrapeDuration [cl] (dur_seconds (ke_RoundDuration env))] c1"
    using assms(1) by (auto simp: CollectMetricsWithCluster_def go_bind_Ret_iff)
  have "metrics_ok cl c1"
  proof (cases "ke_Groups env")
    case (Inl e)
    then have "side c c1" using c1(1) by (auto simp: round_body_def)
    then show ?thesis by (rule side_ok [OF assms(2)])
  next
    case (Inr gids)
    let ?mc = "case ke_Members env of Inl e \<Rightarrow> [] | Inr m \<Rightarrow> m"
    define c2 where "c2 = emit (map (\<lambda>(g, n). MSet ConsumerGroupMembers [cl, g] (f_of_int n)) ?mc)
      (emit [MSet ActiveConsumerGroups [cl] (f_of_int (int (length gids)))] c)"
    have "list_all side_op (map (\<lambda>(g, n). MSet ConsumerGroupMembers [cl, g] (f_of_int n)) ms)" for ms
      by (induction ms) auto
    then have "side c c2" by (simp add: c2_def)
    moreover have "go_bind (run_goroutines hook env cl gids ?mc order c2)
        (\<lambda>(results, c3). Ret (Inr (), handle_results cl results c3)) = Ret (res, c1)"
      using c1(1) unfolding round_body_def Inr Let_def sum.case c2_def [symmetric]
      by (simp split: if_splits)
    then obtain results c3 where "run_goroutines hook env cl gids ?mc order c2 = Ret (results, c3)"
        "c1 = handle_results cl results c3" by (auto simp: go_bind_Ret_iff)
    ultimately show ?thesis
      using handle_results_metrics run_goroutines_side side_ok [OF assms(2)] side_trans by metis
  qed
  then show ?thesis unfolding c1(2) by (rule side_ok) simp
qed

lemma periodic_loop_metrics:
  "periodic_loop hook cl ticks c = Ret c' \<Longrightarrow> metrics_ok cl c \<Longrightarrow> metrics_ok cl c'"
proof (induction hook cl ticks c rule: periodic_loop.induct)
  case (3 hook cl ticks c)
  then obtain c1 where c1: "cleanup_step c = Ret c1" "periodic_loop hook cl ticks c1 = Ret c'"
    by (auto simp: go_bind_Ret_iff)
  have "side c c1" using c1(1) by (auto simp: cleanup_step_def Let_def go_bind_Ret_iff)
  then show ?case using 3(1) c1 side_ok 3(3) by blast
next
  case (4 hook cl env order ticks c)
  then obtain res c1 where c1: "CollectMetricsWithCluster hook env cl order c = Ret (res, c1)"
      "periodic_loop hook cl ticks c1 = Ret c'"
    by (auto simp: go_bind_Ret_iff)
  show ?case using 4(1) [OF c1(1) refl c1(2)] collect_metrics [OF c1(1) 4(3)] by blast
qed auto

lemma start_metrics:
  assumes "StartPeriodicCollection hook cl env order ticks (NewWithClient cfg h) = Ret c"
  shows "metrics_ok cl c"
proof -
  obtain res c1 where c1: "CollectMetricsWithCluster hook env cl order (NewWithClient cfg h) = Ret (res, c1)"
      "periodic_loop hook cl ticks c1 = Ret c"
    using assms by (auto simp: StartPeriodicCollection_def go_bind_Ret_iff split: if_splits)
  have "metrics_ok cl (NewWithClient cfg h)"
    by (simp add: metrics_ok_def NewWithClient_def last_value_def GetGroupStatus_def)
  then show ?thesis using collect_metrics [OF c1(1)] periodic_loop_metrics [OF c1(2)] by blast
qed

section \<open>Properties\<close>

text \<open>C11: The metrics and the HTTP interface tell the same. However long a collector runs, whatever
  fails and in whatever order its goroutines end, each of the five gauges of a group shows exactly
  the value of the status that the store answers with, and shows nothing for a group the store does
  not know.\<close>

theorem gauges_show_the_store:
  assumes "StartPeriodicCollection hook cl env order ticks (NewWithClient cfg h) = Ret c"
    and "(m, part) \<in> set group_gauges"
  shows "last_value (co_metrics c) m [cl, g] = map_option part (GetGroupStatus c g)"
  using start_metrics [OF assms(1)] assms(2) unfolding metrics_ok_def by blast

text \<open>C40: Every metric update of the collection fits its vector: it sets a gauge, increments a counter or
  observes a histogram, and passes exactly as many label values as the vector has labels; the client
  library panics on any other number.\<close>

theorem metric_updates_fit_their_vectors:
  assumes "StartPeriodicCollection hook cl env order ticks (NewWithClient cfg h) = Ret c"
  shows "\<forall>op \<in> set (co_metrics c). length (op_labels op) = length (metric_labels (op_metric op)) \<and>
    op_kind op = kind_of (op_metric op)"
  using start_metrics [OF assms] by (simp add: metrics_ok_def list_all_iff op_ok_def)

theorem gauges_show_the_store_witness:
  "\<exists>c. StartPeriodicCollection None ''c1'' sample_env [1, 0] [CollectTick gone_env []]
       (NewWithClient dev_config ()) = Ret c \<and>
     last_value (co_metrics c) ConsumerGroupTotalLag [''c1'', ''g''] =
       map_option (\<lambda>gs. f_of_int (sint (gs_TotalLag gs))) (GetGroupStatus c ''g'')"
proof -
  obtain c where run: "StartPeriodicCollection None ''c1'' sample_env [1, 0] [CollectTick gone_env []]
       (NewWithClient dev_config ()) = Ret c" using sample_start by blast
  have "(ConsumerGroupTotalLag, \<lambda>gs. f_of_int (sint (gs_TotalLag gs))) \<in> set group_gauges"
    by (simp add: group_gauges_def)
  then show ?thesis using gauges_show_the_store [OF run] run by blast
qed

theorem metric_updates_fit_their_vectors_witness:
  "\<exists>c. StartPeriodicCollection None ''c1'' sample_env [1, 0] [CollectTick gone_env []]
       (NewWithClient dev_config ()) = Ret c \<and>
       (\<forall>op \<in> set (co_metrics c). length (op_labels op) = length (metric_labels (op_metric op)) \<and>
          op_kind op = kind_of (op_metric op))"
  using sample_start by (elim exE conjE, intro exI conjI metric_updates_fit_their_vectors) assumption+

end
