(* ===== verification/Go_Utf8.thy ===== *)
theory Go_Utf8
  imports Go_Fmt
begin

text \<open>
  Strings of bytes that are meant as UTF-8 (package utf8), and JSON string literals: what
  \<open>json.Marshal\<close> writes for a string and what \<open>json.Unmarshal\<close> reads.
\<close>

section \<open>Runes\<close>

abbreviation char_code :: "char \<Rightarrow> nat" where
  "char_code c \<equiv> of_char c"

definition cont :: "char \<Rightarrow> bool" where
  "cont c \<longleftrightarrow> 128 \<le> char_code c \<and> char_code c < 192"

text \<open>The length a first byte announces, and the bounds it sets for the second byte.\<close>

definition lead_len :: "char \<Rightarrow> nat" where
  "lead_len c =
     (if char_code c < 128 then 1
      else if 194 \<le> char_code c \<and> char_code c < 224 then 2
      else if 224 \<le> char_code c \<and> char_code c < 240 then 3
      else if 240 \<le> char_code c \<and> char_code c < 245 then 4
      else 0)"

definition second_ok :: "char \<Rightarrow> char \<Rightarrow> bool" where
  "second_ok c d \<longleftrightarrow>
     (if char_code c = 224 then 160 else if char_code c = 240 then 144 else 128) \<le> char_code d \<and>
     char_code d \<le> (if char_code c = 237 then 159 else if char_code c = 244 then 143 else 191)"

text \<open>The number of bytes of the rune a string starts with, 0 when there is no valid one.\<close>

fun rune_len :: "string \<Rightarrow> nat" where
  "rune_len [] = 0"
| "rune_len (c # s) =
     (let n = lead_len c in
      if n \<le> 1 \<or> n \<le> length s + 1 \<and> second_ok c (s ! 0) \<and> list_all cont (take (n - 2) (tl s))
      then n else 0)"

declare rune_len.simps(2) [simp del]

lemma rune_len_ascii [simp]: "char_code c < 128 \<Longrightarrow> rune_len (c # s) = 1"
  by (simp add: rune_len.simps lead_len_def)

lemma rune_len_le: "rune_len s \<le> length s"
  by (cases s) (auto simp: rune_len.simps Let_def)

lemma rune_len_prefix:
  assumes "0 < rune_len s"
  shows "rune_len (take (rune_len s) s @ t) = rune_len s"
proof (cases s)
  case (Cons c s')
  define n where "n = lead_len c"
  have n: "rune_len s = n" and ok: "n \<le> 1 \<or> n \<le> length s' + 1 \<and> second_ok c (s' ! 0) \<and> list_all cont (take (n - 2) (tl s'))"
    using assms by (auto simp: Cons rune_len.simps n_def Let_def split: if_splits)
  have "0 < n" using assms n by simp
  then obtain m where m: "n = Suc m" by (cases n) auto
  have "rune_len (c # take m s' @ t) = n"
  proof (cases m)
    case 0
    then show ?thesis by (simp add: rune_len.simps n_def [symmetric] m)
  next
    case (Suc k)
    then obtain d s'' where s': "s' = d # s''" using ok m by (cases s') auto
    have "k \<le> length s''" using ok m Suc s' by simp
    then show ?thesis using ok Suc s' by (simp add: rune_len.simps n_def [symmetric] m)
  qed
  then show ?thesis using n by (simp add: Cons m)
qed (use assms in simp)

text \<open>A rune of several bytes has none below 128.\<close>

lemma rune_bytes:
  assumes "128 \<le> char_code c" and "x \<in> set (take (rune_len (c # s)) (c # s))"
  shows "128 \<le> char_code x"
proof -
  define n where "n = rune_len (c # s)"
  have "n = 0 \<or> n \<le> 1 \<or> n = lead_len c \<and> second_ok c (s ! 0) \<and> list_all cont (take (n - 2) (tl s))"
    by (auto simp: n_def rune_len.simps Let_def)
  then consider "n = 0" | "n = 1" | m where "n = Suc (Suc m)" "second_ok c (s ! 0)" "list_all cont (take m (tl s))"
    by (cases n; cases "n - 1") auto
  then show ?thesis
  proof cases
    case 3
    then show ?thesis using assms unfolding n_def [symmetric]
      by (cases s) (auto simp: second_ok_def cont_def list_all_iff split: if_splits)
  qed (use assms in \<open>auto simp: n_def [symmetric]\<close>)
qed

definition replacement :: string where
  "replacement = [CHR 0xEF, CHR 0xBF, CHR 0xBD]"

text \<open>\<open>strings.ToValidUTF8\<close> byte by byte: every byte that belongs to no rune becomes U+FFFD.\<close>

function sanitize :: "string \<Rightarrow> string" where
  "sanitize [] = []"
| "sanitize (c # s) =
     (if rune_len (c # s) = 0 then replacement @ sanitize s
      else take (rune_len (c # s)) (c # s) @ sanitize (drop (rune_len (c # s)) (c # s)))"
  by pat_completeness auto
termination by (relation "measure length") auto

declare sanitize.simps(2) [simp del]

function valid_utf8 :: "string \<Rightarrow> bool" where
  "valid_utf8 [] = True"
| "valid_utf8 (c # s) =
     (if rune_len (c # s) = 0 then False else valid_utf8 (drop (rune_len (c # s)) (c # s)))"
  by pat_completeness auto
termination by (relation "measure length") auto

declare valid_utf8.simps(2) [simp del]

lemma sanitize_valid: "valid_utf8 s \<Longrightarrow> sanitize s = s"
  by (induction s rule: valid_utf8.induct) (auto simp: sanitize.simps valid_utf8.simps split: if_splits)

lemma valid_utf8_Cons_ascii [simp]: "char_code c < 128 \<Longrightarrow> valid_utf8 (c # s) \<longleftrightarrow> valid_utf8 s"
  by (simp add: valid_utf8.simps)

lemma valid_utf8_append: "valid_utf8 s \<Longrightarrow> valid_utf8 t \<Longrightarrow> valid_utf8 (s @ t)"
proof (induction s rule: valid_utf8.induct)
  case (2 c s)
  have n: "0 < rune_len (c # s)" and v: "valid_utf8 (drop (rune_len (c # s)) (c # s))"
    using "2.prems"(1) by (simp_all add: valid_utf8.simps split: if_splits)
  have "c # s @ t = take (rune_len (c # s)) (c # s) @ drop (rune_len (c # s)) (c # s) @ t"
    by (metis append.assoc append_Cons append_take_drop_id)
  then have "rune_len (c # s @ t) = rune_len (c # s)" using rune_len_prefix [OF n] by metis
  then show ?case
    using "2.IH" [OF _ v "2.prems"(2)] n rune_len_le [of "c # s"]
      drop_append [of "rune_len (c # s)" "c # s" t] by (simp add: valid_utf8.simps)
qed simp

definition ascii :: "string \<Rightarrow> bool" where
  "ascii s \<longleftrightarrow> (\<forall>c \<in> set s. char_code c < 128)"

lemma ascii_simps [simp]:
  "ascii []" "ascii (c # s) \<longleftrightarrow> char_code c < 128 \<and> ascii s" "ascii (s @ t) \<longleftrightarrow> ascii s \<and> ascii t"
  by (auto simp: ascii_def)

lemma ascii_valid: "ascii s \<Longrightarrow> valid_utf8 s"
  by (induction s) simp_all

section \<open>String literals\<close>

abbreviation quot :: char where "quot \<equiv> CHR 0x22"
abbreviation bslash :: char where "bslash \<equiv> CHR 0x5C"

definition hexdigit :: "nat \<Rightarrow> char" where
  "hexdigit n = char_of (if n < 10 then 48 + n else 87 + n)"

text \<open>The escapes of \<open>encoding/json\<close>, with its escaping of HTML.\<close>

definition escape_ascii :: "char \<Rightarrow> string" where
  "escape_ascii c =
     (if c = quot \<or> c = bslash then [bslash, c]
      else if char_code c = 8 then [bslash, CHR ''b'']
      else if char_code c = 12 then [bslash, CHR ''f'']
      else if char_code c = 10 then [bslash, CHR ''n'']
      else if char_code c = 13 then [bslash, CHR ''r'']
      else if char_code c = 9 then [bslash, CHR ''t'']
      else if char_code c < 32 \<or> c \<in> {CHR ''<'', CHR ''>'', CHR ''&''}
      then bslash # ''u00'' @ [hexdigit (char_code c div 16), hexdigit (char_code c mod 16)]
      else [c])"

text \<open>U+2028 and U+2029 are escaped, too.\<close>

definition escape_rune :: "string \<Rightarrow> string" where
  "escape_rune r =
     (if r = [CHR 0xE2, CHR 0x80, CHR 0xA8] then bslash # ''u2028''
      else if r = [CHR 0xE2, CHR 0x80, CHR 0xA9] then bslash # ''u2029''
      else r)"

function escape :: "string \<Rightarrow> string" where
  "escape [] = []"
| "escape (c # s) =
     (if char_code c < 128 then escape_ascii c @ escape s
      else if rune_len (c # s) = 0 then bslash # ''ufffd'' @ escape s
      else escape_rune (take (rune_len (c # s)) (c # s)) @ escape (drop (rune_len (c # s)) (c # s)))"
  by pat_completeness auto
termination by (relation "measure length") auto

declare escape.simps(2) [simp del]

definition json_quote :: "string \<Rightarrow> string" where
  "json_quote s = quot # escape s @ [quot]"

section \<open>Reading string literals\<close>

definition hexval :: "char \<Rightarrow> nat option" where
  "hexval c =
     (if 48 \<le> char_code c \<and> char_code c < 58 then Some (char_code c - 48)
      else if 97 \<le> char_code c \<and> char_code c < 103 then Some (char_code c - 87)
      else if 65 \<le> char_code c \<and> char_code c < 71 then Some (char_code c - 55)
      else None)"

fun hex4 :: "string \<Rightarrow> (nat \<times> string) option" where
  "hex4 (a # b # c # d # s) =
     (case (hexval a, hexval b, hexval c, hexval d) of
        (Some p, Some q, Some r, Some t) \<Rightarrow> Some (((p * 16 + q) * 16 + r) * 16 + t, s)
      | _ \<Rightarrow> None)"
| "hex4 _ = None"

text \<open>\<open>utf8.EncodeRune\<close> for a code point that is no surrogate.\<close>

definition encode_rune :: "nat \<Rightarrow> string" where
  "encode_rune v =
     (if v < 0x80 then [char_of v]
      else if v < 0x800 then [char_of (192 + v div 64), char_of (128 + v mod 64)]
      else if v < 0x10000 then
        [char_of (224 + v div 4096), char_of (128 + v div 64 mod 64), char_of (128 + v mod 64)]
      else [char_of (240 + v div 262144), char_of (128 + v div 4096 mod 64),
        char_of (128 + v div 64 mod 64), char_of (128 + v mod 64)])"

text \<open>What follows \<open>\u\<close>: a surrogate without its other half is replaced.\<close>

definition unescape_u :: "string \<Rightarrow> (string \<times> string) option" where
  "unescape_u s =
     (case hex4 s of
        None \<Rightarrow> None
      | Some (v, s2) \<Rightarrow>
          if v < 0xD800 \<or> 0xE000 \<le> v then Some (encode_rune v, s2)
          else if take 2 s2 = [bslash, CHR ''u''] then
            (case hex4 (drop 2 s2) of
               None \<Rightarrow> None
             | Some (w, s3) \<Rightarrow>
                 if v < 0xDC00 \<and> 0xDC00 \<le> w \<and> w < 0xE000
                 then Some (encode_rune (0x10000 + (v - 0xD800) * 1024 + (w - 0xDC00)), s3)
                 else Some (replacement, s2))
          else Some (replacement, s2))"

fun unescape :: "string \<Rightarrow> (string \<times> string) option" where
  "unescape [] = None"
| "unescape (c # s) =
     (if c \<in> {quot, bslash, CHR ''/''} then Some ([c], s)
      else if c = CHR ''b'' then Some ([CHR 0x08], s)
      else if c = CHR ''f'' then Some ([CHR 0x0C], s)
      else if c = CHR ''n'' then Some ([CHR 0x0A], s)
      else if c = CHR ''r'' then Some ([CHR 0x0D], s)
      else if c = CHR ''t'' then Some ([CHR 0x09], s)
      else if c = CHR ''u'' then unescape_u s
      else None)"

lemma hex4_length: "hex4 s = Some (v, t) \<Longrightarrow> length t < length s"
  by (induction s rule: hex4.induct) (auto split: option.splits)

lemma unescape_u_length:
  assumes "unescape_u s = Some (r, t)"
  shows "length t < length s"
proof -
  obtain v s2 where v: "hex4 s = Some (v, s2)" using assms by (auto simp: unescape_u_def split: option.splits)
  have "t = s2 \<or> (\<exists>w. hex4 (drop 2 s2) = Some (w, t))"
    using assms v by (auto simp: unescape_u_def split: option.splits if_splits)
  then show ?thesis using hex4_length [OF v] hex4_length [of "drop 2 s2"] by fastforce
qed

lemma unescape_length: "unescape s = Some (r, t) \<Longrightarrow> length t < length s"
  using unescape_u_length by (cases s) (fastforce split: if_splits)+

text \<open>The rest of a string literal after its first quotation mark, and the text after it.\<close>

function read_string :: "string \<Rightarrow> (string \<times> string) option" where
  "read_string [] = None"
| "read_string (c # s) =
     (if c = quot then Some ([], s)
      else if c = bslash then
        (case unescape s of
           None \<Rightarrow> None
         | Some (r, s') \<Rightarrow> map_option (\<lambda>(t, rest). (r @ t, rest)) (read_string s'))
      else if char_code c < 32 then None
      else if rune_len (c # s) = 0 then map_option (\<lambda>(t, rest). (replacement @ t, rest)) (read_string s)
      else map_option (\<lambda>(t, rest). (take (rune_len (c # s)) (c # s) @ t, rest))
        (read_string (drop (rune_len (c # s)) (c # s))))"
  by pat_completeness auto
termination by (relation "measure length") (auto dest: unescape_length)

declare read_string.simps(2) [simp del]

lemma read_string_length: "read_string s = Some (r, t) \<Longrightarrow> length t < length s"
proof (induction s arbitrary: r rule: read_string.induct)
  case (2 c s)
  consider "c = quot" | r' s' where "c = bslash" "unescape s = Some (r', s')"
    | "c \<noteq> quot" "c \<noteq> bslash" "rune_len (c # s) = 0" | "c \<noteq> quot" "c \<noteq> bslash" "0 < rune_len (c # s)"
    using "2.prems" by (cases "c = bslash"; cases "unescape s") (auto simp: read_string.simps split: if_splits)
  then show ?case
  proof cases
    case 2
    then obtain t' where "read_string s' = Some (t', t)" using "2.prems" by (auto simp: read_string.simps)
    then show ?thesis using "2.IH"(1) [OF _ _ 2(2) refl] 2(1) unescape_length [OF 2(2)] by fastforce
  next
    case 3
    then obtain t' where "read_string s = Some (t', t)" "\<not> char_code c < 32"
      using "2.prems" by (auto simp: read_string.simps split: if_splits)
    then show ?thesis using "2.IH"(2) 3 by fastforce
  next
    case 4
    then obtain t' where "read_string (drop (rune_len (c # s)) (c # s)) = Some (t', t)" "\<not> char_code c < 32"
      using "2.prems" by (auto simp: read_string.simps split: if_splits)
    then show ?thesis using "2.IH"(3) 4 by fastforce
  qed (use "2.prems" in \<open>auto simp: read_string.simps\<close>)
qed simp

section \<open>A string that was written is read\<close>

lemma hexval_hexdigit: "n < 16 \<Longrightarrow> hexval (hexdigit n) = Some n"
  by (auto simp: hexval_def hexdigit_def)

lemma hexval_consts [simp]:
  "hexval (CHR ''0'') = Some 0" "hexval (CHR ''2'') = Some 2" "hexval (CHR ''8'') = Some 8"
  "hexval (CHR ''9'') = Some 9" "hexval (CHR ''d'') = Some 13" "hexval (CHR ''f'') = Some 15"
  by (simp_all add: hexval_def)

lemma char_consts:
  "(char_of (239::nat) :: char) = CHR 0xEF" "(char_of (191::nat) :: char) = CHR 0xBF" "(char_of (189::nat) :: char) = CHR 0xBD"
  "(char_of (226::nat) :: char) = CHR 0xE2" "(char_of (128::nat) :: char) = CHR 0x80" "(char_of (168::nat) :: char) = CHR 0xA8"
  "(char_of (169::nat) :: char) = CHR 0xA9"
  by code_simp+

lemma char_by_code: "(of_char c :: nat) = of_char d \<longleftrightarrow> c = d"
  by simp

lemma escaped_char:
  assumes "char_code c < 128"
  shows "read_string (escape_ascii c @ s) = map_option (\<lambda>(t, rest). (c # t, rest)) (read_string s)"
proof -
  have control: "c = CHR 0x08" if "char_code c = 8" using that char_by_code [of c "CHR 0x08"] by simp
  have control': "c = CHR 0x0C" if "char_code c = 12" using that char_by_code [of c "CHR 0x0C"] by simp
  have control'': "c = CHR 0x0A" if "char_code c = 10" using that char_by_code [of c "CHR 0x0A"] by simp
  have control3: "c = CHR 0x0D" if "char_code c = 13" using that char_by_code [of c "CHR 0x0D"] by simp
  have control4: "c = CHR 0x09" if "char_code c = 9" using that char_by_code [of c "CHR 0x09"] by simp
  have hex: "unescape (''u00'' @ [hexdigit (char_code c div 16), hexdigit (char_code c mod 16)] @ s) = Some ([c], s)"
    using assms by (simp add: unescape_u_def hexval_hexdigit encode_rune_def)
  consider "c = quot \<or> c = bslash" | "char_code c \<in> {8, 12, 10, 13, 9}"
    | "c \<noteq> quot" "c \<noteq> bslash" "char_code c \<notin> {8, 12, 10, 13, 9}" "char_code c < 32 \<or> c \<in> {CHR ''<'', CHR ''>'', CHR ''&''}"
    | "c \<noteq> quot" "c \<noteq> bslash" "\<not> char_code c < 32" "c \<notin> {CHR ''<'', CHR ''>'', CHR ''&''}"
    by blast
  then show ?thesis
  proof cases
    case 1
    then show ?thesis by (auto simp: escape_ascii_def read_string.simps)
  next
    case 2
    then show ?thesis using control control' control'' control3 control4
      by (auto simp: escape_ascii_def read_string.simps)
  next
    case 3
    then have "escape_ascii c = bslash # ''u00'' @ [hexdigit (char_code c div 16), hexdigit (char_code c mod 16)]"
      by (simp add: escape_ascii_def)
    then show ?thesis using hex by (simp add: read_string.simps)
  next
    case 4
    then have "escape_ascii c = [c]" by (auto simp: escape_ascii_def)
    then show ?thesis using 4 assms by (simp add: read_string.simps)
  qed
qed

lemma escaped_rune:
  assumes "128 \<le> char_code c" and "0 < rune_len (c # s)"
  defines "r \<equiv> take (rune_len (c # s)) (c # s)"
  shows "read_string (escape_rune r @ t) = map_option (\<lambda>(u, rest). (r @ u, rest)) (read_string t)"
proof -
  consider "r = [CHR 0xE2, CHR 0x80, CHR 0xA8]" | "r = [CHR 0xE2, CHR 0x80, CHR 0xA9]" | "escape_rune r = r"
    by (cases "r = [CHR 0xE2, CHR 0x80, CHR 0xA8]"; cases "r = [CHR 0xE2, CHR 0x80, CHR 0xA9]")
      (auto simp: escape_rune_def)
  then show ?thesis
  proof cases
    case 3
    obtain u where r: "r = c # u" using assms(2) by (cases "rune_len (c # s)") (auto simp: r_def)
    have len: "rune_len (r @ t) = length r" using rune_len_prefix [OF assms(2)] rune_len_le [of "c # s"] by (simp add: r_def)
    have "c \<noteq> quot" "c \<noteq> bslash" "\<not> char_code c < 32" using assms(1) by auto
    then show ?thesis using len 3 by (simp add: r read_string.simps)
  qed (simp_all add: escape_rune_def read_string.simps unescape_u_def encode_rune_def char_consts)
qed

lemma read_escape: "read_string (escape s @ quot # rest) = Some (sanitize s, rest)"
proof (induction s rule: escape.induct)
  case (2 c s)
  consider "char_code c < 128" | "128 \<le> char_code c" "rune_len (c # s) = 0" | "128 \<le> char_code c" "0 < rune_len (c # s)"
    by linarith
  then show ?case
  proof cases
    case 1
    then show ?thesis using "2.IH"(1) by (simp add: escape.simps sanitize.simps escaped_char)
  next
    case 2
    then show ?thesis using "2.IH"(2)
      by (simp add: escape.simps sanitize.simps read_string.simps(2) [of bslash] unescape_u_def encode_rune_def replacement_def char_consts)
  next
    case 3
    then show ?thesis using "2.IH"(3) escaped_rune [OF 3]
      by (simp add: escape.simps sanitize.simps)
  qed
qed (simp add: read_string.simps)

end
