(* ===== verification/Go_Json.thy ===== *)
theory Go_Json
  imports Go_Utf8
begin

text \<open>
  JSON as package encoding/json writes and reads it: values as trees, their compact text, and the
  reader, which rejects exactly what the syntax rejects and nests at most 10000 deep.  A number is
  its literal, since Go converts it only when the type of the target is known.
\<close>

section \<open>Values and their text\<close>

datatype json =
    JNull | JBool bool | JNum string | JStr string | JArr "json list" | JObj "(string \<times> json) list"

fun json_text :: "json \<Rightarrow> string"
  and elems_text :: "json list \<Rightarrow> string"
  and members_text :: "(string \<times> json) list \<Rightarrow> string" where
  "json_text JNull = ''null''"
| "json_text (JBool b) = (if b then ''true'' else ''false'')"
| "json_text (JNum lit) = lit"
| "json_text (JStr s) = json_quote s"
| "json_text (JArr js) = CHR ''['' # elems_text js @ [CHR '']'']"
| "json_text (JObj kvs) = CHR ''{'' # members_text kvs @ [CHR ''}'']"
| "elems_text [] = []"
| "elems_text (j # js) = json_text j @ (if js = [] then [] else CHR '','' # elems_text js)"
| "members_text [] = []"
| "members_text ((k, j) # kvs) = json_quote k @ CHR '':'' # json_text j @
     (if kvs = [] then [] else CHR '','' # members_text kvs)"

section \<open>Number literals\<close>

definition is_digit :: "char \<Rightarrow> bool" where
  "is_digit c \<longleftrightarrow> 48 \<le> (of_char c :: int) \<and> (of_char c :: int) < 58"

definition starts :: "char set \<Rightarrow> string \<Rightarrow> bool" where
  "starts C s = (case s of [] \<Rightarrow> False | c # _ \<Rightarrow> c \<in> C)"

lemma starts_simps [simp]: "starts C [] = False" "starts C (c # s) \<longleftrightarrow> c \<in> C"
  by (simp_all add: starts_def)

text \<open>Each part of a literal with the text after it.\<close>

definition scan_int :: "string \<Rightarrow> (string \<times> string) option" where
  "scan_int s =
     (if starts {CHR ''0''} s then Some (''0'', tl s)
      else if takeWhile is_digit s = [] then None
      else Some (takeWhile is_digit s, dropWhile is_digit s))"

definition scan_frac :: "string \<Rightarrow> (string \<times> string) option" where
  "scan_frac s =
     (if \<not> starts {CHR ''.''} s then Some ([], s)
      else if takeWhile is_digit (tl s) = [] then None
      else Some (CHR ''.'' # takeWhile is_digit (tl s), dropWhile is_digit (tl s)))"

definition scan_exp :: "string \<Rightarrow> (string \<times> string) option" where
  "scan_exp s =
     (if \<not> starts {CHR ''e'', CHR ''E''} s then Some ([], s)
      else let sg = (if starts {CHR ''+'', CHR ''-''} (tl s) then 1 else 0);
               body = drop sg (tl s)
           in if takeWhile is_digit body = [] then None
              else Some (hd s # take sg (tl s) @ takeWhile is_digit body, dropWhile is_digit body))"

definition num_sign :: "string \<Rightarrow> string" where
  "num_sign s = (if starts {CHR ''-''} s then ''-'' else [])"

definition scan_num :: "string \<Rightarrow> (string \<times> string) option" where
  "scan_num s =
     (case scan_int (drop (length (num_sign s)) s) of None \<Rightarrow> None | Some (i, s1) \<Rightarrow>
     (case scan_frac s1 of None \<Rightarrow> None | Some (f, s2) \<Rightarrow>
     (case scan_exp s2 of None \<Rightarrow> None | Some (e, s3) \<Rightarrow> Some (num_sign s @ i @ f @ e, s3))))"

lemma scan_num_iff:
  "scan_num s = Some (lit, t) \<longleftrightarrow> (\<exists>i s1 f s2 e. scan_int (drop (length (num_sign s)) s) = Some (i, s1) \<and>
     scan_frac s1 = Some (f, s2) \<and> scan_exp s2 = Some (e, t) \<and> lit = num_sign s @ i @ f @ e)"
  by (auto simp: scan_num_def split: option.split)

text \<open>A literal, and what can follow a value.\<close>

definition num_lit :: "string \<Rightarrow> bool" where
  "num_lit lit \<longleftrightarrow> scan_num lit = Some (lit, [])"

definition delim :: "string \<Rightarrow> bool" where
  "delim s \<longleftrightarrow> s = [] \<or> starts {CHR '','', CHR '']'', CHR ''}'', CHR 0x0A} s"

lemma takeWhile_delim:
  "delim rest \<Longrightarrow> takeWhile is_digit (s @ rest) = takeWhile is_digit s \<and>
     dropWhile is_digit (s @ rest) = dropWhile is_digit s @ rest"
  by (induction s) (cases rest; auto simp: delim_def is_digit_def)+

lemma starts_delim: "delim rest \<Longrightarrow> C \<inter> {CHR '','', CHR '']'', CHR ''}'', CHR 0x0A} = {} \<Longrightarrow> starts C (s @ rest) = starts C s"
  by (cases s; cases rest) (auto simp: delim_def)

lemma scan_int_delim:
  assumes "delim rest" and "scan_int s = Some (i, t)"
  shows "scan_int (s @ rest) = Some (i, t @ rest)"
  using assms takeWhile_delim [OF assms(1), of s] starts_delim [OF assms(1), of "{CHR ''0''}" s]
  by (cases s) (auto simp: scan_int_def split: if_splits)

lemma scan_frac_delim:
  assumes "delim rest" and "scan_frac s = Some (f, t)"
  shows "scan_frac (s @ rest) = Some (f, t @ rest)"
  using assms takeWhile_delim [OF assms(1), of "tl s"] starts_delim [OF assms(1), of "{CHR ''.''}" s]
  by (cases s) (auto simp: scan_frac_def split: if_splits)

lemma scan_exp_eqs:
  "c \<in> {CHR ''e'', CHR ''E''} \<Longrightarrow> d \<in> {CHR ''+'', CHR ''-''} \<Longrightarrow> scan_exp (c # d # v) =
     (if takeWhile is_digit v = [] then None else Some (c # d # takeWhile is_digit v, dropWhile is_digit v))"
  "c \<in> {CHR ''e'', CHR ''E''} \<Longrightarrow> \<not> starts {CHR ''+'', CHR ''-''} u \<Longrightarrow> scan_exp (c # u) =
     (if takeWhile is_digit u = [] then None else Some (c # takeWhile is_digit u, dropWhile is_digit u))"
  "\<not> starts {CHR ''e'', CHR ''E''} u \<Longrightarrow> scan_exp u = Some ([], u)"
  by (simp_all add: scan_exp_def)

lemma scan_exp_cases:
  obtains "\<not> starts {CHR ''e'', CHR ''E''} s"
    | c d v where "s = c # d # v" "c \<in> {CHR ''e'', CHR ''E''}" "d \<in> {CHR ''+'', CHR ''-''}"
    | c u where "s = c # u" "c \<in> {CHR ''e'', CHR ''E''}" "\<not> starts {CHR ''+'', CHR ''-''} u"
proof (cases "starts {CHR ''e'', CHR ''E''} s")
  case True
  then obtain c u where "s = c # u" "c \<in> {CHR ''e'', CHR ''E''}" by (cases s) auto
  then show ?thesis using that(2) [of c "hd u" "tl u"] that(3) [of c u] by (cases u) auto
qed (rule that)

lemma scan_exp_delim:
  assumes "delim rest" and "scan_exp s = Some (e, t)"
  shows "scan_exp (s @ rest) = Some (e, t @ rest)"
proof (cases rule: scan_exp_cases [of s])
  case 1
  then show ?thesis using assms starts_delim [OF assms(1), of "{CHR ''e'', CHR ''E''}" s] by (simp add: scan_exp_eqs(3))
next
  case (2 c d v)
  show ?thesis using assms(2) takeWhile_delim [OF assms(1), of v]
    scan_exp_eqs(1) [OF 2(2,3), of v] scan_exp_eqs(1) [OF 2(2,3), of "v @ rest"]
    unfolding 2(1) by (simp split: if_split_asm)
next
  case (3 c u)
  then have "\<not> starts {CHR ''+'', CHR ''-''} (u @ rest)"
    using starts_delim [OF assms(1), of "{CHR ''+'', CHR ''-''}" u] by simp
  then show ?thesis using assms(2) takeWhile_delim [OF assms(1), of u]
    scan_exp_eqs(2) [OF 3(2,3)] scan_exp_eqs(2) [OF 3(2), of "u @ rest"]
    unfolding 3(1) by (simp split: if_split_asm)
qed

lemma scan_exp_length:
  assumes "scan_exp s = Some (e, t)"
  shows "length t \<le> length s"
proof (cases rule: scan_exp_cases [of s])
  case 1
  then show ?thesis using assms by (simp add: scan_exp_eqs(3))
next
  case (2 c d v)
  show ?thesis using assms scan_exp_eqs(1) [OF 2(2,3), of v] length_dropWhile_le [of is_digit v]
    unfolding 2(1) by (auto split: if_split_asm)
next
  case (3 c u)
  show ?thesis using assms scan_exp_eqs(2) [OF 3(2,3)] length_dropWhile_le [of is_digit u]
    unfolding 3(1) by (auto split: if_split_asm)
qed

lemma scan_num_delim:
  assumes "num_lit lit" and "delim rest"
  shows "scan_num (lit @ rest) = Some (lit, rest)"
proof -
  obtain i s1 f s2 e where i: "scan_int (drop (length (num_sign lit)) lit) = Some (i, s1)"
    and f: "scan_frac s1 = Some (f, s2)" and e: "scan_exp s2 = Some (e, [])"
    and lit: "lit = num_sign lit @ i @ f @ e"
    using assms(1) by (auto simp: num_lit_def scan_num_iff)
  have d: "drop (length (num_sign lit)) (lit @ rest) = drop (length (num_sign lit)) lit @ rest"
    by (subst lit, subst (2) lit) simp
  have n: "num_sign (lit @ rest) = num_sign lit"
    using starts_delim [OF assms(2), of "{CHR ''-''}" lit] by (simp add: num_sign_def)
  have "scan_num (lit @ rest) = Some (num_sign lit @ i @ f @ e, rest)" unfolding scan_num_iff n d
    using scan_int_delim [OF assms(2) i] scan_frac_delim [OF assms(2) f] scan_exp_delim [OF assms(2) e] by auto
  then show ?thesis using lit by simp
qed

section \<open>The reader\<close>

definition is_space :: "char \<Rightarrow> bool" where
  "is_space c \<longleftrightarrow> c \<in> {CHR '' '', CHR 0x09, CHR 0x0A, CHR 0x0D}"

abbreviation skip_ws :: "string \<Rightarrow> string" where
  "skip_ws \<equiv> dropWhile is_space"

definition max_nesting :: nat where "max_nesting = 10000"

text \<open>
  The first argument is fuel, of which twice the length of the text is enough
  (\<open>read_value_fuel\<close>), the second the depth.
\<close>

fun read_value :: "nat \<Rightarrow> nat \<Rightarrow> string \<Rightarrow> (json \<times> string) option"
  and read_elems :: "nat \<Rightarrow> nat \<Rightarrow> string \<Rightarrow> (json list \<times> string) option"
  and read_members :: "nat \<Rightarrow> nat \<Rightarrow> string \<Rightarrow> ((string \<times> json) list \<times> string) option" where
  "read_value 0 d s = None"
| "read_value (Suc n) d s =
     (case skip_ws s of
        [] \<Rightarrow> None
      | c # s1 \<Rightarrow>
          if c = quot then map_option (\<lambda>(r, t). (JStr r, t)) (read_string s1)
          else if c = CHR ''['' then
            (if max_nesting \<le> d then None
             else if starts {CHR '']''} (skip_ws s1) then Some (JArr [], tl (skip_ws s1))
             else map_option (\<lambda>(js, t). (JArr js, t)) (read_elems n (Suc d) s1))
          else if c = CHR ''{'' then
            (if max_nesting \<le> d then None
             else if starts {CHR ''}''} (skip_ws s1) then Some (JObj [], tl (skip_ws s1))
             else map_option (\<lambda>(kvs, t). (JObj kvs, t)) (read_members n (Suc d) s1))
          else if take 3 s1 = ''rue'' \<and> c = CHR ''t'' then Some (JBool True, drop 3 s1)
          else if take 4 s1 = ''alse'' \<and> c = CHR ''f'' then Some (JBool False, drop 4 s1)
          else if take 3 s1 = ''ull'' \<and> c = CHR ''n'' then Some (JNull, drop 3 s1)
          else map_option (\<lambda>(lit, t). (JNum lit, t)) (scan_num (c # s1)))"
| "read_elems 0 d s = None"
| "read_elems (Suc n) d s =
     (case read_value n d s of
        None \<Rightarrow> None
      | Some (j, s1) \<Rightarrow>
          if starts {CHR '','' } (skip_ws s1)
          then map_option (\<lambda>(js, t). (j # js, t)) (read_elems n d (tl (skip_ws s1)))
          else if starts {CHR '']''} (skip_ws s1) then Some ([j], tl (skip_ws s1))
          else None)"
| "read_members 0 d s = None"
| "read_members (Suc n) d s =
     (if starts {quot} (skip_ws s) then
       (case read_string (tl (skip_ws s)) of
          None \<Rightarrow> None
        | Some (k, s1) \<Rightarrow>
            if starts {CHR '':''} (skip_ws s1) then
              (case read_value n d (tl (skip_ws s1)) of
                 None \<Rightarrow> None
               | Some (j, s2) \<Rightarrow>
                   if starts {CHR '',''} (skip_ws s2)
                   then map_option (\<lambda>(kvs, t). ((k, j) # kvs, t)) (read_members n d (tl (skip_ws s2)))
                   else if starts {CHR ''}''} (skip_ws s2) then Some ([(k, j)], tl (skip_ws s2))
                   else None)
            else None)
      else None)"

definition syntax_error :: go_error where
  "syntax_error = ErrText ''invalid JSON''"

definition json_parse :: "string \<Rightarrow> go_error + json" where
  "json_parse s =
     (case read_value (Suc (2 * length s)) 0 s of
        None \<Rightarrow> Inl syntax_error
      | Some (j, t) \<Rightarrow> if skip_ws t = [] then Inr j else Inl syntax_error)"

text \<open>Everything that is read shortens the text.\<close>

lemma scan_num_length:
  assumes "scan_num s = Some (lit, t)"
  shows "length t < length s"
proof -
  obtain i s1 f s2 e where i: "scan_int (drop (length (num_sign s)) s) = Some (i, s1)"
    and f: "scan_frac s1 = Some (f, s2)" and e: "scan_exp s2 = Some (e, t)"
    using assms by (auto simp: scan_num_iff)
  have "length s1 < length (drop (length (num_sign s)) s)"
    using i by (cases "drop (length (num_sign s)) s")
      (auto simp: scan_int_def less_Suc_eq_le length_dropWhile_le split: if_splits)
  moreover have "length s2 \<le> length s1"
    using f length_dropWhile_le [of is_digit "tl s1"] by (cases s1) (auto simp: scan_frac_def split: if_splits)
  ultimately show ?thesis using scan_exp_length [OF e] by simp
qed

lemma skip_ws_length: "length (skip_ws s) \<le> length s"
  by (rule length_dropWhile_le)

lemma starts_tl_length: "starts C (skip_ws s) \<Longrightarrow> Suc (length (tl (skip_ws s))) \<le> length s"
  using skip_ws_length [of s] by (cases "skip_ws s") auto

lemma skip_ws_Cons_length: "skip_ws s = c # s1 \<Longrightarrow> Suc (length s1) \<le> length s"
  using skip_ws_length [of s] by simp

lemma read_length:
  "read_value n d s = Some (j, t) \<Longrightarrow> length t < length s"
  "read_elems n d s = Some (js, t) \<Longrightarrow> length t < length s"
  "read_members n d s = Some (kvs, t) \<Longrightarrow> length t < length s"
proof (induction n d s and n d s and n d s arbitrary: j t and js t and kvs t
    rule: read_value_read_elems_read_members.induct)
  case (2 n d s)
  obtain c s1 where s1: "skip_ws s = c # s1" using "2.prems" by (auto split: list.splits)
  have less: "Suc (length s1) \<le> length s" by (rule skip_ws_Cons_length [OF s1])
  have elems: "length t < length s" if "c = CHR ''[''" "\<not> max_nesting \<le> d" "\<not> starts {CHR '']''} (skip_ws s1)"
      "read_elems n (Suc d) s1 = Some (js, t)" for js
    using "2.IH"(1) [OF s1 _ that] that(1) less by simp
  have members: "length t < length s" if "c = CHR ''{''" "\<not> max_nesting \<le> d" "\<not> starts {CHR ''}''} (skip_ws s1)"
      "read_members n (Suc d) s1 = Some (kvs, t)" for kvs
    using "2.IH"(2) [OF s1 _ _ that] that(1) less by simp
  have close: "starts C (skip_ws s1) \<Longrightarrow> length (tl (skip_ws s1)) < length s" for C
    using starts_tl_length [of C s1] less by simp
  show ?case using "2.prems" s1 less
    by (auto split: if_split_asm dest!: read_string_length scan_num_length intro: close elems members)
next
  case (4 n d s)
  obtain j s1 where v: "read_value n d s = Some (j, s1)" using "4.prems" by (auto split: option.splits)
  have less: "length s1 < length s" by (rule "4.IH"(1) [OF v])
  show ?case
  proof (cases "starts {CHR '',''} (skip_ws s1)")
    case True
    then obtain js' where "read_elems n d (tl (skip_ws s1)) = Some (js', t)" using "4.prems" v by auto
    then have "length t < length (tl (skip_ws s1))" by (rule "4.IH"(2) [OF v refl True])
    then show ?thesis using starts_tl_length [OF True] less by simp
  next
    case False
    then have "t = tl (skip_ws s1)" "starts {CHR '']''} (skip_ws s1)" using "4.prems" v by (auto split: if_split_asm)
    then show ?thesis using starts_tl_length less by fastforce
  qed
next
  case (6 n d s)
  have q: "starts {quot} (skip_ws s)" using "6.prems" by (auto split: if_split_asm)
  obtain k s1 where k: "read_string (tl (skip_ws s)) = Some (k, s1)" using "6.prems" q by (auto split: option.splits)
  have c: "starts {CHR '':''} (skip_ws s1)" using "6.prems" q k by (auto split: if_split_asm)
  obtain j s2 where v: "read_value n d (tl (skip_ws s1)) = Some (j, s2)" using "6.prems" q k c by (auto split: option.splits)
  have less: "length s2 < length s"
    using "6.IH"(1) [OF q k refl c v] read_string_length [OF k] starts_tl_length [OF q] starts_tl_length [OF c] by linarith
  show ?case
  proof (cases "starts {CHR '',''} (skip_ws s2)")
    case True
    then obtain kvs' where "read_members n d (tl (skip_ws s2)) = Some (kvs', t)" using "6.prems" q k c v by auto
    then have "length t < length (tl (skip_ws s2))" by (rule "6.IH"(2) [OF q k refl c v refl True])
    then show ?thesis using starts_tl_length [OF True] less by simp
  next
    case False
    then have "t = tl (skip_ws s2)" "starts {CHR ''}''} (skip_ws s2)" using "6.prems" q k c v by (auto split: if_split_asm)
    then show ?thesis using starts_tl_length less by fastforce
  qed
qed simp_all

text \<open>More fuel than twice the length of the text changes nothing.\<close>

lemma read_value_fuel:
  "2 * length s < n \<Longrightarrow> 2 * length s < m \<Longrightarrow> read_value n d s = read_value m d s"
  "2 * length s + 1 < n \<Longrightarrow> 2 * length s + 1 < m \<Longrightarrow> read_elems n d s = read_elems m d s"
  "2 * length s + 1 < n \<Longrightarrow> 2 * length s + 1 < m \<Longrightarrow> read_members n d s = read_members m d s"
proof (induction n d s and n d s and n d s arbitrary: m and m and m rule: read_value_read_elems_read_members.induct)
  case (2 n d s)
  obtain m' where m: "m = Suc m'" using "2.prems"(2) by (cases m) auto
  show ?case
  proof (cases "skip_ws s")
    case (Cons c s1)
    have less: "Suc (length s1) \<le> length s" by (rule skip_ws_Cons_length [OF Cons])
    have "read_elems n (Suc d) s1 = read_elems m' (Suc d) s1"
      if "c = CHR ''[''" "\<not> max_nesting \<le> d" "\<not> starts {CHR '']''} (skip_ws s1)"
      using "2.IH"(1) [OF Cons _ that] that(1) less "2.prems" m by simp
    moreover have "read_members n (Suc d) s1 = read_members m' (Suc d) s1"
      if "c = CHR ''{''" "\<not> max_nesting \<le> d" "\<not> starts {CHR ''}''} (skip_ws s1)"
      using "2.IH"(2) [OF Cons _ _ that] that(1) less "2.prems" m by simp
    ultimately show ?thesis unfolding m read_value.simps Cons list.case by (intro if_cong refl) simp_all
  qed (simp only: m read_value.simps list.case)
next
  case (4 n d s)
  obtain m' where m: "m = Suc m'" using "4.prems"(2) by (cases m) auto
  have v: "read_value n d s = read_value m' d s" using "4.IH"(1) [of m'] "4.prems" m by simp
  show ?case
  proof (cases "read_value n d s")
    case (Some p)
    obtain j s1 where p: "p = (j, s1)" by force
    have less: "length s1 < length s" using read_length(1) Some p by blast
    have "read_elems n d (tl (skip_ws s1)) = read_elems m' d (tl (skip_ws s1))" if c: "starts {CHR '',''} (skip_ws s1)"
      using "4.IH"(2) [OF Some [unfolded p] refl c, of m'] starts_tl_length [OF c] less "4.prems" m by simp
    then show ?thesis using Some v by (simp add: m p)
  qed (use v in \<open>simp add: m\<close>)
next
  case (6 n d s)
  obtain m' where m: "m = Suc m'" using "6.prems"(2) by (cases m) auto
  show ?case
  proof (cases "starts {quot} (skip_ws s) \<and> (\<exists>k s1. read_string (tl (skip_ws s)) = Some (k, s1) \<and> starts {CHR '':''} (skip_ws s1))")
    case True
    then obtain k s1 where q: "starts {quot} (skip_ws s)" and k: "read_string (tl (skip_ws s)) = Some (k, s1)"
      and c: "starts {CHR '':''} (skip_ws s1)" by blast
    have less: "length (tl (skip_ws s1)) < length s"
      using read_string_length [OF k] starts_tl_length [OF q] starts_tl_length [OF c] by linarith
    have v: "read_value n d (tl (skip_ws s1)) = read_value m' d (tl (skip_ws s1))"
      using "6.IH"(1) [OF q k refl c, of m'] less "6.prems" m by simp
    show ?thesis
    proof (cases "read_value n d (tl (skip_ws s1))")
      case (Some p)
      obtain j s2 where p: "p = (j, s2)" by force
      have less2: "length s2 < length s" using read_length(1) [OF Some [unfolded p]] less by simp
      have "read_members n d (tl (skip_ws s2)) = read_members m' d (tl (skip_ws s2))" if cc: "starts {CHR '',''} (skip_ws s2)"
        using "6.IH"(2) [OF q k refl c Some [unfolded p] refl cc, of m'] starts_tl_length [OF cc] less2 "6.prems" m by simp
      then show ?thesis using Some v q k c by (simp add: m p)
    qed (use v q k c in \<open>simp add: m\<close>)
  next
    case False
    then show ?thesis by (auto simp: m split: option.splits)
  qed
qed simp_all

section \<open>A value that was written is read\<close>

text \<open>The value with every string as valid UTF-8; the depth of its nesting; its number literals.\<close>

fun json_clean :: "json \<Rightarrow> json" where
  "json_clean (JStr s) = JStr (sanitize s)"
| "json_clean (JArr js) = JArr (map json_clean js)"
| "json_clean (JObj kvs) = JObj (map (\<lambda>(k, j). (sanitize k, json_clean j)) kvs)"
| "json_clean j = j"

fun json_depth :: "json \<Rightarrow> nat" where
  "json_depth (JArr js) = Suc (fold max (map json_depth js) 0)"
| "json_depth (JObj kvs) = Suc (fold max (map (\<lambda>(k, j). json_depth j) kvs) 0)"
| "json_depth j = 0"

fun json_nums :: "json \<Rightarrow> bool" where
  "json_nums (JNum lit) = num_lit lit"
| "json_nums (JArr js) = list_all json_nums js"
| "json_nums (JObj kvs) = list_all (\<lambda>(k, j). json_nums j) kvs"
| "json_nums j = True"

lemma fold_max_le: "fold max xs a \<le> (b::nat) \<longleftrightarrow> a \<le> b \<and> (\<forall>x \<in> set xs. x \<le> b)"
  by (induction xs arbitrary: a) auto

lemma num_lit_start:
  assumes "num_lit lit"
  obtains c s where "lit = c # s" and "c = CHR ''-'' \<or> is_digit c"
proof -
  obtain i s1 f s2 e where i: "scan_int (drop (length (num_sign lit)) lit) = Some (i, s1)"
    and lit: "lit = num_sign lit @ i @ f @ e"
    using assms by (auto simp: num_lit_def scan_num_iff)
  have "takeWhile is_digit u \<noteq> [] \<Longrightarrow> is_digit (hd (takeWhile is_digit u))" for u
    by (cases u) auto
  then have "i \<noteq> [] \<and> is_digit (hd i)"
    using i by (auto simp: scan_int_def is_digit_def [of "CHR ''0''"] split: if_splits)
  then show ?thesis using that lit by (cases i) (auto simp: num_sign_def split: if_splits)
qed

lemma num_lit_text:
  assumes "num_lit lit" and "delim rest"
  shows "read_value (Suc n) d (lit @ rest) = Some (JNum lit, rest)"
proof -
  obtain c s where lit: "lit = c # s" and c: "c = CHR ''-'' \<or> is_digit c"
    by (rule num_lit_start [OF assms(1)])
  have ws: "skip_ws (lit @ rest) = c # s @ rest" using c by (auto simp: lit is_space_def is_digit_def)
  have "c \<noteq> quot" "c \<noteq> CHR ''[''" "c \<noteq> CHR ''{''" "c \<noteq> CHR ''t''" "c \<noteq> CHR ''f''" "c \<noteq> CHR ''n''"
    using c by (auto simp: is_digit_def)
  then show ?thesis unfolding read_value.simps ws list.case
    using scan_num_delim [OF assms] by (simp add: lit)
qed

lemma delim_simps [simp]:
  "delim []" "delim (CHR '','' # s)" "delim (CHR '']'' # s)" "delim (CHR ''}'' # s)" "delim (CHR 0x0A # s)"
  by (simp_all add: delim_def)

lemma punct_not_space [simp]:
  "\<not> is_space (CHR '','')" "\<not> is_space (CHR '']'')" "\<not> is_space (CHR ''}'')" "\<not> is_space (CHR '':'')"
  "\<not> is_space quot" "\<not> is_space (CHR ''['')" "\<not> is_space (CHR ''{'')"
  by (simp_all add: is_space_def)

lemma read_quoted [simp]: "read_string (escape s @ quot # rest) = Some (sanitize s, rest)"
  by (rule read_escape)

text \<open>A value's text starts with no space and no closing bracket.\<close>

lemma json_text_start:
  "json_nums j \<Longrightarrow> \<exists>c s. json_text j = c # s \<and> \<not> is_space c \<and> c \<noteq> CHR '']''"
proof (cases j)
  case (JNum lit)
  assume "json_nums j"
  then show ?thesis using JNum by (auto simp: is_space_def is_digit_def elim!: num_lit_start)
qed (auto simp: is_space_def json_quote_def)

lemma elems_text_start: "js \<noteq> [] \<Longrightarrow> list_all json_nums js \<Longrightarrow> \<not> starts {CHR '']''} (skip_ws (elems_text js @ rest))"
  using json_text_start by (cases js) fastforce+

lemma members_text_start: "kvs \<noteq> [] \<Longrightarrow> \<not> starts {CHR ''}''} (skip_ws (members_text kvs @ rest))"
  by (cases kvs) (auto simp: json_quote_def)

lemma Suc_le_ex: "Suc n \<le> m \<longleftrightarrow> (\<exists>k. m = Suc k \<and> n \<le> k)"
  by (cases m) auto

lemma read_json_text:
  "json_nums j \<Longrightarrow> d + json_depth j \<le> max_nesting \<Longrightarrow>
     \<exists>n. \<forall>m \<ge> n. \<forall>rest. delim rest \<longrightarrow> read_value m d (json_text j @ rest) = Some (json_clean j, rest)"
  "js \<noteq> [] \<Longrightarrow> list_all json_nums js \<Longrightarrow> \<forall>j \<in> set js. d + json_depth j \<le> max_nesting \<Longrightarrow>
     \<exists>n. \<forall>m \<ge> n. \<forall>rest. read_elems m d (elems_text js @ CHR '']'' # rest) = Some (map json_clean js, rest)"
  "kvs \<noteq> [] \<Longrightarrow> list_all (\<lambda>(k, j). json_nums j) kvs \<Longrightarrow> \<forall>(k, j) \<in> set kvs. d + json_depth j \<le> max_nesting \<Longrightarrow>
     \<exists>n. \<forall>m \<ge> n. \<forall>rest. read_members m d (members_text kvs @ CHR ''}'' # rest) =
       Some (map (\<lambda>(k, j). (sanitize k, json_clean j)) kvs, rest)"
proof (induction j and js and kvs arbitrary: d and d and d rule: json_text_elems_text_members_text.induct)
  case 1
  show ?case by (intro exI [of _ 1]) (auto simp: Suc_le_eq gr0_conv_Suc is_space_def)
next
  case (2 b)
  show ?case by (intro exI [of _ 1]) (auto simp: Suc_le_eq gr0_conv_Suc is_space_def)
next
  case (3 lit)
  then show ?case using num_lit_text by (intro exI [of _ 1]) (auto simp: Suc_le_eq gr0_conv_Suc)
next
  case (4 s)
  show ?case by (intro exI [of _ 1]) (auto simp: Suc_le_eq gr0_conv_Suc json_quote_def)
next
  case (5 js)
  have deep: "\<forall>j \<in> set js. Suc d + json_depth j \<le> max_nesting" "d < max_nesting"
    using "5.prems"(2) fold_max_le [of "map json_depth js" 0 "max_nesting - Suc d"] by fastforce+
  show ?case
  proof (cases "js = []")
    case True
    then show ?thesis using deep(2) by (intro exI [of _ 1]) (auto simp: Suc_le_eq gr0_conv_Suc)
  next
    case False
    then obtain n where n: "\<And>m rest. n \<le> m \<Longrightarrow> read_elems m (Suc d) (elems_text js @ CHR '']'' # rest) = Some (map json_clean js, rest)"
      using "5.IH" [OF False _ deep(1)] "5.prems"(1) by auto
    have "\<not> starts {CHR '']''} (skip_ws (elems_text js @ CHR '']'' # rest))" for rest
      using elems_text_start [OF False] "5.prems"(1) by simp
    then show ?thesis using n deep(2)
      by (intro exI [of _ "Suc n"]) (auto simp: Suc_le_ex)
  qed
next
  case (6 kvs)
  have deep: "\<forall>(k, j) \<in> set kvs. Suc d + json_depth j \<le> max_nesting" "d < max_nesting"
    using "6.prems"(2) fold_max_le [of "map (\<lambda>(k, j). json_depth j) kvs" 0 "max_nesting - Suc d"] by fastforce+
  show ?case
  proof (cases "kvs = []")
    case True
    then show ?thesis using deep(2) by (intro exI [of _ 1]) (auto simp: Suc_le_eq gr0_conv_Suc)
  next
    case False
    then obtain n where n: "\<And>m rest. n \<le> m \<Longrightarrow> read_members m (Suc d) (members_text kvs @ CHR ''}'' # rest) =
        Some (map (\<lambda>(k, j). (sanitize k, json_clean j)) kvs, rest)"
      using "6.IH" [OF False _ deep(1)] "6.prems"(1) by auto
    have "\<not> starts {CHR ''}''} (skip_ws (members_text kvs @ CHR ''}'' # rest))" for rest
      using members_text_start [OF False] by simp
    then show ?thesis using n deep(2)
      by (intro exI [of _ "Suc n"])
        (auto simp: Suc_le_ex)
  qed
next
  case (8 j js)
  obtain n1 where n1: "\<And>m rest. n1 \<le> m \<Longrightarrow> delim rest \<Longrightarrow> read_value m d (json_text j @ rest) = Some (json_clean j, rest)"
    using "8.IH"(1) [of d] "8.prems" by auto
  show ?case
  proof (cases "js = []")
    case True
    then show ?thesis using n1 by (intro exI [of _ "Suc n1"]) (auto simp: Suc_le_ex)
  next
    case False
    then obtain n2 where "\<And>m rest. n2 \<le> m \<Longrightarrow> read_elems m d (elems_text js @ CHR '']'' # rest) = Some (map json_clean js, rest)"
      using "8.IH"(2) [OF False False, of d] "8.prems" by auto
    then show ?thesis using n1 False by (intro exI [of _ "Suc (max n1 n2)"]) (auto simp: Suc_le_ex)
  qed
next
  case (10 k j kvs)
  obtain n1 where n1: "\<And>m rest. n1 \<le> m \<Longrightarrow> delim rest \<Longrightarrow> read_value m d (json_text j @ rest) = Some (json_clean j, rest)"
    using "10.IH"(1) [of d] "10.prems" by auto
  show ?case
  proof (cases "kvs = []")
    case True
    then show ?thesis using n1 by (intro exI [of _ "Suc n1"]) (auto simp: json_quote_def Suc_le_ex)
  next
    case False
    then obtain n2 where "\<And>m rest. n2 \<le> m \<Longrightarrow> read_members m d (members_text kvs @ CHR ''}'' # rest) =
        Some (map (\<lambda>(k, j). (sanitize k, json_clean j)) kvs, rest)"
      using "10.IH"(2) [OF False False, of d] "10.prems" by auto
    then show ?thesis using n1 False by (intro exI [of _ "Suc (max n1 n2)"]) (auto simp: json_quote_def Suc_le_ex)
  qed
qed simp_all

text \<open>Also with the line break that the encoder of a stream adds.\<close>

lemma json_parse_rest:
  assumes "json_nums j" and "json_depth j \<le> max_nesting" and "delim rest" and "skip_ws rest = []"
  shows "json_parse (json_text j @ rest) = Inr (json_clean j)"
proof -
  obtain n where n: "\<And>m. n \<le> m \<Longrightarrow> read_value m 0 (json_text j @ rest) = Some (json_clean j, rest)"
    using read_json_text(1) [OF assms(1), of 0] assms(2,3) by auto
  let ?m = "Suc (2 * length (json_text j @ rest))"
  have "read_value ?m 0 (json_text j @ rest) = read_value (n + ?m) 0 (json_text j @ rest)"
    by (rule read_value_fuel(1)) simp_all
  then show ?thesis using n [of "n + ?m"] assms(4) by (simp add: json_parse_def del: read_value.simps)
qed

theorem json_parse_text:
  assumes "json_nums j" and "json_depth j \<le> max_nesting"
  shows "json_parse (json_text j) = Inr (json_clean j)"
  using json_parse_rest [OF assms, of "[]"] by simp

end
