(* ===== verification/Go_Number.thy ===== *)
theory Go_Number
  imports Go_Json
begin

text \<open>
  Numbers as JSON literals: integers in decimal, and \<open>float64\<close> values with the fewest digits that
  give the value back, as \<open>json.Marshal\<close> writes them and \<open>strconv.ParseFloat\<close> reads them.
\<close>

section \<open>The shortest decimal\<close>

text \<open>The decimal exponent of a positive number: \<open>10 ^ e \<le> q < 10 ^ (e + 1)\<close>.\<close>

definition dec_exp :: "rat \<Rightarrow> int" where
  "dec_exp q =
     (if 1 \<le> q then int (length (udigits \<lfloor>q\<rfloor>)) - 1 else - int (length (udigits (\<lceil>1 / q\<rceil> - 1))))"

definition decimal :: "int \<times> int \<Rightarrow> rat" where
  "decimal mk = of_int (fst mk) * 10 powi snd mk"

text \<open>
  With \<open>n\<close> digits: the nearest decimal when it is read as \<open>q\<close>, else the one on the other side,
  else one digit more.  The fuel reaches the exact value (\<open>shortest_reads\<close>).
\<close>

fun shortest_from :: "nat \<Rightarrow> nat \<Rightarrow> rat \<Rightarrow> int \<Rightarrow> int \<times> int" where
  "shortest_from fuel n q e =
     (let k = e - int n + 1; x = q * 10 powi (- k); m = rne x;
          m' = (if m = \<lfloor>x\<rfloor> then \<lfloor>x\<rfloor> + 1 else \<lfloor>x\<rfloor>)
      in if round64 (decimal (m, k)) = FFin q then (m, k)
         else if round64 (decimal (m', k)) = FFin q then (m', k)
         else case fuel of 0 \<Rightarrow> (m, k) | Suc fuel' \<Rightarrow> shortest_from fuel' (Suc n) q e)"

declare shortest_from.simps [simp del]

definition shortest :: "rat \<Rightarrow> int \<times> int" where
  "shortest q = shortest_from (nat (dec_exp q + 1075)) 1 q (dec_exp q)"

section \<open>Texts\<close>

text \<open>The digits without trailing zeros, and the position of the decimal point.\<close>

definition dec_digits :: "int \<times> int \<Rightarrow> string \<times> int" where
  "dec_digits mk = (strip_zeros (udigits (fst mk)), int (length (udigits (fst mk))) + snd mk)"

definition text_f :: "string \<Rightarrow> int \<Rightarrow> string" where
  "text_f ds dp =
     (if dp \<le> 0 then ''0.'' @ replicate (nat (- dp)) (CHR ''0'') @ ds
      else if int (length ds) \<le> dp then ds @ replicate (nat dp - length ds) (CHR ''0'')
      else take (nat dp) ds @ CHR ''.'' # drop (nat dp) ds)"

text \<open>JSON writes the exponent without a leading zero.\<close>

definition text_e :: "string \<Rightarrow> int \<Rightarrow> string" where
  "text_e ds dp =
     hd ds # (if tl ds = [] then [] else CHR ''.'' # tl ds) @
     CHR ''e'' # (if dp < 1 then CHR ''-'' else CHR ''+'') # udigits \<bar>dp - 1\<bar>"

definition float_text_abs :: "rat \<Rightarrow> string" where
  "float_text_abs q =
     (let (ds, dp) = dec_digits (shortest q) in
      if f_lt (FFin q) (round64 (1 / 10 ^ 6)) \<or> 10 ^ 21 \<le> q then text_e ds dp else text_f ds dp)"

definition float_text :: "rat \<Rightarrow> string" where
  "float_text q =
     (if q = 0 then ''0'' else if q < 0 then CHR ''-'' # float_text_abs (- q) else float_text_abs q)"

text \<open>The value of a literal, and \<open>ParseFloat\<close>, which is exact before it rounds.\<close>

definition exp_value :: "string \<Rightarrow> int" where
  "exp_value s =
     (if s = [] then 0
      else if starts {CHR ''-''} (tl s) then - dval (tl (tl s))
      else if starts {CHR ''+''} (tl s) then dval (tl (tl s))
      else dval (tl s))"

definition abs_value :: "string \<Rightarrow> rat" where
  "abs_value s =
     (let i = takeWhile is_digit s; s1 = dropWhile is_digit s;
          f = (if starts {CHR ''.''} s1 then takeWhile is_digit (tl s1) else []);
          s2 = (if starts {CHR ''.''} s1 then dropWhile is_digit (tl s1) else s1)
      in of_int (dval (i @ f)) * 10 powi (exp_value s2 - int (length f)))"

definition num_value :: "string \<Rightarrow> rat" where
  "num_value s = (if starts {CHR ''-''} s then - abs_value (tl s) else abs_value s)"

definition parse_float :: "string \<Rightarrow> f64 result" where
  "parse_float s =
     (case round64 (num_value s) of
        FFin q \<Rightarrow> Inr (FFin q)
      | _ \<Rightarrow> Inl (ErrText (''strconv.ParseFloat: parsing '' @ s @ '': value out of range'')))"

section \<open>The shortest decimal is read as the value\<close>

text \<open>Every binary64 value is a multiple of \<open>2 ^ -1074\<close>.\<close>

lemma f64_multiple:
  assumes "round64 q = FFin q"
  shows "\<exists>n. q = of_int n * 2 powi (-1074)"
proof (cases "q = 0")
  case False
  have "rval q = q" using assms False by (auto simp: round64_def Let_def split: if_splits)
  then have q: "q = of_int (rne (q / ulp64 q)) * ulp64 q" using False by (simp add: rval_def)
  define j where "j = nat (max (flog2 \<bar>q\<bar>) (-1022) + 1022)"
  have "-1022 \<le> max (flog2 \<bar>q\<bar>) (-1022)" by (rule max.cobounded2)
  then have "max (flog2 \<bar>q\<bar>) (-1022) - 52 = int j + (-1074)" unfolding j_def by linarith
  then have "ulp64 q = 2 powi (int j + (-1074))" by (simp only: ulp64_def)
  also have "\<dots> = 2 powi int j * 2 powi (-1074)" by (rule power_int_add) simp
  also have "\<dots> = 2 ^ j * 2 powi (-1074)" by (simp only: power_int_of_nat)
  finally have "q = of_int (rne (q / ulp64 q) * 2 ^ j) * 2 powi (-1074)"
    using q by (simp only: of_int_mult of_int_power of_int_numeral mult.assoc)
  then show ?thesis by blast
qed simp

lemma decimal_exact:
  fixes q :: rat
  assumes "q = of_int n * 2 powi (- int N)" and "int N \<le> j"
  shows "\<exists>n. q * 10 powi j = of_int n"
proof -
  obtain m where j: "j = int (m + N)" using assms(2) zero_le_imp_eq_int [of "j - int N"] by (auto simp: algebra_simps)
  have "(10::rat) powi j = 10 ^ m * (2 ^ N * 5 ^ N)"
    unfolding j power_int_of_nat power_add by (simp add: power_mult_distrib [symmetric])
  then have "q * 10 powi j = of_int (n * 10 ^ m * 5 ^ N)" by (simp add: assms(1) power_int_minus)
  then show ?thesis by blast
qed

lemma f64_decimal_exact:
  assumes "round64 q = FFin q" and "1074 \<le> j"
  shows "\<exists>n. q * 10 powi j = of_int n"
proof -
  obtain n where "q = of_int n * 2 powi (- int 1074)" using f64_multiple [OF assms(1)] by auto
  then show ?thesis by (rule decimal_exact) (use assms(2) in simp)
qed

lemma shortest_from_reads:
  assumes "round64 q = FFin q" and "1074 \<le> int (n + fuel) - 1 - e"
  shows "round64 (decimal (shortest_from fuel n q e)) = FFin q"
  using assms(2)
proof (induction fuel arbitrary: n)
  case 0
  define k where "k = e - int n + 1"
  obtain z where z: "q * 10 powi (- k) = of_int z"
    using f64_decimal_exact [OF assms(1), of "- k"] 0 by (auto simp: k_def)
  have "decimal (rne (q * 10 powi (- k)), k) = q * 10 powi (- k) * 10 powi k"
    unfolding decimal_def fst_conv snd_conv z rne_of_int ..
  also have "\<dots> = q" by (simp add: power_int_minus)
  finally show ?case using assms(1) by (simp add: shortest_from.simps [of 0 n q e] Let_def k_def [symmetric])
next
  case (Suc fuel)
  then show ?case by (subst shortest_from.simps) (simp add: Let_def)
qed

lemma shortest_reads: "round64 q = FFin q \<Longrightarrow> round64 (decimal (shortest q)) = FFin q"
  unfolding shortest_def by (rule shortest_from_reads) auto

lemma shortest_from_nonneg: "0 < q \<Longrightarrow> 0 \<le> fst (shortest_from fuel n q e)"
proof (induction fuel arbitrary: n)
  case 0
  have "0 \<le> rne (q * 10 powi j)" "0 \<le> \<lfloor>q * 10 powi j\<rfloor>" for j
    using rne_cases [of "q * 10 powi j"] 0 by (auto simp: add_nonneg_nonneg)
  then show ?case by (subst shortest_from.simps) (simp add: Let_def)
next
  case (Suc fuel)
  have "0 \<le> rne (q * 10 powi j)" "0 \<le> \<lfloor>q * 10 powi j\<rfloor>" for j
    using rne_cases [of "q * 10 powi j"] Suc.prems by (auto simp: add_nonneg_nonneg)
  then show ?case using Suc by (subst shortest_from.simps) (simp add: Let_def)
qed

lemma shortest_pos:
  assumes "round64 q = FFin q" and "0 < q"
  shows "0 < fst (shortest q)"
proof -
  have "fst (shortest q) \<noteq> 0"
    using shortest_reads [OF assms(1)] assms(2) by (auto simp: decimal_def round64_def rval_def)
  then show ?thesis using shortest_from_nonneg [OF assms(2)] by (simp add: shortest_def order_less_le)
qed

section \<open>The text is read as the value\<close>

lemma dval_append: "dval (s @ t) = dval s * 10 ^ length t + dval t"
proof -
  have step: "foldl (\<lambda>a c. 10 * a + (of_char c - 48)) a t = a * 10 ^ length t + dval t" for a :: int
  proof (induction t arbitrary: a rule: rev_induct)
    case (snoc c t)
    have "foldl (\<lambda>a c. 10 * a + (of_char c - 48)) a (t @ [c]) = 10 * (a * 10 ^ length t + dval t) + (of_char c - 48)"
      by (simp only: foldl_append snoc.IH foldl.simps)
    moreover have "dval (t @ [c]) = 10 * dval t + (of_char c - 48)" by (simp add: dval_def)
    ultimately show ?case by simp
  qed (simp add: dval_def)
  have "dval (s @ t) = foldl (\<lambda>a c. 10 * a + (of_char c - 48)) (dval s) t" by (simp add: dval_def)
  then show ?thesis by (simp only: step)
qed

lemma dval_zeros [simp]: "dval (replicate n (CHR ''0'')) = 0"
  by (induction n) (simp_all add: dval_def)

lemma digits_udigits: "0 \<le> n \<Longrightarrow> list_all is_digit (udigits n)"
  using udigits_range [of n] by (auto simp: list_all_iff is_digit_def)

lemma udigits_start: "0 < n \<Longrightarrow> \<exists>c s. udigits n = c # s \<and> c \<noteq> CHR ''0''"
proof (induction n rule: udigits.induct)
  case (1 n)
  show ?case
  proof (cases "n < 10")
    case True
    then have "of_char (digit n) \<noteq> (48::int)" using "1.prems" by (simp add: digit_val)
    then show ?thesis using True by (auto simp: udigits.simps [of n])
  next
    case False
    then have "0 < n div 10" by (simp add: pos_imp_zdiv_pos_iff)
    then obtain c s where "udigits (n div 10) = c # s" "c \<noteq> CHR ''0''" using "1.IH" False by blast
    then show ?thesis using False by (simp add: udigits.simps [of n])
  qed
qed

lemma strip_zeros_split: "\<exists>z. s = strip_zeros s @ replicate z (CHR ''0'')"
proof -
  have "rev s = takeWhile (\<lambda>c. c = CHR ''0'') (rev s) @ dropWhile (\<lambda>c. c = CHR ''0'') (rev s)" by simp
  moreover have "takeWhile (\<lambda>c. c = CHR ''0'') (rev s) = replicate (length (takeWhile (\<lambda>c. c = CHR ''0'') (rev s))) (CHR ''0'')"
    by (rule replicate_length_same [symmetric]) (auto dest: set_takeWhileD)
  ultimately have "s = rev (dropWhile (\<lambda>c. c = CHR ''0'') (rev s)) @
      replicate (length (takeWhile (\<lambda>c. c = CHR ''0'') (rev s))) (CHR ''0'')"
    by (metis rev_append rev_replicate rev_rev_ident)
  then show ?thesis unfolding strip_zeros_def by blast
qed

text \<open>The digits and the point position of a positive decimal.\<close>

lemma dec_digits_value:
  assumes "0 < fst mk" and "dec_digits mk = (ds, dp)"
  shows "list_all is_digit ds \<and> ds \<noteq> [] \<and> hd ds \<noteq> CHR ''0'' \<and>
    decimal mk = of_int (dval ds) * 10 powi (dp - int (length ds))"
proof -
  obtain z where z: "udigits (fst mk) = ds @ replicate z (CHR ''0'')"
    using assms(2) strip_zeros_split [of "udigits (fst mk)"] by (auto simp: dec_digits_def)
  have dp: "dp = int (length ds) + int z + snd mk" using assms(2) z by (simp add: dec_digits_def)
  have "fst mk = dval ds * 10 ^ z" using dval_udigits [of "fst mk"] assms(1) by (simp add: z dval_append)
  then have "decimal mk = of_int (dval ds) * 10 ^ z * 10 powi snd mk" by (simp add: decimal_def)
  also have "\<dots> = of_int (dval ds) * 10 powi (dp - int (length ds))"
    by (simp add: dp power_int_add mult.assoc)
  finally have v: "decimal mk = of_int (dval ds) * 10 powi (dp - int (length ds))" .
  obtain c s where cs: "udigits (fst mk) = c # s" "c \<noteq> CHR ''0''" using udigits_start [OF assms(1)] by blast
  have "ds \<noteq> []" using z cs by (cases z) auto
  moreover have "list_all is_digit ds" using digits_udigits [of "fst mk"] assms(1) by (simp add: z)
  ultimately show ?thesis using v z cs by (cases ds) auto
qed

text \<open>What a literal is made of.\<close>

definition frac_part :: "string \<Rightarrow> string" where
  "frac_part f = (if f = [] then [] else CHR ''.'' # f)"

lemma takeWhile_digits:
  "list_all is_digit s \<Longrightarrow> t = [] \<or> \<not> is_digit (hd t) \<Longrightarrow>
     takeWhile is_digit (s @ t) = s \<and> dropWhile is_digit (s @ t) = t"
  by (induction s) (cases t; auto)+

lemma takeWhile_all_digits:
  "list_all is_digit s \<Longrightarrow> takeWhile is_digit s = s" "list_all is_digit s \<Longrightarrow> dropWhile is_digit s = []"
  using takeWhile_digits [of s "[]"] by simp_all

lemma digit_exponent [simp]:
  "\<not> is_digit (CHR ''.'')" "\<not> is_digit (CHR ''e'')" "\<not> is_digit (CHR ''-'')" "\<not> is_digit (CHR ''+'')"
  "is_digit (CHR ''0'')"
  by (simp_all add: is_digit_def)

lemma abs_value_parts:
  assumes "list_all is_digit i" and "list_all is_digit f" and "e = [] \<or> (\<exists>t. e = CHR ''e'' # t)"
  shows "abs_value (i @ frac_part f @ e) = of_int (dval (i @ f)) * 10 powi (exp_value e - int (length f))"
proof (cases "f = []")
  case True
  then show ?thesis using takeWhile_digits [OF assms(1), of e] assms(3)
    by (auto simp: abs_value_def frac_part_def Let_def takeWhile_all_digits [OF assms(1)])
next
  case False
  then show ?thesis
    using takeWhile_digits [OF assms(1), of "CHR ''.'' # f @ e"] takeWhile_digits [OF assms(2), of e] assms(3)
    by (auto simp: abs_value_def frac_part_def Let_def takeWhile_all_digits [OF assms(2)])
qed

lemma num_lit_parts:
  assumes "list_all is_digit i" and "i = ''0'' \<or> i \<noteq> [] \<and> hd i \<noteq> CHR ''0''" and "list_all is_digit f"
    and "e = [] \<or> (\<exists>sg ds. e = CHR ''e'' # sg # ds \<and> sg \<in> {CHR ''+'', CHR ''-''} \<and> list_all is_digit ds \<and> ds \<noteq> [])"
  shows "num_lit (i @ frac_part f @ e)" and "num_lit (CHR ''-'' # i @ frac_part f @ e)"
proof -
  have tail: "e = [] \<or> \<not> is_digit (hd e)" using assms(4) by auto
  have int: "scan_int (i @ frac_part f @ e) = Some (i, frac_part f @ e)"
    using assms(2) takeWhile_digits [OF assms(1), of "frac_part f @ e"] tail
    by (cases i) (auto simp: scan_int_def frac_part_def)
  have frac: "scan_frac (frac_part f @ e) = Some (frac_part f, e)"
    using takeWhile_digits [OF assms(3) tail] assms(4) by (auto simp: scan_frac_def frac_part_def)
  have exp: "scan_exp e = Some (e, [])"
    using assms(4) by (auto simp: scan_exp_eqs takeWhile_all_digits)
  have start: "\<not> starts {CHR ''-''} (i @ t)" for t
    using assms(1,2) by (cases i) auto
  show "num_lit (i @ frac_part f @ e)" "num_lit (CHR ''-'' # i @ frac_part f @ e)"
    using int frac exp start by (auto simp: num_lit_def scan_num_iff num_sign_def)
qed

lemma text_f_parts:
  assumes "list_all is_digit ds" and "ds \<noteq> []" and "hd ds \<noteq> CHR ''0''"
  obtains i f where "text_f ds dp = i @ frac_part f" and "list_all is_digit i" and "list_all is_digit f"
    and "i = ''0'' \<or> i \<noteq> [] \<and> hd i \<noteq> CHR ''0''"
    and "(of_int (dval (i @ f)) :: rat) * 10 powi (- int (length f)) = of_int (dval ds) * 10 powi (dp - int (length ds))"
proof -
  consider "dp \<le> 0" | "0 < dp" "int (length ds) \<le> dp" | "0 < dp" "dp < int (length ds)" by linarith
  then show ?thesis
  proof cases
    case 1
    show ?thesis
    proof (rule that [of "''0''" "replicate (nat (- dp)) (CHR ''0'') @ ds"])
      show "text_f ds dp = ''0'' @ frac_part (replicate (nat (- dp)) (CHR ''0'') @ ds)"
        using 1 assms(2) by (simp add: text_f_def frac_part_def)
      have "dval (''0'' @ replicate (nat (- dp)) (CHR ''0'') @ ds) = dval (replicate (Suc (nat (- dp))) (CHR ''0'') @ ds)"
        by simp
      also have "\<dots> = dval ds" by (simp only: dval_append dval_zeros)
      finally have "dval (''0'' @ replicate (nat (- dp)) (CHR ''0'') @ ds) = dval ds" .
      then show "(of_int (dval (''0'' @ replicate (nat (- dp)) (CHR ''0'') @ ds)) :: rat) *
          10 powi (- int (length (replicate (nat (- dp)) (CHR ''0'') @ ds))) = of_int (dval ds) * 10 powi (dp - int (length ds))"
        using 1 by simp
    qed (use assms(1) in \<open>auto simp: list_all_iff\<close>)
  next
    case 2
    show ?thesis
    proof (rule that [of "ds @ replicate (nat dp - length ds) (CHR ''0'')" "[]"])
      show "text_f ds dp = (ds @ replicate (nat dp - length ds) (CHR ''0'')) @ frac_part []"
        using 2 by (simp add: text_f_def frac_part_def)
      have "dp - int (length ds) = int (nat dp - length ds)" using 2 by simp
      then have "(10::rat) powi (dp - int (length ds)) = 10 ^ (nat dp - length ds)" by (simp only: power_int_of_nat)
      then show "(of_int (dval ((ds @ replicate (nat dp - length ds) (CHR ''0'')) @ [])) :: rat) * 10 powi (- int (length ([] :: string))) =
          of_int (dval ds) * 10 powi (dp - int (length ds))"
        by (simp add: dval_append)
    qed (use assms in \<open>auto simp: list_all_iff\<close>)
  next
    case 3
    show ?thesis
    proof (rule that [of "take (nat dp) ds" "drop (nat dp) ds"])
      show "text_f ds dp = take (nat dp) ds @ frac_part (drop (nat dp) ds)"
        using 3 by (simp add: text_f_def frac_part_def)
      show "take (nat dp) ds = ''0'' \<or> take (nat dp) ds \<noteq> [] \<and> hd (take (nat dp) ds) \<noteq> CHR ''0''"
        using 3 assms(2,3) by simp
      show "(of_int (dval (take (nat dp) ds @ drop (nat dp) ds)) :: rat) * 10 powi (- int (length (drop (nat dp) ds))) =
          of_int (dval ds) * 10 powi (dp - int (length ds))"
        using 3 by simp
      show "list_all is_digit (take (nat dp) ds)" "list_all is_digit (drop (nat dp) ds)"
        using assms(1) by (auto simp: list_all_iff dest: in_set_takeD in_set_dropD)
    qed
  qed
qed

lemma exp_value_text:
  "exp_value (CHR ''e'' # (if n < 0 then CHR ''-'' else CHR ''+'') # udigits \<bar>n\<bar>) = n"
  by (simp add: exp_value_def dval_udigits)

lemma float_text_abs_reads:
  assumes "round64 q = FFin q" and "0 < q"
  shows "num_lit (float_text_abs q) \<and> num_lit (CHR ''-'' # float_text_abs q) \<and>
    abs_value (float_text_abs q) = decimal (shortest q) \<and> \<not> starts {CHR ''-''} (float_text_abs q)"
proof -
  obtain ds dp where dd: "dec_digits (shortest q) = (ds, dp)" by force
  have ds: "list_all is_digit ds" "ds \<noteq> []" "hd ds \<noteq> CHR ''0''"
    and v: "decimal (shortest q) = of_int (dval ds) * 10 powi (dp - int (length ds))"
    using dec_digits_value [OF shortest_pos [OF assms] dd] by simp_all
  have no_minus: "\<not> starts {CHR ''-''} (i @ t)" if "list_all is_digit i" "i \<noteq> []" for i t
    using that by (cases i) auto
  show ?thesis
  proof (cases "f_lt (FFin q) (round64 (1 / 10 ^ 6)) \<or> 10 ^ 21 \<le> q")
    case True
    define e where "e = CHR ''e'' # (if dp - 1 < 0 then CHR ''-'' else CHR ''+'') # udigits \<bar>dp - 1\<bar>"
    have t: "float_text_abs q = [hd ds] @ frac_part (tl ds) @ e"
      using True dd by (simp add: float_text_abs_def text_e_def frac_part_def e_def)
    have i: "list_all is_digit [hd ds]" "list_all is_digit (tl ds)" using ds by (cases ds; simp)+
    have "e = [] \<or> (\<exists>sg es. e = CHR ''e'' # sg # es \<and> sg \<in> {CHR ''+'', CHR ''-''} \<and> list_all is_digit es \<and> es \<noteq> [])"
      using digits_udigits [of "\<bar>dp - 1\<bar>"] by (auto simp: e_def udigits.simps [of "\<bar>dp - 1\<bar>"])
    then have "num_lit (float_text_abs q)" "num_lit (CHR ''-'' # float_text_abs q)"
      unfolding t using num_lit_parts [OF i(1) _ i(2)] ds(3) by auto
    moreover have "abs_value (float_text_abs q) = of_int (dval ([hd ds] @ tl ds)) * 10 powi (exp_value e - int (length (tl ds)))"
      unfolding t by (rule abs_value_parts [OF i]) (simp add: e_def)
    moreover have "exp_value e - int (length (tl ds)) = dp - int (length ds)" using ds(2) exp_value_text [of "dp - 1"] unfolding e_def by (cases ds) simp_all
    ultimately show ?thesis using ds(2) v no_minus [OF i(1)] by (simp add: t)
  next
    case False
    obtain i f where t: "text_f ds dp = i @ frac_part f" and i: "list_all is_digit i" "list_all is_digit f"
      "i = ''0'' \<or> i \<noteq> [] \<and> hd i \<noteq> CHR ''0''"
      and val: "(of_int (dval (i @ f)) :: rat) * 10 powi (- int (length f)) = of_int (dval ds) * 10 powi (dp - int (length ds))"
      using text_f_parts [OF ds] by blast
    have ft: "float_text_abs q = i @ frac_part f @ []" using False dd t by (simp add: float_text_abs_def)
    have "abs_value (float_text_abs q) = of_int (dval (i @ f)) * 10 powi (exp_value [] - int (length f))"
      unfolding ft by (rule abs_value_parts [OF i(1,2)]) simp
    moreover have "num_lit (float_text_abs q)" "num_lit (CHR ''-'' # float_text_abs q)"
      unfolding ft using num_lit_parts [OF i(1,3,2), of "[]"] by auto
    ultimately show ?thesis using val v no_minus [OF i(1)] i(3) by (auto simp: exp_value_def ft)
  qed
qed

theorem float_text_reads:
  assumes "round64 q = FFin q"
  shows "num_lit (float_text q)" and "parse_float (float_text q) = Inr (FFin q)"
proof -
  have "num_lit (float_text q) \<and> parse_float (float_text q) = Inr (FFin q)"
  proof (cases q "0::rat" rule: linorder_cases)
    case less
    have r: "round64 (- q) = FFin (- q)" using assms by (simp add: round64_minus)
    have "num_value (float_text q) = - decimal (shortest (- q))" "num_lit (float_text q)"
      using less float_text_abs_reads [OF r] by (simp_all add: float_text_def num_value_def)
    then show ?thesis using shortest_reads [OF r] by (simp add: parse_float_def round64_minus)
  next
    case equal
    have "num_lit ''0''" by code_simp
    moreover have "num_value ''0'' = 0" by (simp add: num_value_def abs_value_def exp_value_def dval_def)
    ultimately show ?thesis using equal by (simp add: float_text_def parse_float_def round64_def)
  next
    case greater
    then show ?thesis using float_text_abs_reads [OF assms] shortest_reads [OF assms]
      by (simp add: float_text_def num_value_def parse_float_def)
  qed
  then show "num_lit (float_text q)" "parse_float (float_text q) = Inr (FFin q)" by blast+
qed

lemma itoa_num_lit: "num_lit (itoa n)"
proof (cases "n = 0")
  case True
  show ?thesis unfolding True by code_simp
next
  case False
  have "num_lit (udigits \<bar>n\<bar> @ frac_part [] @ [])" "num_lit (CHR ''-'' # udigits \<bar>n\<bar> @ frac_part [] @ [])"
    by (rule num_lit_parts; use False digits_udigits [of "\<bar>n\<bar>"] udigits_start [of "\<bar>n\<bar>"] in auto)+
  then show ?thesis by (cases "n < 0") (simp_all add: itoa_def frac_part_def)
qed

end
