(* ===== verification/Go_Rfc3339.thy ===== *)
theory Go_Rfc3339
  imports Go_Number
begin

text \<open>
  Instants as texts (package time): the civil date of a day, the formats RFC 3339 and
  \<open>Time.String\<close>, and the parser, which also takes one-digit hours and a comma before the fraction.
  A location is its offset from UTC, in seconds, at every instant.
\<close>

type_synonym zone = "gotime \<Rightarrow> int"

definition UTC :: zone where "UTC t = 0"

section \<open>Days and dates\<close>

definition leap_year :: "int \<Rightarrow> bool" where
  "leap_year y \<longleftrightarrow> y mod 4 = 0 \<and> (y mod 100 \<noteq> 0 \<or> y mod 400 = 0)"

definition month_lengths :: "int \<Rightarrow> int list" where
  "month_lengths y = [31, if leap_year y then 29 else 28, 31, 30, 31, 30, 31, 31, 30, 31, 30, 31]"

text \<open>The month, counted from \<open>m\<close>, and the day of the month of a day counted from 0.\<close>

fun month_day :: "int list \<Rightarrow> int \<Rightarrow> int \<Rightarrow> int \<times> int" where
  "month_day [] m d = (m, d + 1)"
| "month_day (l # ls) m d = (if d < l then (m, d + 1) else month_day ls (m + 1) (d - l))"

text \<open>Day 0 is 1 January of year 1; the 400-year cycle has 146097 days.\<close>

definition civil :: "int \<Rightarrow> int \<times> int \<times> int" where
  "civil day =
     (let a = day div 146097; d1 = day mod 146097; b = min 3 (d1 div 36524); d2 = d1 - 36524 * b;
          c = d2 div 1461; d3 = d2 mod 1461; e = min 3 (d3 div 365);
          y = 400 * a + 100 * b + 4 * c + e + 1
      in (y, month_day (month_lengths y) 1 (d3 - 365 * e)))"

definition day_number :: "int \<Rightarrow> int \<Rightarrow> int \<Rightarrow> int" where
  "day_number y m d =
     365 * (y - 1) + (y - 1) div 4 - (y - 1) div 100 + (y - 1) div 400 +
     sum_list (take (nat (m - 1)) (month_lengths y)) + d - 1"

lemma month_day_range:
  assumes "0 \<le> d" and "d < sum_list ls" and "month_day ls m d = (m', d')"
  shows "\<exists>i < length ls. m' = m + int i \<and> d = sum_list (take i ls) + d' - 1 \<and> 1 \<le> d' \<and> d' \<le> ls ! i"
  using assms
proof (induction ls arbitrary: m d)
  case (Cons l ls)
  show ?case
  proof (cases "d < l")
    case True
    then show ?thesis using Cons.prems by (intro exI [of _ 0]) auto
  next
    case False
    then obtain i where "i < length ls" "m' = m + 1 + int i" "d - l = sum_list (take i ls) + d' - 1"
        "1 \<le> d'" "d' \<le> ls ! i"
      using Cons.IH [of "d - l" "m + 1"] Cons.prems by auto
    then show ?thesis by (intro exI [of _ "Suc i"]) simp
  qed
qed simp

lemma year_length: "sum_list (month_lengths y) = (if leap_year y then 366 else 365)"
  by (simp add: month_lengths_def)

lemma civil_range:
  assumes "civil day = (y, m, d)"
  shows "1 \<le> m \<and> m \<le> 12 \<and> 1 \<le> d \<and> d \<le> month_lengths y ! nat (m - 1) \<and> day_number y m d = day"
proof -
  define a where "a = day div 146097"
  define d1 where "d1 = day mod 146097"
  define b where "b = min 3 (d1 div 36524)"
  define d2 where "d2 = d1 - 36524 * b"
  define c where "c = d2 div 1461"
  define d3 where "d3 = d2 mod 1461"
  define e where "e = min 3 (d3 div 365)"
  define yd where "yd = d3 - 365 * e"
  have "civil day = (400 * a + 100 * b + 4 * c + e + 1, month_day (month_lengths (400 * a + 100 * b + 4 * c + e + 1)) 1 yd)"
    by (simp only: civil_def Let_def a_def d1_def b_def d2_def c_def d3_def e_def yd_def)
  then have y: "y = 400 * a + 100 * b + 4 * c + e + 1" and md: "month_day (month_lengths y) 1 yd = (m, d)"
    using assms by auto
  have day: "day = 146097 * a + 36524 * b + 1461 * c + 365 * e + yd"
    by (simp add: a_def d1_def d2_def c_def d3_def yd_def)
  have r1: "0 \<le> d1" "d1 < 146097" by (simp_all add: d1_def)
  have rb: "0 \<le> b" "b \<le> 3" "0 \<le> d2" "d2 \<le> 36524" "b < 3 \<Longrightarrow> d2 < 36524"
  proof -
    obtain r where "d1 = 36524 * (d1 div 36524) + r" "0 \<le> r" "r < 36524"
      by (rule that [of "d1 mod 36524"]) simp_all
    then show "0 \<le> b" "b \<le> 3" "0 \<le> d2" "d2 \<le> 36524" "b < 3 \<Longrightarrow> d2 < 36524"
      using r1 unfolding b_def d2_def by (cases "d1 div 36524 \<le> 3"; simp add: min_def; linarith)+
  qed
  have rc: "0 \<le> c" "c \<le> 24" using rb unfolding c_def by simp_all
  have r3: "0 \<le> d3" "d3 < 1461" "d2 = 1461 * c + d3" by (simp_all add: d3_def c_def)
  have re: "0 \<le> e" "e \<le> 3" "0 \<le> yd" "yd \<le> 365" "e < 3 \<Longrightarrow> yd < 365"
  proof -
    obtain r where "d3 = 365 * (d3 div 365) + r" "0 \<le> r" "r < 365"
      by (rule that [of "d3 mod 365"]) simp_all
    then show "0 \<le> e" "e \<le> 3" "0 \<le> yd" "yd \<le> 365" "e < 3 \<Longrightarrow> yd < 365"
      using r3(1,2) unfolding e_def yd_def by (cases "d3 div 365 \<le> 3"; simp add: min_def; linarith)+
  qed
  have leap: "leap_year y" if yd: "yd = 365"
  proof -
    have e: "e = 3" using re yd by linarith
    then have d3: "d3 = 1460" using yd by (simp add: yd_def)
    have y4: "y = 400 * a + 100 * b + 4 * (c + 1)" using y e by simp
    show ?thesis
    proof (cases "c = 24")
      case True
      have "\<not> b < 3" using rb(5) r3(3) d3 True by (intro notI) simp
      then have "b = 3" using rb(2) by linarith
      then have "y = 400 * (a + 1)" using y4 True by simp
      then show ?thesis unfolding leap_year_def by simp
    next
      case False
      then have c: "0 < 4 * (c + 1)" "4 * (c + 1) < 100" using rc by simp_all
      have "y = 4 * (c + 1) + (4 * a + b) * 100" "y = (100 * a + 25 * b + c + 1) * 4" using y4 by simp_all
      then have "y mod 100 = 4 * (c + 1) mod 100" "y mod 4 = 0" by (metis mod_mult_self1, metis mod_mult_self2_is_0)
      then show ?thesis using c by (simp add: leap_year_def)
    qed
  qed
  have "yd < 365 \<or> yd = 365 \<and> leap_year y" using re(4) leap by (cases "yd = 365") simp_all
  then have "yd < sum_list (month_lengths y)" by (auto simp: year_length)
  from month_day_range [OF re(3) this md] obtain i where i: "i < 12" "m = 1 + int i"
      "yd = sum_list (take i (month_lengths y)) + d - 1" "1 \<le> d" "d \<le> month_lengths y ! i"
    by (auto simp: month_lengths_def)
  have split: "0 \<le> r \<Longrightarrow> r < k \<Longrightarrow> n = r + q * k \<Longrightarrow> n div k = q" for r k q n :: int by simp
  have cycles: "(y - 1) div 4 = 100 * a + 25 * b + c" "(y - 1) div 100 = 4 * a + b" "(y - 1) div 400 = a"
    by (rule split [of e], use re y in simp_all) (rule split [of "4 * c + e"], use re rc y in simp_all,
      rule split [of "100 * b + 4 * c + e"], use re rc rb y in simp_all)
  have "day_number y m d = day" unfolding day_number_def cycles using i(2,3) day y by simp
  then show ?thesis using i by simp
qed

section \<open>Formats\<close>

definition pad_int :: "nat \<Rightarrow> int \<Rightarrow> string" where
  "pad_int w n = (if n < 0 then ''-'' else []) @ pad_left w (CHR ''0'') (udigits \<bar>n\<bar>)"

definition nsec :: "gotime \<Rightarrow> int" where
  "nsec t = t mod second"

text \<open>Seconds since the zero instant on the clocks of the location.\<close>

definition local_seconds :: "zone \<Rightarrow> gotime \<Rightarrow> int" where
  "local_seconds z t = t div second + z t"

definition local_date :: "zone \<Rightarrow> gotime \<Rightarrow> int \<times> int \<times> int" where
  "local_date z t = civil (local_seconds z t div 86400)"

definition date_text :: "int \<times> int \<times> int \<Rightarrow> string" where
  "date_text ymd = (case ymd of (y, m, d) \<Rightarrow> pad_int 4 y @ ''-'' @ pad_int 2 m @ ''-'' @ pad_int 2 d)"

definition clock_text :: "int \<Rightarrow> string" where
  "clock_text s =
     pad_int 2 (s div 3600) @ '':'' @ pad_int 2 (s div 60 mod 60) @ '':'' @ pad_int 2 (s mod 60)"

definition frac_text :: "int \<Rightarrow> string" where
  "frac_text ns = (if ns = 0 then [] else CHR ''.'' # strip_zeros (pad_left 9 (CHR ''0'') (udigits ns)))"

definition zone_text :: "int \<Rightarrow> string" where
  "zone_text off =
     (if off = 0 then ''Z''
      else let m = \<bar>trunc_div off 60\<bar> in
        (if trunc_div off 60 < 0 then ''-'' else ''+'') @ pad_int 2 (m div 60) @ '':'' @ pad_int 2 (m mod 60))"

definition rfc3339nano :: "zone \<Rightarrow> gotime \<Rightarrow> string" where
  "rfc3339nano z t =
     date_text (local_date z t) @ ''T'' @ clock_text (local_seconds z t mod 86400) @ frac_text (nsec t) @
     zone_text (z t)"

definition rfc3339 :: "zone \<Rightarrow> gotime \<Rightarrow> string" where
  "rfc3339 z t =
     date_text (local_date z t) @ ''T'' @ clock_text (local_seconds z t mod 86400) @ zone_text (z t)"

text \<open>\<open>Time.String\<close> of an instant in UTC.\<close>

definition utc_string :: "gotime \<Rightarrow> string" where
  "utc_string t =
     date_text (local_date UTC t) @ '' '' @ clock_text (local_seconds UTC t mod 86400) @ frac_text (nsec t) @
     '' +0000 UTC''"

text \<open>\<open>MarshalJSON\<close> refuses years of more or fewer than four digits and offsets of a day.\<close>

definition time_ok :: "zone \<Rightarrow> gotime \<Rightarrow> bool" where
  "time_ok z t \<longleftrightarrow> 0 \<le> fst (local_date z t) \<and> fst (local_date z t) \<le> 9999 \<and> \<bar>trunc_div (z t) 60\<bar> < 24 * 60"

section \<open>The parser\<close>

text \<open>\<open>k\<close> digits, and the text after them.\<close>

definition read_digits :: "nat \<Rightarrow> string \<Rightarrow> (int \<times> string) option" where
  "read_digits k s =
     (if k \<le> length s \<and> list_all is_digit (take k s) then Some (dval (take k s), drop k s) else None)"

definition read_char :: "char set \<Rightarrow> string \<Rightarrow> string option" where
  "read_char C s = (if starts C s then Some (tl s) else None)"

text \<open>A fraction, when a digit follows the point or comma; digits after the ninth are dropped.\<close>

definition read_frac :: "string \<Rightarrow> int \<times> string" where
  "read_frac s =
     (if starts {CHR ''.'', CHR '',''} s \<and> takeWhile is_digit (tl s) \<noteq> []
      then let ds = take 9 (takeWhile is_digit (tl s))
           in (dval ds * 10 ^ (9 - length ds), dropWhile is_digit (tl s))
      else (0, s))"

definition read_zone :: "string \<Rightarrow> int option" where
  "read_zone s =
     (if starts {CHR ''Z''} s then (if tl s = [] then Some 0 else None)
      else if length s = 6 \<and> starts {CHR ''+'', CHR ''-''} s \<and> s ! 3 = CHR '':'' \<and>
        list_all is_digit (take 2 (tl s)) \<and> list_all is_digit (drop 4 s)
      then let h = dval (take 2 (tl s)); m = dval (drop 4 s)
           in if 24 < h \<or> 60 < m then None
              else Some (if starts {CHR ''-''} s then - ((h * 60 + m) * 60) else (h * 60 + m) * 60)
      else None)"

definition read_date :: "string \<Rightarrow> ((int \<times> int \<times> int) \<times> string) option" where
  "read_date s =
     (case read_digits 4 s of None \<Rightarrow> None | Some (y, s) \<Rightarrow>
     (case read_char {CHR ''-''} s of None \<Rightarrow> None | Some s \<Rightarrow>
     (case read_digits 2 s of None \<Rightarrow> None | Some (m, s) \<Rightarrow>
     (case read_char {CHR ''-''} s of None \<Rightarrow> None | Some s \<Rightarrow>
     (case read_digits 2 s of None \<Rightarrow> None | Some (d, s) \<Rightarrow>
        if 1 \<le> m \<and> m \<le> 12 \<and> 1 \<le> d \<and> d \<le> month_lengths y ! nat (m - 1) then Some ((y, m, d), s) else None)))))"

text \<open>An hour can have one digit.\<close>

definition read_clock :: "string \<Rightarrow> (int \<times> string) option" where
  "read_clock s =
     (case (case read_digits 2 s of None \<Rightarrow> read_digits 1 s | r \<Rightarrow> r) of None \<Rightarrow> None | Some (h, s) \<Rightarrow>
     (case read_char {CHR '':''} s of None \<Rightarrow> None | Some s \<Rightarrow>
     (case read_digits 2 s of None \<Rightarrow> None | Some (m, s) \<Rightarrow>
     (case read_char {CHR '':''} s of None \<Rightarrow> None | Some s \<Rightarrow>
     (case read_digits 2 s of None \<Rightarrow> None | Some (c, s) \<Rightarrow>
        if h < 24 \<and> m < 60 \<and> c < 60 then Some (h * 3600 + m * 60 + c, s) else None)))))"

definition time_error :: "string \<Rightarrow> go_error" where
  "time_error s = ErrText (''parsing time '' @ s)"

definition parse_rfc3339 :: "string \<Rightarrow> gotime result" where
  "parse_rfc3339 s =
     (case read_date s of None \<Rightarrow> Inl (time_error s) | Some ((y, m, d), s1) \<Rightarrow>
     (case read_char {CHR ''T''} s1 of None \<Rightarrow> Inl (time_error s) | Some s2 \<Rightarrow>
     (case read_clock s2 of None \<Rightarrow> Inl (time_error s) | Some (c, s3) \<Rightarrow>
     (case read_zone (snd (read_frac s3)) of None \<Rightarrow> Inl (time_error s) | Some off \<Rightarrow>
        Inr ((day_number y m d * 86400 + c - off) * second + fst (read_frac s3))))))"

section \<open>An instant that was written is read\<close>

lemma length_udigits: "0 \<le> n \<Longrightarrow> n < 10 ^ k \<Longrightarrow> 0 < k \<Longrightarrow> length (udigits n) \<le> k"
proof (induction n arbitrary: k rule: udigits.induct)
  case (1 n)
  show ?case
  proof (cases "n < 10")
    case True
    then show ?thesis using "1.prems" by (simp add: udigits.simps [of n])
  next
    case False
    then obtain k' where k: "k = Suc k'" "0 < k'" using "1.prems" by (cases k; cases "k - 1") auto
    have "n div 10 < 10 ^ k'" using "1.prems" k by (simp add: div_less_iff_less_mult mult.commute)
    then have "length (udigits (n div 10)) \<le> k'" using "1.IH" [OF False, of k'] "1.prems" k by simp
    then show ?thesis using False k by (simp add: udigits.simps [of n])
  qed
qed

lemma pad_int_digits:
  assumes "0 \<le> n" and "n < 10 ^ k" and "0 < k"
  shows "length (pad_int k n) = k" and "list_all is_digit (pad_int k n)" and "dval (pad_int k n) = n"
  using assms length_udigits [OF assms] digits_udigits [of n] dval_udigits [of n]
  by (auto simp: pad_int_def pad_left_def dval_append list_all_iff)

lemma read_digits_pad:
  assumes "0 \<le> n" and "n < 10 ^ k" and "0 < k"
  shows "read_digits k (pad_int k n @ s) = Some (n, s)"
  using pad_int_digits [OF assms] by (simp add: read_digits_def)

definition zone_ok :: "zone \<Rightarrow> bool" where
  "zone_ok z \<longleftrightarrow> (\<forall>t. z t mod 60 = 0 \<and> \<bar>z t\<bar> < 86400)"

lemma UTC_ok [simp]: "zone_ok UTC"
  by (simp add: zone_ok_def UTC_def)

lemma read_zone_text:
  assumes "off mod 60 = 0" and "\<bar>off\<bar> < 86400"
  shows "read_zone (zone_text off) = Some off"
proof (cases "off = 0")
  case False
  obtain m where off: "off = 60 * m" using assms(1) by auto
  have t: "trunc_div off 60 = m" by (simp add: trunc_div_def off abs_mult sgn_mult mult_sgn_abs)
  have m: "\<bar>m\<bar> < 1440" using assms(2) off by simp
  define h' where "h' = \<bar>m\<bar> div 60"
  define m' where "m' = \<bar>m\<bar> mod 60"
  have h: "0 \<le> h'" "h' < 10 ^ 2" "h' \<le> 24" using m by (simp_all add: h'_def)
  have mm: "0 \<le> m'" "m' < 10 ^ 2" "m' \<le> 60" by (simp_all add: m'_def less_imp_le)
  have sum: "h' * 60 + m' = \<bar>m\<bar>" by (simp add: h'_def m'_def)
  note ph = pad_int_digits [OF h(1,2)] and pm = pad_int_digits [OF mm(1,2)]
  obtain a b where ab: "pad_int 2 h' = [a, b]" using ph(1) by (auto simp: length_Suc_conv numeral_2_eq_2)
  obtain c d where cd: "pad_int 2 m' = [c, d]" using pm(1) by (auto simp: length_Suc_conv numeral_2_eq_2)
  have zt: "zone_text off = (if m < 0 then CHR ''-'' else CHR ''+'') # [a, b] @ CHR '':'' # [c, d]"
    using False t ab cd by (simp add: zone_text_def Let_def h'_def m'_def)
  have dig: "list_all is_digit [a, b]" "list_all is_digit [c, d]" "dval [a, b] = h'" "dval [c, d] = m'"
    using ph pm ab cd by simp_all
  show ?thesis using dig h(3) mm(3) sum unfolding zt
    by (cases "m < 0") (simp_all add: read_zone_def off numeral_eq_Suc algebra_simps)
qed (simp add: zone_text_def read_zone_def)

lemma zone_text_start: "\<exists>c u. zone_text off = c # u \<and> \<not> is_digit c \<and> c \<notin> {CHR ''.'', CHR '',''}"
  by (auto simp: zone_text_def Let_def is_digit_def)

lemma read_frac_text:
  assumes "0 \<le> ns" and "ns < 10 ^ 9"
  shows "read_frac (frac_text ns @ zone_text off) = (ns, zone_text off)"
proof -
  obtain c u where z: "zone_text off = c # u" "\<not> is_digit c" "c \<notin> {CHR ''.'', CHR '',''}"
    using zone_text_start by blast
  show ?thesis
  proof (cases "ns = 0")
    case True
    then show ?thesis using z by (simp add: frac_text_def read_frac_def)
  next
    case False
    define p where "p = pad_left 9 (CHR ''0'') (udigits ns)"
    have p: "length p = 9" "list_all is_digit p" "dval p = ns"
      using pad_int_digits [OF assms] assms(1) by (simp_all add: p_def pad_int_def)
    obtain k where k: "p = strip_zeros p @ replicate k (CHR ''0'')" using strip_zeros_split by blast
    define ds where "ds = strip_zeros p"
    have ds: "list_all is_digit ds" "length ds + k = 9" "dval ds * 10 ^ k = ns"
      using p by (metis ds_def k list_all_append, metis ds_def k length_append length_replicate,
        metis ds_def k dval_append length_replicate dval_zeros add_0_right)
    have "ds \<noteq> []" using ds(3) False by (auto simp: dval_def)
    then show ?thesis
      using ds z takeWhile_digits [OF ds(1), of "zone_text off"] False
      by (auto simp: frac_text_def p_def [symmetric] ds_def [symmetric] read_frac_def)
  qed
qed

lemma read_clock_text:
  assumes "0 \<le> s" and "s < 86400"
  shows "read_clock (clock_text s @ t) = Some (s, t)"
proof -
  have "s div 3600 * 3600 + s div 60 mod 60 * 60 + s mod 60 = s"
  proof -
    have "s div 3600 = s div 60 div 60" by (simp add: zdiv_zmult2_eq [of 60 s 60, symmetric])
    then show ?thesis by simp presburger
  qed
  moreover have "s div 3600 < 24" using assms by simp
  ultimately show ?thesis using assms
    by (simp add: read_clock_def clock_text_def read_digits_pad read_char_def)
qed

lemma read_date_text:
  assumes "civil day = (y, m, d)" and "0 \<le> y" and "y \<le> 9999"
  shows "read_date (date_text (civil day) @ t) = Some ((y, m, d), t)"
proof -
  have r: "1 \<le> m" "m \<le> 12" "1 \<le> d" "d \<le> month_lengths y ! nat (m - 1)" using civil_range [OF assms(1)] by simp_all
  have "nat (m - 1) < 12" using r by simp
  then have "month_lengths y ! nat (m - 1) \<in> set (month_lengths y)" by (intro nth_mem) (simp add: month_lengths_def)
  then have "month_lengths y ! nat (m - 1) \<le> 31" by (auto simp: month_lengths_def split: if_splits)
  then show ?thesis using r assms
    by (simp add: read_date_def date_text_def read_digits_pad read_char_def)
qed

lemma ascii_digits: "list_all is_digit s \<Longrightarrow> ascii s"
proof -
  have "(of_char c :: nat) < 128" if "is_digit c" for c
  proof -
    have "(of_char c :: int) < 128" using that by (simp add: is_digit_def)
    then show ?thesis by (metis of_nat_less_iff of_nat_numeral of_nat_of_char)
  qed
  then show "list_all is_digit s \<Longrightarrow> ascii s" by (auto simp: list_all_iff ascii_def)
qed

lemma ascii_udigits: "0 \<le> n \<Longrightarrow> ascii (udigits n)"
  by (intro ascii_digits digits_udigits)

lemma ascii_itoa: "ascii (itoa n)"
  by (simp add: itoa_def ascii_udigits)

lemma ascii_pad [simp]: "ascii (pad_left w (CHR ''0'') s) \<longleftrightarrow> ascii s"
  by (auto simp: pad_left_def ascii_def)

lemma ascii_pad_int [simp]: "ascii (pad_int w n)"
  by (simp add: pad_int_def ascii_udigits)

lemma ascii_strip_zeros: "ascii s \<Longrightarrow> ascii (strip_zeros s)"
  using strip_zeros_split [of s] by (metis ascii_simps(3))

lemma ascii_time:
  shows "ascii (rfc3339nano z t)" and "ascii (rfc3339 z t)"
proof -
  have parts: "ascii (date_text ymd)" "ascii (clock_text s)" "ascii (zone_text off)" for ymd s off
    by (simp_all add: date_text_def clock_text_def zone_text_def Let_def split: prod.split)
  have "ascii (frac_text (nsec t))"
    by (simp add: frac_text_def nsec_def second_def ascii_strip_zeros ascii_udigits)
  then show "ascii (rfc3339nano z t)" "ascii (rfc3339 z t)"
    using parts by (simp_all add: rfc3339nano_def rfc3339_def)
qed

lemma valid_times [simp]: "valid_utf8 (rfc3339nano z t)" "valid_utf8 (rfc3339 z t)"
  by (simp_all add: ascii_time ascii_valid)

theorem rfc3339nano_reads [simp]:
  assumes "zone_ok z" and "time_ok z t"
  shows "parse_rfc3339 (rfc3339nano z t) = Inr t"
proof -
  obtain y m d where c: "civil (local_seconds z t div 86400) = (y, m, d)" by (metis prod_cases3)
  have y: "0 \<le> y" "y \<le> 9999" using assms(2) c by (simp_all add: time_ok_def local_date_def)
  have off: "z t mod 60 = 0" "\<bar>z t\<bar> < 86400" using assms(1) by (simp_all add: zone_ok_def)
  have ns: "0 \<le> nsec t" "nsec t < 10 ^ 9" by (simp_all add: nsec_def second_def)
  have day: "day_number y m d * 86400 + local_seconds z t mod 86400 - z t = t div second"
    using civil_range [OF c] by (simp add: local_seconds_def)
  have "parse_rfc3339 (rfc3339nano z t) =
      Inr ((day_number y m d * 86400 + local_seconds z t mod 86400 - z t) * second + nsec t)"
    using read_date_text [OF c y] read_clock_text [of "local_seconds z t mod 86400"] read_frac_text [OF ns]
      read_zone_text [OF off]
    by (simp add: parse_rfc3339_def rfc3339nano_def local_date_def read_char_def)
  then show ?thesis unfolding day by (simp add: nsec_def)
qed

text \<open>A year of four digits bounds the day.\<close>

lemma civil_year_bounds:
  assumes "0 \<le> fst (civil day)" and "fst (civil day) \<le> 9999"
  shows "- 400000 \<le> day \<and> day < 4000000"
proof -
  define a where "a = day div 146097"
  define d1 where "d1 = day mod 146097"
  define b where "b = min 3 (d1 div 36524)"
  define d2 where "d2 = d1 - 36524 * b"
  define c where "c = d2 div 1461"
  define e where "e = min 3 (d2 mod 1461 div 365)"
  have y: "fst (civil day) = 400 * a + 100 * b + 4 * c + e + 1"
    by (simp add: civil_def Let_def a_def d1_def b_def d2_def c_def e_def)
  have d1: "0 \<le> d1" "d1 < 146097" "day = 146097 * a + d1" by (simp_all add: d1_def a_def)
  have b: "0 \<le> b" "b \<le> 3" using d1 by (simp_all add: b_def)
  have "b \<le> d1 div 36524" by (simp add: b_def)
  moreover have "36524 * (d1 div 36524) \<le> d1"
    using mult_div_mod_eq [of 36524 d1] pos_mod_sign [of 36524 d1] by linarith
  ultimately have "36524 * b \<le> d1" by linarith
  then have "0 \<le> d2" "d2 < 146097" using d1 b by (simp_all add: d2_def)
  then have c: "0 \<le> c" "c \<le> 99" by (simp_all add: c_def)
  have e: "0 \<le> e" "e \<le> 3" by (simp_all add: e_def)
  have "- 2 \<le> a" "a \<le> 24" using assms y b c e by simp_all
  then show ?thesis using d1 by simp
qed

end
