(* ===== verification/Rca_Events.thy ===== *)
theory Rca_Events
  imports Collector_Types Go_Rfc3339
begin

text \<open>
  The events and the configuration of the root cause analysis (internal/rca/events.go,
  internal/rca/config.go), and the JSON value of an event.
\<close>

section \<open>Events\<close>

text \<open>Sources and severities are Go string types.\<close>

type_synonym EventSource = string
type_synonym EventSeverity = string

definition SourceLagRadar :: EventSource where "SourceLagRadar = ''lagradar''"

definition SeverityInfo :: EventSeverity where "SeverityInfo = ''info''"
definition SeverityWarning :: EventSeverity where "SeverityWarning = ''warning''"
definition SeverityCritical :: EventSeverity where "SeverityCritical = ''critical''"

definition EventTypeConsumerStopped :: string where "EventTypeConsumerStopped = ''consumer_stopped''"
definition EventTypeConsumerStalled :: string where "EventTypeConsumerStalled = ''consumer_stalled''"
definition EventTypeRapidLagIncrease :: string where "EventTypeRapidLagIncrease = ''rapid_lag_increase''"
definition EventTypeConsumerRecovered :: string where "EventTypeConsumerRecovered = ''consumer_recovered''"
definition EventTypeLagCleared :: string where "EventTypeLagCleared = ''lag_cleared''"

lemmas event_consts = SourceLagRadar_def SeverityInfo_def SeverityWarning_def SeverityCritical_def
  EventTypeConsumerStopped_def EventTypeConsumerStalled_def EventTypeRapidLagIncrease_def
  EventTypeConsumerRecovered_def EventTypeLagCleared_def

text \<open>\<open>any\<close> is a value of type \<open>interface{}\<close>; a map is its entries.\<close>

datatype any =
    AnyNil | AnyStr string | AnyFloat f64 | AnyBool bool | AnyList "any list" | AnyMap "(string \<times> any) list"

record BaseEvent =
  be_ID :: string
  be_Source :: EventSource
  be_Type :: string
  be_Severity :: EventSeverity
  be_Timestamp :: gotime
  be_Cluster :: string
  be_Namespace :: string
  be_Service :: string
  be_Title :: string
  be_Description :: string
  be_Data :: "(string \<times> any) list"
  be_Fingerprint :: string

record KafkaLagEvent =
  ev_Base :: BaseEvent
  ev_ConsumerGroup :: string
  ev_Topic :: string
  ev_Partition :: i32
  ev_CurrentLag :: i64
  ev_CurrentOffset :: i64
  ev_HighWatermark :: i64
  ev_LagDelta :: i64
  ev_OffsetDelta :: i64
  ev_ConsumptionRate :: f64
  ev_LagChangeRate :: f64
  ev_TimeSinceLastMove :: string

section \<open>The JSON value of an event\<close>

text \<open>A number that is not finite has no JSON value: \<open>json.Marshal\<close> fails.\<close>

definition result_bind :: "'a result \<Rightarrow> ('a \<Rightarrow> 'b result) \<Rightarrow> 'b result" where
  "result_bind m f = (case m of Inl e \<Rightarrow> Inl e | Inr x \<Rightarrow> f x)"

lemma result_bind_simps [simp]:
  "result_bind (Inl e) f = Inl e" "result_bind (Inr x) f = f x"
  by (simp_all add: result_bind_def)

lemma result_bind_Inr: "result_bind m f = Inr y \<longleftrightarrow> (\<exists>x. m = Inr x \<and> f x = Inr y)"
  by (simp add: result_bind_def split: sum.split)

fun float_json :: "f64 \<Rightarrow> json result" where
  "float_json (FFin q) = Inr (JNum (float_text q))"
| "float_json FNaN = Inl (ErrText ''json: unsupported value: NaN'')"
| "float_json FPInf = Inl (ErrText ''json: unsupported value: +Inf'')"
| "float_json FNInf = Inl (ErrText ''json: unsupported value: -Inf'')"

definition int_json :: "int \<Rightarrow> json" where
  "int_json n = JNum (itoa n)"

text \<open>An instant is written on the clocks of its location, when its year has four digits.\<close>

definition time_json :: "zone \<Rightarrow> gotime \<Rightarrow> json result" where
  "time_json z t =
     (if time_ok z t then Inr (JStr (rfc3339nano z t))
      else Inl (ErrText (''json: error calling MarshalJSON for type time.Time: Time.MarshalJSON: '' @
        (if 0 \<le> fst (local_date z t) \<and> fst (local_date z t) \<le> 9999
         then ''timezone hour outside of range [0,23]'' else ''year outside of range [0,9999]''))))"

text \<open>The keys of a map are written in increasing order.\<close>

fun string_le :: "string \<Rightarrow> string \<Rightarrow> bool" where
  "string_le [] t = True"
| "string_le (c # s) [] = False"
| "string_le (c # s) (d # t) =
     ((of_char c :: nat) < of_char d \<or> ((of_char c :: nat) = of_char d \<and> string_le s t))"

fun insert_field :: "string \<times> 'a \<Rightarrow> (string \<times> 'a) list \<Rightarrow> (string \<times> 'a) list" where
  "insert_field kv [] = [kv]"
| "insert_field kv (kv' # kvs) =
     (if string_le (fst kv) (fst kv') then kv # kv' # kvs else kv' # insert_field kv kvs)"

definition sort_fields :: "(string \<times> 'a) list \<Rightarrow> (string \<times> 'a) list" where
  "sort_fields kvs = foldr insert_field kvs []"

text \<open>The first error ends the marshalling of a list or of a map.\<close>

fun list_result :: "'a result list \<Rightarrow> 'a list result" where
  "list_result [] = Inr []"
| "list_result (m # ms) = result_bind m (\<lambda>x. result_bind (list_result ms) (\<lambda>xs. Inr (x # xs)))"

fun fields_result :: "(string \<times> 'a result) list \<Rightarrow> (string \<times> 'a) list result" where
  "fields_result [] = Inr []"
| "fields_result ((k, m) # kms) =
     result_bind m (\<lambda>x. result_bind (fields_result kms) (\<lambda>kxs. Inr ((k, x) # kxs)))"

fun any_json :: "any \<Rightarrow> json result" where
  "any_json AnyNil = Inr JNull"
| "any_json (AnyStr s) = Inr (JStr s)"
| "any_json (AnyFloat x) = float_json x"
| "any_json (AnyBool b) = Inr (JBool b)"
| "any_json (AnyList xs) = result_bind (list_result (map any_json xs)) (\<lambda>js. Inr (JArr js))"
| "any_json (AnyMap kvs) =
     result_bind (fields_result (sort_fields (map (\<lambda>(k, v). (k, any_json v)) kvs))) (\<lambda>m. Inr (JObj m))"

definition omitempty :: "string \<Rightarrow> string \<Rightarrow> (string \<times> json) list" where
  "omitempty k v = (if v = [] then [] else [(k, JStr v)])"

text \<open>The fields of the embedded event come first; a nil map of data, which no event has, is not told
  from an empty one.\<close>

definition marshal_event :: "zone \<Rightarrow> KafkaLagEvent \<Rightarrow> json result" where
  "marshal_event z ev =
     (let b = ev_Base ev in
      result_bind (time_json z (be_Timestamp b)) (\<lambda>timestamp.
      result_bind (any_json (AnyMap (be_Data b))) (\<lambda>data.
      result_bind (float_json (ev_ConsumptionRate ev)) (\<lambda>consumption.
      result_bind (float_json (ev_LagChangeRate ev)) (\<lambda>change.
        Inr (JObj
          ([(''id'', JStr (be_ID b)), (''source'', JStr (be_Source b)), (''type'', JStr (be_Type b)),
            (''severity'', JStr (be_Severity b)), (''timestamp'', timestamp)] @
           omitempty ''cluster'' (be_Cluster b) @ omitempty ''namespace'' (be_Namespace b) @
           omitempty ''service'' (be_Service b) @
           [(''title'', JStr (be_Title b)), (''description'', JStr (be_Description b)),
            (''data'', data), (''fingerprint'', JStr (be_Fingerprint b)),
            (''consumer_group'', JStr (ev_ConsumerGroup ev)), (''topic'', JStr (ev_Topic ev)),
            (''partition'', int_json (sint (ev_Partition ev))),
            (''current_lag'', int_json (sint (ev_CurrentLag ev))),
            (''current_offset'', int_json (sint (ev_CurrentOffset ev))),
            (''high_watermark'', int_json (sint (ev_HighWatermark ev))),
            (''lag_delta'', int_json (sint (ev_LagDelta ev))),
            (''offset_delta'', int_json (sint (ev_OffsetDelta ev))),
            (''consumption_rate'', consumption), (''lag_change_rate'', change),
            (''time_since_last_move'', JStr (ev_TimeSinceLastMove ev))])))))))"

section \<open>Configuration\<close>

record PublisherConfig =
  pc_Enabled :: bool
  pc_StreamKey :: string
  pc_MaxRetries :: int
  pc_RetryInterval :: string
  pc_DeDupeWindow :: duration

record RedisConfig =
  rd_Addr :: string
  rd_Password :: string
  rd_DB :: int

record ConsumerConfig =
  cc_ConsumerGroup :: string
  cc_StreamKey :: string
  cc_ConsumerName :: string
  cc_BatchSize :: i64
  cc_BlockTimeout :: duration
  cc_MaxRetries :: int

record RcaConfig =
  rc_Publisher :: PublisherConfig
  rc_Redis :: RedisConfig
  rc_Consumer :: ConsumerConfig

end
