(* ===== verification/Go_Md5.thy ===== *)
theory Go_Md5
  imports Go_Fmt
begin

text \<open>
  The MD5 sum (package crypto/md5) of a byte string, in hexadecimal as \<open>%x\<close> writes it: RFC 1321
  over 32-bit words.
\<close>

unbundle bit_operations_syntax

type_synonym word32 = "32 word"

section \<open>Tables\<close>

definition md5_shifts :: "nat list" where
  "md5_shifts = concat
     [concat (replicate 4 [7, 12, 17, 22]), concat (replicate 4 [5, 9, 14, 20]),
      concat (replicate 4 [4, 11, 16, 23]), concat (replicate 4 [6, 10, 15, 21])]"

definition md5_table :: "word32 list" where
  "md5_table =
     [0xd76aa478, 0xe8c7b756, 0x242070db, 0xc1bdceee, 0xf57c0faf, 0x4787c62a,
      0xa8304613, 0xfd469501, 0x698098d8, 0x8b44f7af, 0xffff5bb1, 0x895cd7be,
      0x6b901122, 0xfd987193, 0xa679438e, 0x49b40821, 0xf61e2562, 0xc040b340,
      0x265e5a51, 0xe9b6c7aa, 0xd62f105d, 0x02441453, 0xd8a1e681, 0xe7d3fbc8,
      0x21e1cde6, 0xc33707d6, 0xf4d50d87, 0x455a14ed, 0xa9e3e905, 0xfcefa3f8,
      0x676f02d9, 0x8d2a4c8a, 0xfffa3942, 0x8771f681, 0x6d9d6122, 0xfde5380c,
      0xa4beea44, 0x4bdecfa9, 0xf6bb4b60, 0xbebfbc70, 0x289b7ec6, 0xeaa127fa,
      0xd4ef3085, 0x04881d05, 0xd9d4d039, 0xe6db99e5, 0x1fa27cf8, 0xc4ac5665,
      0xf4292244, 0x432aff97, 0xab9423a7, 0xfc93a039, 0x655b59c3, 0x8f0ccc92,
      0xffeff47d, 0x85845dd1, 0x6fa87e4f, 0xfe2ce6e0, 0xa3014314, 0x4e0811a1,
      0xf7537e82, 0xbd3af235, 0x2ad7d2bb, 0xeb86d391]"

section \<open>Blocks\<close>

definition byte_word :: "char \<Rightarrow> word32" where
  "byte_word c = of_nat (of_char c)"

text \<open>Words from bytes, the lowest byte first.\<close>

fun md5_words :: "string \<Rightarrow> word32 list" where
  "md5_words (a # b # c # d # s) =
     (byte_word a + push_bit 8 (byte_word b) + push_bit 16 (byte_word c) + push_bit 24 (byte_word d)) # md5_words s"
| "md5_words _ = []"

definition little_endian :: "nat \<Rightarrow> nat \<Rightarrow> string" where
  "little_endian k n = map (\<lambda>i. char_of (n div 256 ^ i mod 256)) [0..<k]"

text \<open>A one bit, zeros up to 8 bytes before the end of a block, and the length in bits.\<close>

definition md5_pad :: "string \<Rightarrow> string" where
  "md5_pad s =
     s @ CHR 0x80 # replicate ((119 - length s mod 64) mod 64) (CHR 0x00) @ little_endian 8 (8 * length s)"

function md5_blocks :: "word32 list \<Rightarrow> word32 list list" where
  "md5_blocks ws = (if length ws < 16 then [] else take 16 ws # md5_blocks (drop 16 ws))"
  by pat_completeness auto
termination by (relation "measure length") auto

declare md5_blocks.simps [simp del]

section \<open>Rounds\<close>

type_synonym md5_state = "word32 \<times> word32 \<times> word32 \<times> word32"

definition md5_mix :: "nat \<Rightarrow> word32 \<Rightarrow> word32 \<Rightarrow> word32 \<Rightarrow> word32" where
  "md5_mix i b c d =
     (if i < 16 then (b AND c) OR (NOT b AND d)
      else if i < 32 then (d AND b) OR (NOT d AND c)
      else if i < 48 then b XOR c XOR d
      else c XOR (b OR NOT d))"

definition md5_index :: "nat \<Rightarrow> nat" where
  "md5_index i =
     (if i < 16 then i else if i < 32 then (5 * i + 1) mod 16
      else if i < 48 then (3 * i + 5) mod 16 else 7 * i mod 16)"

definition md5_step :: "word32 list \<Rightarrow> nat \<Rightarrow> md5_state \<Rightarrow> md5_state" where
  "md5_step block i abcd =
     (case abcd of (a, b, c, d) \<Rightarrow>
        (d, b + word_rotl (md5_shifts ! i) (a + md5_mix i b c d + md5_table ! i + block ! md5_index i), b, c))"

definition md5_block :: "word32 list \<Rightarrow> md5_state \<Rightarrow> md5_state" where
  "md5_block block s =
     (case (s, fold (md5_step block) [0..<64] s) of ((a, b, c, d), (a', b', c', d')) \<Rightarrow>
        (a + a', b + b', c + c', d + d'))"

definition md5_sum :: "string \<Rightarrow> word32 list" where
  "md5_sum s =
     (case fold md5_block (md5_blocks (md5_words (md5_pad s))) (0x67452301, 0xefcdab89, 0x98badcfe, 0x10325476)
      of (a, b, c, d) \<Rightarrow> [a, b, c, d])"

definition hex_char :: "nat \<Rightarrow> char" where
  "hex_char n = char_of (if n < 10 then 48 + n else 87 + n)"

definition hex_byte :: "char \<Rightarrow> string" where
  "hex_byte c = [hex_char (of_char c div 16), hex_char (of_char c mod 16)]"

definition md5_hex :: "string \<Rightarrow> string" where
  "md5_hex s = concat (map (\<lambda>w. concat (map hex_byte (little_endian 4 (unat w)))) (md5_sum s))"

section \<open>The text is 32 ASCII characters\<close>

lemma length_hex: "length (concat (map hex_byte s)) = 2 * length s"
  by (induction s) (simp_all add: hex_byte_def)

lemma md5_hex_length: "length (md5_hex s) = 32"
proof -
  have "length (little_endian k n) = k" for k n by (simp add: little_endian_def)
  then show ?thesis by (simp add: md5_hex_def md5_sum_def length_hex split: prod.split)
qed

lemma hex_byte_ascii: "c' \<in> set (hex_byte c) \<Longrightarrow> (of_char c' :: nat) < 128"
proof -
  have "(of_char c :: nat) div 16 < 16" using nat_of_char_less_256 [of c] by (simp add: less_mult_imp_div_less)
  then show "c' \<in> set (hex_byte c) \<Longrightarrow> (of_char c' :: nat) < 128" by (auto simp: hex_byte_def hex_char_def)
qed

lemma md5_hex_ascii: "c \<in> set (md5_hex s) \<Longrightarrow> (of_char c :: nat) < 128"
  by (auto simp: md5_hex_def dest: hex_byte_ascii)

end
