(* ===== verification/Publisher.thy ===== *)
theory Publisher
  imports Rca_Events Windows Go_Md5
begin

text \<open>
  The event publisher (internal/publisher/publisher.go).  Redis is a parameter: a record of
  the commands the publisher sends, each a function on a state of the server; so are the random
  event identifier and the location of the clock, the argument \<open>z\<close>.  The pauses between attempts
  are not modelled.
\<close>

section \<open>Redis as the publisher uses it\<close>

record 'r redis =
  rd_Ping :: "'r \<Rightarrow> unit result"
  rd_SetNX :: "string \<Rightarrow> string \<Rightarrow> duration \<Rightarrow> 'r \<Rightarrow> bool result \<times> 'r"
  rd_XAdd :: "string \<Rightarrow> int \<Rightarrow> (string \<times> string) list \<Rightarrow> 'r \<Rightarrow> string result \<times> 'r"

section \<open>The publisher\<close>

text \<open>\<open>ep_client\<close>: the publisher has a connection.\<close>

record EventPublisher =
  ep_client :: bool
  ep_enabled :: bool
  ep_source :: string
  ep_streamKey :: string
  ep_clusterName :: string
  ep_config :: RcaConfig

definition NewEventPublisher :: "'r redis \<Rightarrow> RcaConfig \<Rightarrow> string \<Rightarrow> 'r \<Rightarrow> EventPublisher result" where
  "NewEventPublisher R config clusterName r =
     (if \<not> pc_Enabled (rc_Publisher config)
      then Inr \<lparr>ep_client = False, ep_enabled = False, ep_source = '''', ep_streamKey = '''',
                ep_clusterName = '''', ep_config = config\<rparr>
      else case rd_Ping R r of
        Inl e \<Rightarrow> Inl (ErrWrap ''failed to connect to Redis: '' e)
      | Inr _ \<Rightarrow> Inr \<lparr>ep_client = True, ep_enabled = pc_Enabled (rc_Publisher config),
          ep_source = ''lagradar'', ep_streamKey = pc_StreamKey (rc_Publisher config),
          ep_clusterName = clusterName, ep_config = config\<rparr>)"

definition fingerprint_data :: "EventPublisher \<Rightarrow> KafkaLagEvent \<Rightarrow> string" where
  "fingerprint_data p ev =
     (let timeWindow = time_unix (time_truncate (be_Timestamp (ev_Base ev))
            (pc_DeDupeWindow (rc_Publisher (ep_config p))))
      in be_Source (ev_Base ev) @ '':'' @ be_Type (ev_Base ev) @ '':'' @ ev_ConsumerGroup ev @ '':'' @
         ev_Topic ev @ '':'' @ itoa (sint (ev_Partition ev)) @ '':'' @ itoa timeWindow)"

definition generateFingerprint :: "EventPublisher \<Rightarrow> KafkaLagEvent \<Rightarrow> string" where
  "generateFingerprint p ev = md5_hex (fingerprint_data p ev)"

definition new_event ::
  "EventPublisher \<Rightarrow> string \<Rightarrow> gotime \<Rightarrow> string \<Rightarrow> EventSeverity \<Rightarrow> PartitionConsumerStatus \<Rightarrow>
     string \<Rightarrow> KafkaLagEvent" where
  "new_event p eventID now eventType severity status message =
     \<lparr>ev_Base =
        \<lparr>be_ID = eventID, be_Source = SourceLagRadar, be_Type = eventType, be_Severity = severity,
         be_Timestamp = now, be_Cluster = ep_clusterName p, be_Namespace = '''', be_Service = '''',
         be_Title = ''Kafka Consumer '' @ eventType @ '': '' @ ps_GroupID status,
         be_Description = message,
         be_Data =
           [(''window_completeness'', AnyFloat (ps_WindowCompleteness status)),
            (''health'', AnyStr (health_text (ps_Health status))),
            (''status'', AnyStr (status_text (ps_Status status))),
            (''lag_trend'', AnyStr (trend_text (ps_LagTrend status))),
            (''is_active'', AnyBool (ps_IsActive status))],
         be_Fingerprint = ''''\<rparr>,
      ev_ConsumerGroup = ps_GroupID status, ev_Topic = ps_Topic status,
      ev_Partition = ps_Partition status, ev_CurrentLag = ps_CurrentLag status,
      ev_CurrentOffset = ps_CurrentOffset status, ev_HighWatermark = ps_HighWatermark status,
      ev_LagDelta = 0, ev_OffsetDelta = 0,
      ev_ConsumptionRate = ps_ConsumptionRate status, ev_LagChangeRate = ps_LagChangeRate status,
      ev_TimeSinceLastMove = dur_string (ps_TimeSinceLastMove status)\<rparr>"

definition with_fingerprint :: "string \<Rightarrow> KafkaLagEvent \<Rightarrow> KafkaLagEvent" where
  "with_fingerprint f ev = ev\<lparr>ev_Base := (ev_Base ev)\<lparr>be_Fingerprint := f\<rparr>\<rparr>"

text \<open>The attempts to add the entry, and the last error; the client writes an integer as text.\<close>

definition entry_values ::
  "EventPublisher \<Rightarrow> string \<Rightarrow> string \<Rightarrow> EventSeverity \<Rightarrow> PartitionConsumerStatus \<Rightarrow> gotime \<Rightarrow>
     (string \<times> string) list" where
  "entry_values p data eventType severity status timestamp =
     [(''event'', data), (''type'', eventType), (''severity'', severity),
      (''cluster'', ep_clusterName p), (''group_id'', ps_GroupID status), (''topic'', ps_Topic status),
      (''partition'', itoa (sint (ps_Partition status))), (''timestamp'', itoa (time_unix timestamp))]"

fun xadd_loop ::
  "'r redis \<Rightarrow> string \<Rightarrow> (string \<times> string) list \<Rightarrow> nat \<Rightarrow> go_error option \<Rightarrow> 'r \<Rightarrow>
     (go_error option + unit) \<times> 'r" where
  "xadd_loop R stream values 0 lastErr r = (Inl lastErr, r)"
| "xadd_loop R stream values (Suc n) lastErr r =
     (case rd_XAdd R stream 100000 values r of
        (Inr entryID, r') \<Rightarrow> (Inr (), r')
      | (Inl e, r') \<Rightarrow> xadd_loop R stream values n (Some e) r')"

definition retries_error :: "int \<Rightarrow> go_error option \<Rightarrow> go_error" where
  "retries_error n lastErr =
     (let msg = ''failed to publish event after '' @ itoa n @ '' retries: '' in
      case lastErr of None \<Rightarrow> ErrText (msg @ ''%!w(<nil>)'') | Some e \<Rightarrow> ErrWrap msg e)"

definition PublishPartitionEvent ::
  "'r redis \<Rightarrow> zone \<Rightarrow> EventPublisher option \<Rightarrow> string \<Rightarrow> gotime \<Rightarrow> string \<Rightarrow> EventSeverity \<Rightarrow>
     PartitionConsumerStatus \<Rightarrow> string \<Rightarrow> 'r \<Rightarrow> unit result \<times> 'r" where
  "PublishPartitionEvent R z publisher eventID now eventType severity status message r =
     (case publisher of
        None \<Rightarrow> (Inr (), r)
      | Some p \<Rightarrow>
          if \<not> ep_enabled p then (Inr (), r)
          else
            let cfg = rc_Publisher (ep_config p);
                ev0 = new_event p eventID now eventType severity status message;
                fingerprint = generateFingerprint p ev0
            in case marshal_event z (with_fingerprint fingerprint ev0) of
                 Inl e \<Rightarrow> (Inl (ErrWrap ''failed to marshal event: '' e), r)
               | Inr j \<Rightarrow>
                   let values = entry_values p (json_text j) eventType severity status now;
                       (wasNew, r1) = rd_SetNX R (''rca:dedup:'' @ fingerprint) ''1'' (pc_DeDupeWindow cfg) r
                   in if wasNew = Inr False then (Inr (), r1)
                      else case xadd_loop R (ep_streamKey p) values (nat (pc_MaxRetries cfg)) None r1 of
                          (Inr _, r2) \<Rightarrow> (Inr (), r2)
                        | (Inl lastErr, r2) \<Rightarrow> (Inl (retries_error (pc_MaxRetries cfg) lastErr), r2))"


section \<open>What Redis promises\<close>

text \<open>
  The documented behaviour the publisher relies on: \<open>SETNX\<close> succeeds exactly on a key that
  does not exist, and the key exists afterwards; \<open>XADD\<close> appends one entry when it succeeds,
  and may have appended it when it fails (a reply can be lost).  \<open>live r\<close> is the set of keys
  that exist, \<open>added r\<close> the entries added to the streams so far.
\<close>

definition redis_laws ::
  "'r redis \<Rightarrow> ('r \<Rightarrow> string set) \<Rightarrow> ('r \<Rightarrow> (string \<times> (string \<times> string) list) list) \<Rightarrow> bool" where
  "redis_laws R live added \<longleftrightarrow>
     (\<forall>key v ttl r. added (snd (rd_SetNX R key v ttl r)) = added r \<and>
        (\<forall>b. fst (rd_SetNX R key v ttl r) = Inr b \<longrightarrow>
           (b \<longleftrightarrow> key \<notin> live r) \<and> key \<in> live (snd (rd_SetNX R key v ttl r)))) \<and>
     (\<forall>s n vs r. case fst (rd_XAdd R s n vs r) of
        Inr entryID \<Rightarrow> added (snd (rd_XAdd R s n vs r)) = added r @ [(s, vs)]
      | Inl e \<Rightarrow> added (snd (rd_XAdd R s n vs r)) \<in> {added r, added r @ [(s, vs)]})"

lemma setnx_log: "redis_laws R live added \<Longrightarrow> rd_SetNX R key v ttl r = (b, r') \<Longrightarrow> added r' = added r"
  by (simp add: redis_laws_def) (metis snd_conv)

lemma setnx_live:
  "redis_laws R live added \<Longrightarrow> rd_SetNX R key v ttl r = (Inr b, r') \<Longrightarrow>
     (b \<longleftrightarrow> key \<notin> live r) \<and> key \<in> live r'"
  by (simp add: redis_laws_def) (metis fst_conv snd_conv)

lemma xadd_cases:
  assumes "redis_laws R live added" and "rd_XAdd R s n vs r = (reply, r')"
  shows "case reply of Inr entryID \<Rightarrow> added r' = added r @ [(s, vs)]
    | Inl e \<Rightarrow> added r' = added r \<or> added r' = added r @ [(s, vs)]"
proof -
  have "case fst (rd_XAdd R s n vs r) of Inr entryID \<Rightarrow> added (snd (rd_XAdd R s n vs r)) = added r @ [(s, vs)]
    | Inl e \<Rightarrow> added (snd (rd_XAdd R s n vs r)) \<in> {added r, added r @ [(s, vs)]}"
    using assms(1) unfolding redis_laws_def by blast
  then show ?thesis unfolding assms(2) by (cases reply) simp_all
qed

lemma xadd_loop_log:
  assumes "redis_laws R live added" and "xadd_loop R s vs n lastErr r = (res, r')"
  shows "\<exists>k \<le> n. added r' = added r @ replicate k (s, vs) \<and> (res = Inr () \<longrightarrow> 0 < k)"
  using assms(2)
proof (induction n arbitrary: lastErr r)
  case 0
  then show ?case by auto
next
  case (Suc n)
  obtain reply r1 where r1: "rd_XAdd R s 100000 vs r = (reply, r1)" by force
  show ?case
  proof (cases reply)
    case (Inr entryID)
    then have "added r' = added r @ replicate 1 (s, vs)" using Suc.prems r1 xadd_cases [OF assms(1) r1] by auto
    then show ?thesis by (intro exI [of _ 1]) simp
  next
    case (Inl e)
    then obtain k where k: "k \<le> n" "added r' = added r1 @ replicate k (s, vs)" "res = Inr () \<longrightarrow> 0 < k"
      using Suc.IH [of "Some e" r1] Suc.prems r1 by auto
    have "added r1 = added r \<or> added r1 = added r @ [(s, vs)]" using xadd_cases [OF assms(1) r1] Inl by simp
    then show ?thesis
    proof
      assume "added r1 = added r"
      then show ?thesis using k by (intro exI [of _ k]) simp
    next
      assume "added r1 = added r @ [(s, vs)]"
      then show ?thesis using k by (intro exI [of _ "Suc k"]) simp
    qed
  qed
qed

text \<open>The deduplication key of a publication.\<close>

definition dedupe_key ::
  "EventPublisher \<Rightarrow> string \<Rightarrow> gotime \<Rightarrow> string \<Rightarrow> EventSeverity \<Rightarrow>
     PartitionConsumerStatus \<Rightarrow> string \<Rightarrow> string" where
  "dedupe_key p eventID now eventType severity status message =
     ''rca:dedup:'' @ generateFingerprint p (new_event p eventID now eventType severity status message)"

text \<open>The event a publication sends.\<close>

definition published_event ::
  "EventPublisher \<Rightarrow> string \<Rightarrow> gotime \<Rightarrow> string \<Rightarrow> EventSeverity \<Rightarrow> PartitionConsumerStatus \<Rightarrow>
     string \<Rightarrow> KafkaLagEvent" where
  "published_event p eventID now eventType severity status message =
     (let ev = new_event p eventID now eventType severity status message
      in with_fingerprint (generateFingerprint p ev) ev)"

lemma marshal_event_finite:
  assumes "ps_WindowCompleteness status = FFin a" and "ps_ConsumptionRate status = FFin b"
    and "ps_LagChangeRate status = FFin c" and "time_ok z now"
  shows "\<exists>j. marshal_event z (with_fingerprint f (new_event p eventID now eventType severity status message)) = Inr j"
  using assms by (simp add: marshal_event_def with_fingerprint_def new_event_def Let_def sort_fields_def time_json_def)

lemma publish_entries:
  assumes "redis_laws R live added" and "ep_enabled p"
    and "PublishPartitionEvent R z (Some p) eventID now eventType severity status message r = (res, r')"
  shows "\<exists>k data. added r' = added r @ replicate k
      (ep_streamKey p, entry_values p data eventType severity status now) \<and>
    int k \<le> max 0 (pc_MaxRetries (rc_Publisher (ep_config p))) \<and>
    (res = Inr () \<longrightarrow> 0 < k \<or> dedupe_key p eventID now eventType severity status message \<in> live r) \<and>
    (0 < k \<longrightarrow> (\<exists>j. marshal_event z (published_event p eventID now eventType severity status message) = Inr j \<and>
      data = json_text j))"
proof -
  let ?n = "nat (pc_MaxRetries (rc_Publisher (ep_config p)))"
  let ?key = "dedupe_key p eventID now eventType severity status message"
  define f where "f = generateFingerprint p (new_event p eventID now eventType severity status message)"
  show ?thesis
  proof (cases "marshal_event z (with_fingerprint f (new_event p eventID now eventType severity status message))")
    case (Inl e)
    then show ?thesis using assms(2,3)
      by (intro exI [of _ 0]) (auto simp: PublishPartitionEvent_def Let_def f_def)
  next
    case (Inr j)
    let ?vs = "entry_values p (json_text j) eventType severity status now"
    obtain wasNew r1 where r1: "rd_SetNX R ?key ''1'' (pc_DeDupeWindow (rc_Publisher (ep_config p))) r = (wasNew, r1)"
      by force
    have log1: "added r1 = added r" using setnx_log [OF assms(1) r1] .
    obtain out r2 where r2: "xadd_loop R (ep_streamKey p) ?vs ?n None r1 = (out, r2)" by force
    have eq: "(res, r') = (if wasNew = Inr False then (Inr (), r1) else case out of
        Inr _ \<Rightarrow> (Inr (), r2) | Inl e \<Rightarrow> (Inl (retries_error (pc_MaxRetries (rc_Publisher (ep_config p))) e), r2))"
      using assms(2,3) Inr r1 r2
      by (auto simp: PublishPartitionEvent_def Let_def f_def dedupe_key_def split: sum.splits)
    show ?thesis
    proof (cases "wasNew = Inr False")
      case True
      then have "?key \<in> live r" using setnx_live [OF assms(1)] r1 by fastforce
      then show ?thesis using True eq log1 by (intro exI [of _ 0]) simp
    next
      case False
      obtain k where "k \<le> ?n" "added r2 = added r1 @ replicate k (ep_streamKey p, ?vs)" "out = Inr () \<longrightarrow> 0 < k"
        using xadd_loop_log [OF assms(1) r2] by blast
      then show ?thesis using eq False log1 Inr
        by (intro exI [of _ k] exI [of _ "json_text j"]) (auto simp: published_event_def Let_def f_def split: sum.splits)
    qed
  qed
qed

section \<open>Properties\<close>



text \<open>The text that is hashed into the fingerprint determines the event type, the group, the
  topic, the partition and the time window, whatever colons the group name has.\<close>

lemma fingerprint_data_injective:
  assumes "fingerprint_data p (new_event p eventID now eventType severity status message) =
      fingerprint_data p' (new_event p' eventID' now' eventType' severity' status' message')"
    and "CHR '':'' \<notin> set eventType" and "CHR '':'' \<notin> set eventType'"
    and "CHR '':'' \<notin> set (ps_Topic status)" and "CHR '':'' \<notin> set (ps_Topic status')"
  shows "eventType = eventType' \<and> ps_GroupID status = ps_GroupID status' \<and> ps_Topic status = ps_Topic status' \<and>
    ps_Partition status = ps_Partition status' \<and>
    time_unix (time_truncate now (pc_DeDupeWindow (rc_Publisher (ep_config p)))) =
      time_unix (time_truncate now' (pc_DeDupeWindow (rc_Publisher (ep_config p'))))"
proof -
  define w where "w = time_unix (time_truncate now (pc_DeDupeWindow (rc_Publisher (ep_config p))))"
  define w' where "w' = time_unix (time_truncate now' (pc_DeDupeWindow (rc_Publisher (ep_config p'))))"
  have "SourceLagRadar @ CHR '':'' # eventType @ CHR '':'' #
        ((ps_GroupID status @ CHR '':'' # ps_Topic status @ CHR '':'' # itoa (sint (ps_Partition status))) @ CHR '':'' # itoa w) =
      SourceLagRadar @ CHR '':'' # eventType' @ CHR '':'' #
        ((ps_GroupID status' @ CHR '':'' # ps_Topic status' @ CHR '':'' # itoa (sint (ps_Partition status'))) @ CHR '':'' # itoa w')"
    using assms(1) by (simp add: fingerprint_data_def new_event_def Let_def w_def w'_def)
  then have "eventType = eventType' \<and>
      windowKey (ps_GroupID status) (ps_Topic status) (ps_Partition status) @ CHR '':'' # itoa w =
      windowKey (ps_GroupID status') (ps_Topic status') (ps_Partition status') @ CHR '':'' # itoa w'"
    by (simp add: split_first_unique [OF assms(2,3)] windowKey_def)
  then show ?thesis
    using split_last_unique [OF colon_notin_itoa colon_notin_itoa] windowKey_inj [OF assms(4,5)] itoa_inj
    by (simp add: w_def w'_def)
qed

section \<open>A concrete Redis\<close>

text \<open>Keys without expiry, one stream, and a switch that makes \<open>XADD\<close> fail.\<close>

record sample_redis =
  sr_keys :: "string list"
  sr_log :: "(string \<times> (string \<times> string) list) list"
  sr_broken :: bool

definition sampleR :: "sample_redis redis" where
  "sampleR = \<lparr>rd_Ping = (\<lambda>r. Inr ()),
     rd_SetNX = (\<lambda>key v ttl r. (Inr (key \<notin> set (sr_keys r)), r\<lparr>sr_keys := key # sr_keys r\<rparr>)),
     rd_XAdd = (\<lambda>s n vs r. if sr_broken r then (Inl (ErrText ''READONLY''), r)
        else (Inr ''1-0'', r\<lparr>sr_log := sr_log r @ [(s, vs)]\<rparr>))\<rparr>"

lemma sampleR_laws: "redis_laws sampleR (\<lambda>r. set (sr_keys r)) sr_log"
  by (auto simp: redis_laws_def sampleR_def)

definition sample_publisher :: "string \<Rightarrow> EventPublisher" where
  "sample_publisher cl = \<lparr>ep_client = True, ep_enabled = True, ep_source = ''lagradar'',
     ep_streamKey = ''s'', ep_clusterName = cl, ep_config =
       \<lparr>rc_Publisher = \<lparr>pc_Enabled = True, pc_StreamKey = ''s'', pc_MaxRetries = 3,
          pc_RetryInterval = ''1s'', pc_DeDupeWindow = 5 * minute\<rparr>,
        rc_Redis = \<lparr>rd_Addr = ''r'', rd_Password = '''', rd_DB = 0\<rparr>,
        rc_Consumer = \<lparr>cc_ConsumerGroup = ''c'', cc_StreamKey = ''s'', cc_ConsumerName = ''n'',
          cc_BatchSize = 10, cc_BlockTimeout = second, cc_MaxRetries = 3\<rparr>\<rparr>\<rparr>"

definition sample_status :: PartitionConsumerStatus where
  "sample_status = zero_PartitionConsumerStatus\<lparr>ps_GroupID := ''g'', ps_Topic := ''t''\<rparr>"

lemma sample_status_fields [simp]:
  "ps_GroupID sample_status = ''g''" "ps_Topic sample_status = ''t''" "ps_Partition sample_status = 0"
  "ps_WindowCompleteness sample_status = FFin 0" "ps_ConsumptionRate sample_status = FFin 0"
  "ps_LagChangeRate sample_status = FFin 0"
  by (simp_all add: sample_status_def zero_PartitionConsumerStatus_def)

lemma sample_times: "time_ok UTC 0" "time_ok UTC (60 * second)"
  by code_simp+

lemma broken_publish:
  "\<exists>e r'. PublishPartitionEvent sampleR UTC (Some (sample_publisher ''c1'')) ''i'' 0
      EventTypeConsumerStopped SeverityCritical sample_status ''m''
      \<lparr>sr_keys = [], sr_log = [], sr_broken = True\<rparr> = (Inl e, r') \<and> sr_log r' = [] \<and>
    dedupe_key (sample_publisher ''c1'') ''i'' 0 EventTypeConsumerStopped SeverityCritical
      sample_status ''m'' \<in> set (sr_keys r')"
proof -
  define f where "f = generateFingerprint (sample_publisher ''c1'')
    (new_event (sample_publisher ''c1'') ''i'' 0 EventTypeConsumerStopped SeverityCritical sample_status ''m'')"
  obtain j where "marshal_event UTC (with_fingerprint f (new_event (sample_publisher ''c1'') ''i'' 0
      EventTypeConsumerStopped SeverityCritical sample_status ''m'')) = Inr j"
    using marshal_event_finite [OF sample_status_fields(4-6) sample_times(1)] by blast
  then show ?thesis
    by (simp add: PublishPartitionEvent_def f_def [symmetric] dedupe_key_def Let_def)
      (simp add: sample_publisher_def sampleR_def numeral_eq_Suc)
qed



end
