(* ===== verification/Analyzer.thy ===== *)
theory Analyzer
  imports Publisher
begin

text \<open>
  The analyzer that turns evaluations into events (internal/publisher/analyzer.go), and its
  wrapper that serves as the collector's hook (internal/cluster/helper.go).

  The publisher is an argument: an operation \<open>pub\<close> that takes event type, severity, status and
  message and works on a world \<open>'w\<close>; \<open>clock\<close> gives the readings of the clock within one
  call: 0 at the suppression check, 1 and 2 after an event has been published.
\<close>

section \<open>State\<close>

type_synonym 'w sink =
  "string \<Rightarrow> EventSeverity \<Rightarrow> PartitionConsumerStatus \<Rightarrow> string \<Rightarrow> 'w \<Rightarrow> unit result \<times> 'w"

record EvaluatorWithRCA =
  ea_config :: Config
  ea_rcaPublisher :: "EventPublisher option"
  ea_previousStatuses :: "(string \<times> ConsumerStatus) list"
  ea_lastEventTime :: "(string \<times> gotime) list"

definition NewLagEvaluatorWithRCA :: "Config \<Rightarrow> EventPublisher option \<Rightarrow> EvaluatorWithRCA" where
  "NewLagEvaluatorWithRCA config rcaPublisher =
     \<lparr>ea_config = config, ea_rcaPublisher = rcaPublisher, ea_previousStatuses = [],
      ea_lastEventTime = []\<rparr>"

definition getStatusKey :: "PartitionConsumerStatus \<Rightarrow> string" where
  "getStatusKey status =
     ps_GroupID status @ '':'' @ ps_Topic status @ '':'' @ itoa (sint (ps_Partition status))"

section \<open>Detection\<close>

definition set_event_time ::
  "PartitionConsumerStatus \<Rightarrow> gotime \<Rightarrow> EvaluatorWithRCA \<Rightarrow> EvaluatorWithRCA" where
  "set_event_time status now e =
     e\<lparr>ea_lastEventTime := AList.update (getStatusKey status) now (ea_lastEventTime e)\<rparr>"

text \<open>The event type of a status change and its severity; both empty when there is none.\<close>

definition status_change_event :: "ConsumerStatus \<Rightarrow> ConsumerStatus \<Rightarrow> string \<times> EventSeverity" where
  "status_change_event status previousStatus =
     (case status of
        StatusStopped \<Rightarrow>
          if previousStatus = StatusActive \<or> previousStatus = StatusLagging
          then (EventTypeConsumerStopped, SeverityCritical) else ('''', '''')
      | StatusStalled \<Rightarrow>
          if previousStatus = StatusActive
          then (EventTypeConsumerStalled, SeverityWarning) else ('''', '''')
      | StatusActive \<Rightarrow>
          if previousStatus = StatusStopped \<or> previousStatus = StatusStalled
          then (EventTypeConsumerRecovered, SeverityInfo) else ('''', '''')
      | StatusEmpty \<Rightarrow>
          if previousStatus = StatusStopped \<or> previousStatus = StatusStalled
          then (EventTypeConsumerRecovered, SeverityInfo) else ('''', '''')
      | _ \<Rightarrow> ('''', ''''))"

definition publishStatusChangeEvent ::
  "'w sink \<Rightarrow> gotime \<Rightarrow> PartitionConsumerStatus \<Rightarrow> ConsumerStatus \<Rightarrow> EvaluatorWithRCA \<times> 'w \<Rightarrow>
     EvaluatorWithRCA \<times> 'w" where
  "publishStatusChangeEvent pub now status previousStatus ew =
     (let (e, w) = ew; (eventType, severity) = status_change_event (ps_Status status) previousStatus in
      if eventType \<noteq> '''' then
        (case pub eventType severity status (ps_Message status) w of
           (Inl err, w') \<Rightarrow> (e, w')
         | (Inr _, w') \<Rightarrow> (set_event_time status now e, w'))
      else (e, w))"

definition rapid_message :: "Config \<Rightarrow> PartitionConsumerStatus \<Rightarrow> string" where
  "rapid_message cfg status =
     ''Lag increasing rapidly at '' @ fmt_f 0 (ps_LagChangeRate status) @ '' msg/s (threshold: '' @
     fmt_f 0 (cfg_RapidLagIncreaseRate cfg) @ '' msg/s)''"

definition rapid_increase :: "Config \<Rightarrow> PartitionConsumerStatus \<Rightarrow> bool" where
  "rapid_increase cfg status \<longleftrightarrow>
     f_lt (f_mul (cfg_RapidLagIncreaseRate cfg) (FFin 2)) (ps_LagChangeRate status) \<and>
     1000 < sint (ps_CurrentLag status)"

definition lag_cleared :: "PartitionConsumerStatus \<Rightarrow> OffsetRecord list \<Rightarrow> bool" where
  "lag_cleared status records \<longleftrightarrow>
     ps_CurrentLag status = 0 \<and> 2 < length records \<and>
     1000 < sint (or_Lag (records ! (length records - 2)))"

definition detectCriticalConditions ::
  "'w sink \<Rightarrow> gotime \<Rightarrow> PartitionConsumerStatus \<Rightarrow> OffsetRecord list \<Rightarrow> EvaluatorWithRCA \<times> 'w \<Rightarrow>
     EvaluatorWithRCA \<times> 'w" where
  "detectCriticalConditions pub now status records ew =
     (let (e, w) = ew;
          (e1, w1) =
            (if rapid_increase (ea_config e) status then
               (case pub EventTypeRapidLagIncrease SeverityWarning status
                       (rapid_message (ea_config e) status) w of
                  (Inl err, w') \<Rightarrow> (e, w')
                | (Inr _, w') \<Rightarrow> (set_event_time status now e, w'))
             else (e, w))
      in if lag_cleared status records
         then (e1, snd (pub EventTypeLagCleared SeverityInfo status
                          ''Consumer has cleared significant lag'' w1))
         else (e1, w1))"

text \<open>\<open>suppressed\<close>: an event was published less than five minutes ago.\<close>

definition suppressed :: "EvaluatorWithRCA \<Rightarrow> string \<Rightarrow> gotime \<Rightarrow> bool" where
  "suppressed e key now =
     (case map_of (ea_lastEventTime e) key of
        None \<Rightarrow> False | Some lastTime \<Rightarrow> time_sub now lastTime < 5 * minute)"

definition detectAndPublishEvents ::
  "'w sink \<Rightarrow> (nat \<Rightarrow> gotime) \<Rightarrow> PartitionConsumerStatus \<Rightarrow> OffsetRecord list \<Rightarrow>
     EvaluatorWithRCA \<times> 'w \<Rightarrow> EvaluatorWithRCA \<times> 'w" where
  "detectAndPublishEvents pub clock status records ew =
     (let (e, w) = ew; key = getStatusKey status in
      if suppressed e key (clock 0) then (e, w)
      else
        let ew1 = (case map_of (ea_previousStatuses e) key of
              Some previousStatus \<Rightarrow>
                if previousStatus \<noteq> ps_Status status
                then publishStatusChangeEvent pub (clock 1) status previousStatus (e, w) else (e, w)
            | None \<Rightarrow> (e, w));
            (e2, w2) = detectCriticalConditions pub (clock 2) status records ew1
        in (e2\<lparr>ea_previousStatuses := AList.update key (ps_Status status) (ea_previousStatuses e2)\<rparr>, w2))"

definition EvaluatePartitionConsumerWithRCA ::
  "'w sink \<Rightarrow> (nat \<Rightarrow> gotime) \<Rightarrow> OffsetRecord list \<Rightarrow> string \<Rightarrow> string \<Rightarrow> i32 \<Rightarrow>
     EvaluatorWithRCA \<times> 'w \<Rightarrow> PartitionConsumerStatus \<times> EvaluatorWithRCA \<times> 'w" where
  "EvaluatePartitionConsumerWithRCA pub clock records groupID topic partn ew =
     (let (e, w) = ew;
          status = EvaluatePartitionConsumer (ea_config e) records groupID topic partn
      in if ea_rcaPublisher e \<noteq> None
         then (status, detectAndPublishEvents pub clock status records ew)
         else (status, ew))"

text \<open>The hook: it evaluates the records again and drops the result.\<close>

definition analyzePartition ::
  "'w sink \<Rightarrow> (nat \<Rightarrow> gotime) \<Rightarrow> PartitionConsumerStatus \<Rightarrow> OffsetRecord list \<Rightarrow>
     EvaluatorWithRCA \<times> 'w \<Rightarrow> EvaluatorWithRCA \<times> 'w" where
  "analyzePartition pub clock status records ew =
     snd (EvaluatePartitionConsumerWithRCA pub clock records (ps_GroupID status) (ps_Topic status)
            (ps_Partition status) ew)"


section \<open>What is published\<close>

text \<open>The events one evaluation calls for, as type, severity and message.\<close>

definition change_events ::
  "EvaluatorWithRCA \<Rightarrow> PartitionConsumerStatus \<Rightarrow> (string \<times> EventSeverity \<times> string) list" where
  "change_events e status =
     (case map_of (ea_previousStatuses e) (getStatusKey status) of
        None \<Rightarrow> []
      | Some previous \<Rightarrow>
          (if previous \<in> {StatusActive, StatusLagging} \<and> ps_Status status = StatusStopped
           then [(EventTypeConsumerStopped, SeverityCritical, ps_Message status)]
           else if previous = StatusActive \<and> ps_Status status = StatusStalled
           then [(EventTypeConsumerStalled, SeverityWarning, ps_Message status)]
           else if previous \<in> {StatusStopped, StatusStalled} \<and> ps_Status status \<in> {StatusActive, StatusEmpty}
           then [(EventTypeConsumerRecovered, SeverityInfo, ps_Message status)]
           else []))"

definition condition_events ::
  "EvaluatorWithRCA \<Rightarrow> PartitionConsumerStatus \<Rightarrow> OffsetRecord list \<Rightarrow> (string \<times> EventSeverity \<times> string) list" where
  "condition_events e status records =
     (if rapid_increase (ea_config e) status
      then [(EventTypeRapidLagIncrease, SeverityWarning, rapid_message (ea_config e) status)] else []) @
     (if lag_cleared status records
      then [(EventTypeLagCleared, SeverityInfo, ''Consumer has cleared significant lag'')] else [])"

definition publish_all ::
  "'w sink \<Rightarrow> PartitionConsumerStatus \<Rightarrow> (string \<times> EventSeverity \<times> string) list \<Rightarrow> 'w \<Rightarrow> 'w" where
  "publish_all pub status evs w = fold (\<lambda>(ty, sev, msg) w. snd (pub ty sev status msg w)) evs w"

lemma publish_all_simps [simp]:
  "publish_all pub st [] w = w"
  "publish_all pub st ((ty, sev, msg) # evs) w = publish_all pub st evs (snd (pub ty sev st msg w))"
  "publish_all pub st (xs @ ys) w = publish_all pub st ys (publish_all pub st xs w)"
  by (simp_all add: publish_all_def)

lemma set_event_time_simps [simp]:
  "ea_config (set_event_time st now e) = ea_config e"
  "ea_previousStatuses (set_event_time st now e) = ea_previousStatuses e"
  "ea_rcaPublisher (set_event_time st now e) = ea_rcaPublisher e"
  "map_of (ea_lastEventTime (set_event_time st now e)) =
     (map_of (ea_lastEventTime e))(getStatusKey st \<mapsto> now)"
  by (simp_all add: set_event_time_def update_conv')

text \<open>What a call leaves of the analyzer's state: only the entries of its own key change, and the
  time of the last event only to a reading of this call.\<close>

definition own_change ::
  "PartitionConsumerStatus \<Rightarrow> gotime set \<Rightarrow> EvaluatorWithRCA \<Rightarrow> EvaluatorWithRCA \<Rightarrow> bool" where
  "own_change st ts e e' \<longleftrightarrow> ea_config e' = ea_config e \<and> ea_rcaPublisher e' = ea_rcaPublisher e \<and>
     (\<forall>k. k \<noteq> getStatusKey st \<longrightarrow> map_of (ea_previousStatuses e') k = map_of (ea_previousStatuses e) k \<and>
        map_of (ea_lastEventTime e') k = map_of (ea_lastEventTime e) k) \<and>
     (map_of (ea_lastEventTime e') (getStatusKey st) = map_of (ea_lastEventTime e) (getStatusKey st) \<or>
      (\<exists>t \<in> ts. map_of (ea_lastEventTime e') (getStatusKey st) = Some t))"

lemma change_events_eq:
  assumes "map_of (ea_previousStatuses e) (getStatusKey st) = Some previous"
  shows "change_events e st = (let (eventType, severity) = status_change_event (ps_Status st) previous in
    if eventType \<noteq> '''' then [(eventType, severity, ps_Message st)] else [])"
  using assms
  by (cases "ps_Status st"; cases previous) (simp_all add: change_events_def status_change_event_def event_consts)

lemma change_published:
  assumes "map_of (ea_previousStatuses e) (getStatusKey st) = Some previous"
    and "publishStatusChangeEvent pub now st previous (e, w) = (e', w')"
  shows "w' = publish_all pub st (change_events e st) w \<and> own_change st {now} e e' \<and>
    ea_previousStatuses e' = ea_previousStatuses e"
  using assms(2) unfolding change_events_eq [OF assms(1)]
  by (auto simp: publishStatusChangeEvent_def Let_def own_change_def split: sum.splits prod.splits if_splits)

lemma conditions_published:
  assumes "detectCriticalConditions pub now st rs (e, w) = (e', w')"
  shows "w' = publish_all pub st (condition_events e st rs) w \<and> own_change st {now} e e' \<and>
    ea_previousStatuses e' = ea_previousStatuses e"
  using assms
  by (auto simp: detectCriticalConditions_def condition_events_def Let_def split_def own_change_def
      split: sum.splits prod.splits if_splits)
lemma own_change_trans:
  "own_change st ts e e1 \<Longrightarrow> own_change st us e1 e2 \<Longrightarrow> own_change st (ts \<union> us) e e2"
  by (auto simp: own_change_def)

lemma own_change_refl [simp]: "own_change st ts e e"
  by (simp add: own_change_def)

text \<open>The events of one call.\<close>

definition decided ::
  "EvaluatorWithRCA \<Rightarrow> gotime \<Rightarrow> PartitionConsumerStatus \<Rightarrow> OffsetRecord list \<Rightarrow>
     (string \<times> EventSeverity \<times> string) list" where
  "decided e now status records =
     (if suppressed e (getStatusKey status) now then []
      else change_events e status @ condition_events e status records)"

lemma condition_events_cong: "ea_config e' = ea_config e \<Longrightarrow> condition_events e' = condition_events e"
  by (intro ext) (simp add: condition_events_def)

lemma detect_eq:
  assumes "detectAndPublishEvents pub clock st rs (e, w) = (e', w')"
  shows "w' = publish_all pub st (decided e (clock 0) st rs) w \<and> own_change st {clock 1, clock 2} e e' \<and>
    map_of (ea_previousStatuses e') = (if suppressed e (getStatusKey st) (clock 0)
      then map_of (ea_previousStatuses e)
      else (map_of (ea_previousStatuses e))(getStatusKey st \<mapsto> ps_Status st))"
proof (cases "suppressed e (getStatusKey st) (clock 0)")
  case True
  then show ?thesis using assms by (simp add: detectAndPublishEvents_def decided_def)
next
  case False
  let ?key = "getStatusKey st"
  define ew1 where "ew1 = (case map_of (ea_previousStatuses e) ?key of
      Some previous \<Rightarrow> if previous \<noteq> ps_Status st then publishStatusChangeEvent pub (clock 1) st previous (e, w) else (e, w)
    | None \<Rightarrow> (e, w))"
  obtain e1 w1 where ew1: "ew1 = (e1, w1)" by force
  have one: "w1 = publish_all pub st (change_events e st) w" "own_change st {clock 1} e e1"
      "ea_previousStatuses e1 = ea_previousStatuses e"
  proof -
    have "w1 = publish_all pub st (change_events e st) w \<and> own_change st {clock 1} e e1 \<and>
        ea_previousStatuses e1 = ea_previousStatuses e"
    proof (cases "map_of (ea_previousStatuses e) ?key")
      case None
      then show ?thesis using ew1 by (simp add: ew1_def change_events_def)
    next
      case (Some previous)
      show ?thesis
      proof (cases "previous = ps_Status st")
        case True
        then have "change_events e st = []" using Some by (cases "ps_Status st") (simp_all add: change_events_def)
        then show ?thesis using ew1 Some True by (simp add: ew1_def)
      next
        case False
        then show ?thesis using ew1 Some change_published [OF Some, of pub "clock 1" w e1 w1] by (simp add: ew1_def)
      qed
    qed
    then show "w1 = publish_all pub st (change_events e st) w" "own_change st {clock 1} e e1"
      "ea_previousStatuses e1 = ea_previousStatuses e" by blast+
  qed
  obtain e2 w2 where ew2: "detectCriticalConditions pub (clock 2) st rs (e1, w1) = (e2, w2)" by force
  have "ea_config e1 = ea_config e" using one(2) by (simp add: own_change_def)
  then have same: "condition_events e1 = condition_events e" by (rule condition_events_cong)
  have two: "w2 = publish_all pub st (condition_events e st rs) w1" "own_change st {clock 2} e1 e2"
      "ea_previousStatuses e2 = ea_previousStatuses e1"
    using conditions_published [OF ew2] unfolding same by blast+
  have out: "e' = e2\<lparr>ea_previousStatuses := AList.update ?key (ps_Status st) (ea_previousStatuses e2)\<rparr>" "w' = w2"
    using assms False ew2
    unfolding detectAndPublishEvents_def Let_def prod.case ew1_def [symmetric] ew1 by simp_all
  have "own_change st {clock 1, clock 2} e e2"
    using own_change_trans [OF one(2) two(2)] by (simp add: insert_commute)
  then have "own_change st {clock 1, clock 2} e e'"
    by (simp add: out own_change_def update_conv')
  then show ?thesis using one two False unfolding out decided_def by (simp add: update_conv' del: publish_all_simps(2))
qed


section \<open>Runs\<close>

record observation =
  ob_clock :: "nat \<Rightarrow> gotime"
  ob_status :: PartitionConsumerStatus
  ob_records :: "OffsetRecord list"

definition ob_key :: "observation \<Rightarrow> string" where
  "ob_key o1 = getStatusKey (ob_status o1)"

fun analyze_all :: "'w sink \<Rightarrow> observation list \<Rightarrow> EvaluatorWithRCA \<times> 'w \<Rightarrow> EvaluatorWithRCA \<times> 'w" where
  "analyze_all pub [] ew = ew"
| "analyze_all pub (o1 # os) ew =
     analyze_all pub os (detectAndPublishEvents pub (ob_clock o1) (ob_status o1) (ob_records o1) ew)"

text \<open>The publications a run attempts: the key and the events of each call.\<close>

fun attempts ::
  "'w sink \<Rightarrow> observation list \<Rightarrow> EvaluatorWithRCA \<times> 'w \<Rightarrow> (string \<times> string) list" where
  "attempts pub [] ew = []"
| "attempts pub (o1 # os) ew =
     map (\<lambda>(ty, sev, msg). (ob_key o1, ty))
       (decided (fst ew) (ob_clock o1 0) (ob_status o1) (ob_records o1)) @
     attempts pub os (detectAndPublishEvents pub (ob_clock o1) (ob_status o1) (ob_records o1) ew)"

lemma detect_suppressed:
  "suppressed e (getStatusKey st) (clock 0) \<Longrightarrow> detectAndPublishEvents pub clock st rs (e, w) = (e, w)"
  by (simp add: detectAndPublishEvents_def)

lemma quiet_run:
  assumes "map_of (ea_lastEventTime (fst ew)) key = Some t"
    and "\<forall>o1 \<in> set os. ob_key o1 = key \<longrightarrow> time_sub (ob_clock o1 0) t < 5 * minute"
  shows "key \<notin> fst ` set (attempts pub os ew) \<and>
    map_of (ea_lastEventTime (fst (analyze_all pub os ew))) key = Some t \<and>
    map_of (ea_previousStatuses (fst (analyze_all pub os ew))) key = map_of (ea_previousStatuses (fst ew)) key"
  using assms
proof (induction os arbitrary: ew)
  case (Cons o1 os)
  obtain e w where ew: "ew = (e, w)" by force
  obtain e' w' where step: "detectAndPublishEvents pub (ob_clock o1) (ob_status o1) (ob_records o1) ew = (e', w')" by force
  have same: "map_of (ea_lastEventTime e') key = Some t \<and>
      map_of (ea_previousStatuses e') key = map_of (ea_previousStatuses e) key"
  proof (cases "ob_key o1 = key")
    case True
    then have "suppressed e (getStatusKey (ob_status o1)) (ob_clock o1 0)"
      using Cons.prems by (simp add: suppressed_def ob_key_def ew)
    then show ?thesis using step Cons.prems(1) by (simp add: ew detect_suppressed)
  next
    case False
    then show ?thesis using detect_eq [OF step [unfolded ew]] Cons.prems(1)
      by (auto simp: own_change_def ob_key_def ew)
  qed
  have "key \<notin> (\<lambda>x. ob_key o1) ` set (decided e (ob_clock o1 0) (ob_status o1) (ob_records o1))"
    using Cons.prems by (auto simp: decided_def suppressed_def ob_key_def ew)
  then show ?case using Cons.IH [of "(e', w')"] same Cons.prems(2) step
    by (auto simp: ew split_def)
qed simp

section \<open>Properties\<close>



text \<open>C30: A status change is offered to the publisher once: the new status is tracked whatever the
  publisher answered, so that the next evaluation with that status finds no change, and a change
  whose publication failed is never published.\<close>

theorem failed_change_is_not_retried:
  assumes "\<not> suppressed e (getStatusKey st) (clock 0)"
    and "detectAndPublishEvents pub clock st rs (e, w) = (e', w')"
    and "getStatusKey st' = getStatusKey st" and "ps_Status st' = ps_Status st"
    and "detectAndPublishEvents pub' clock' st' rs' (e', w') = (e'', w'')"
  shows "w'' = publish_all pub' st' (if suppressed e' (getStatusKey st') (clock' 0) then []
    else condition_events e' st' rs') w'"
proof -
  have "map_of (ea_previousStatuses e') (getStatusKey st') = Some (ps_Status st')"
    using detect_eq [OF assms(2)] assms(1,3,4) by simp
  then have "change_events e' st' = []" by (cases "ps_Status st'") (simp_all add: change_events_def)
  then show ?thesis using detect_eq [OF assms(5)] by (simp add: decided_def)
qed

text \<open>The analysis of one partition leaves what is tracked of every other partition alone.\<close>

lemma analysis_is_per_partition:
  assumes "detectAndPublishEvents pub clock st rs (e, w) = (e', w')"
    and "CHR '':'' \<notin> set (ps_Topic st)" and "CHR '':'' \<notin> set (ps_Topic other)"
    and "(ps_GroupID other, ps_Topic other, ps_Partition other) \<noteq> (ps_GroupID st, ps_Topic st, ps_Partition st)"
  shows "map_of (ea_previousStatuses e') (getStatusKey other) = map_of (ea_previousStatuses e) (getStatusKey other) \<and>
    suppressed e' (getStatusKey other) = suppressed e (getStatusKey other)"
proof -
  have key: "getStatusKey s = windowKey (ps_GroupID s) (ps_Topic s) (ps_Partition s)" for s
    by (simp add: getStatusKey_def windowKey_def)
  have "getStatusKey other \<noteq> getStatusKey st"
    unfolding key using windowKey_inj [OF assms(3,2)] assms(4) by blast
  then show ?thesis using detect_eq [OF assms(1)] by (simp add: own_change_def suppressed_def fun_eq_iff)
qed

text \<open>The hook evaluates the records again, and the status it analyses is the one the collector
  computed from them and stores, given the same configuration.\<close>

lemma hook_analyses_stored_status:
  assumes "ea_config e = cfg" and "ea_rcaPublisher e \<noteq> None"
  shows "analyzePartition pub clock (EvaluatePartitionConsumer cfg rs g t p) rs (e, w) =
    detectAndPublishEvents pub clock (EvaluatePartitionConsumer cfg rs g t p) rs (e, w)"
  using assms by (auto simp: analyzePartition_def EvaluatePartitionConsumerWithRCA_def Let_def)

section \<open>Samples\<close>

text \<open>A sink that keeps the types of the events, and one that always fails.\<close>

definition list_sink :: "string list sink" where
  "list_sink ty sev st msg w = (Inr (), w @ [ty])"

definition broken_sink :: "string list sink" where
  "broken_sink ty sev st msg w = (Inl (ErrText ''down''), w)"

definition sample_observed :: "ConsumerStatus \<Rightarrow> PartitionConsumerStatus" where
  "sample_observed s = sample_status\<lparr>ps_Status := s, ps_CurrentLag := 5\<rparr>"

definition sample_analyzer :: EvaluatorWithRCA where
  "sample_analyzer = (NewLagEvaluatorWithRCA dev_config (Some (sample_publisher ''c1'')))
     \<lparr>ea_previousStatuses := [(getStatusKey (sample_observed StatusActive), StatusActive)]\<rparr>"

lemma sample_observed_simps [simp]:
  "ps_Status (sample_observed s) = s" "getStatusKey (sample_observed s) = getStatusKey sample_status"
  "ps_CurrentLag (sample_observed s) = 5" "ps_Topic (sample_observed s) = ''t''"
  "ps_GroupID (sample_observed s) = ''g''" "ps_Partition (sample_observed s) = 0"
  by (simp_all add: sample_observed_def getStatusKey_def)

lemma sample_unsuppressed [simp]: "\<not> suppressed sample_analyzer key now"
  by (simp add: suppressed_def sample_analyzer_def NewLagEvaluatorWithRCA_def)

lemma sample_conditions [simp]: "condition_events e (sample_observed s) rs = []"
  by (simp add: condition_events_def rapid_increase_def lag_cleared_def)



theorem failed_change_is_not_retried_witness:
  "\<exists>e' e''. detectAndPublishEvents broken_sink (\<lambda>n. 0) (sample_observed StatusStopped) [] (sample_analyzer, []) = (e', []) \<and>
     detectAndPublishEvents list_sink (\<lambda>n. 0) (sample_observed StatusStopped) [] (e', []) = (e'', [])"
proof -
  obtain e' w' where run: "detectAndPublishEvents broken_sink (\<lambda>n. 0) (sample_observed StatusStopped) [] (sample_analyzer, []) = (e', w')"
    by force
  then have w': "w' = []"
    using detect_eq [OF run] by (simp add: decided_def change_events_def sample_analyzer_def broken_sink_def)
  obtain e'' w'' where again: "detectAndPublishEvents list_sink (\<lambda>n. 0) (sample_observed StatusStopped) [] (e', w') = (e'', w'')"
    by force
  have "w'' = w'"
    using failed_change_is_not_retried [OF _ run refl refl again] by simp
  then show ?thesis using run again w' by blast
qed

end
