(* ===== verification/Manager.thy ===== *)
theory Manager
  imports Analyzer Collector_Periodic
begin

text \<open>
  The manager of several clusters (internal/cluster/manager.go, internal/cluster/helper.go).

  Each operation takes and gives the manager's state and lists its effects on what lives
  outside it: the collection goroutine of a cluster started, its context cancelled, its Kafka
  client and its Redis client closed.
\<close>

section \<open>State\<close>

record ConfigCluster =
  ck_Name :: string
  ck_Enabled :: bool
  ck_Brokers :: "string list"
  ck_Collector :: "Config option"

text \<open>A collector's hook state is its analyzer, when it has one.\<close>

record CollectorCluster =
  cc_ClusterName :: string
  cc_Collector :: "EvaluatorWithRCA option Collector"
  cc_Config :: ConfigCluster
  cc_LastError :: "go_error option"
  cc_RCAPublisher :: "EventPublisher option"

record Manager =
  mg_clusters :: "(string \<times> CollectorCluster) list"
  mg_globalConfig :: Config
  mg_rcaConfig :: "RcaConfig option"

datatype effect =
    CollectionStarted string
  | ContextCancelled string
  | ClientClosed string
  | PublisherClosed string
  | ManagerCancelled

definition NewManager :: "Config \<Rightarrow> Manager" where
  "NewManager globalConfig = \<lparr>mg_clusters = [], mg_globalConfig = globalConfig, mg_rcaConfig = None\<rparr>"

definition NewManagerWithRCA :: "Config \<Rightarrow> RcaConfig \<Rightarrow> Manager" where
  "NewManagerWithRCA globalConfig rcaConfig =
     \<lparr>mg_clusters = [], mg_globalConfig = globalConfig, mg_rcaConfig = Some rcaConfig\<rparr>"

section \<open>Adding and removing clusters\<close>

fun joinBrokers_loop :: "string list \<Rightarrow> nat \<Rightarrow> string \<Rightarrow> string" where
  "joinBrokers_loop [] i result = result"
| "joinBrokers_loop (broker # brokers) i result =
     joinBrokers_loop brokers (Suc i) ((if 0 < i then result @ '','' else result) @ broker)"

definition joinBrokers :: "string list \<Rightarrow> string" where
  "joinBrokers brokers = joinBrokers_loop brokers 0 ''''"

text \<open>
  \<open>adminReply\<close> and \<open>consumerReply\<close> are the replies of the Kafka library, \<open>R\<close> and \<open>r\<close> Redis
  and its state.  A publisher that cannot be made leaves a collector without one.
\<close>

definition createCollectorWithRCA ::
  "'r redis \<Rightarrow> 'r \<Rightarrow> unit result \<Rightarrow> unit result \<Rightarrow> string \<Rightarrow> Config \<Rightarrow> RcaConfig option \<Rightarrow> string \<Rightarrow>
     (EvaluatorWithRCA option Collector \<times> EventPublisher option) result" where
  "createCollectorWithRCA R r adminReply consumerReply brokers config rcaConfig clusterName =
     (case fst (NewClient \<lparr>kc_Brokers = brokers, kc_ConsumerGroup = ''lagradar_metrics_collector'',
                          kc_RequestTimeout = 5 * second\<rparr> adminReply consumerReply) of
        Inl e \<Rightarrow> Inl (ErrWrap ''failed to create kafka client: '' e)
      | Inr client \<Rightarrow>
          let coll = NewWithClient config None in
          (case rcaConfig of
             None \<Rightarrow> Inr (coll, None)
           | Some rca \<Rightarrow>
               if \<not> pc_Enabled (rc_Publisher rca) then Inr (coll, None)
               else case NewEventPublisher R rca clusterName r of
                   Inl e \<Rightarrow> Inr (coll, None)
                 | Inr p \<Rightarrow> Inr (coll\<lparr>co_hookState := Some (NewLagEvaluatorWithRCA config (Some p))\<rparr>, Some p)))"

definition AddCluster ::
  "'r redis \<Rightarrow> 'r \<Rightarrow> unit result \<Rightarrow> unit result \<Rightarrow> ConfigCluster \<Rightarrow> Manager \<Rightarrow>
     unit result \<times> Manager \<times> effect list" where
  "AddCluster R r adminReply consumerReply config m =
     (if \<not> ck_Enabled config then (Inr (), m, [])
      else if map_of (mg_clusters m) (ck_Name config) \<noteq> None
      then (Inl (ErrText (''cluster '' @ ck_Name config @ '' already exists'')), m, [])
      else
        let collectorConfig = (case ck_Collector config of None \<Rightarrow> mg_globalConfig m | Some c \<Rightarrow> c) in
        case createCollectorWithRCA R r adminReply consumerReply (joinBrokers (ck_Brokers config))
               collectorConfig (mg_rcaConfig m) (ck_Name config) of
          Inl e \<Rightarrow> (Inl (ErrWrap (''failed to create collector for cluster '' @ ck_Name config @ '': '') e), m, [])
        | Inr (coll, rcaPublisher) \<Rightarrow>
            (Inr (), m\<lparr>mg_clusters := AList.update (ck_Name config)
               \<lparr>cc_ClusterName = ck_Name config, cc_Collector = coll, cc_Config = config,
                cc_LastError = None, cc_RCAPublisher = rcaPublisher\<rparr> (mg_clusters m)\<rparr>,
             [CollectionStarted (ck_Name config)]))"

text \<open>What the goroutine of a cluster does to its collector, over the events it receives.\<close>

definition startClusterCollection ::
  "EvaluatorWithRCA option hook \<Rightarrow> kafka_env \<Rightarrow> nat list \<Rightarrow> tick list \<Rightarrow> CollectorCluster \<Rightarrow> CollectorCluster go" where
  "startClusterCollection hook env order ticks cc =
     go_bind (StartPeriodicCollection hook (cc_ClusterName cc) env order ticks (cc_Collector cc))
       (\<lambda>c. Ret (cc\<lparr>cc_Collector := c\<rparr>))"

text \<open>\<open>Close\<close> of a publisher does nothing when there is no connection.\<close>

definition close_effects :: "string \<Rightarrow> CollectorCluster \<Rightarrow> effect list" where
  "close_effects clusterName cc =
     [ContextCancelled clusterName, ClientClosed clusterName] @
     (case cc_RCAPublisher cc of
        None \<Rightarrow> []
      | Some p \<Rightarrow> if ep_client p then [PublisherClosed clusterName] else [])"

definition RemoveCluster :: "string \<Rightarrow> Manager \<Rightarrow> unit result \<times> Manager \<times> effect list" where
  "RemoveCluster clusterName m =
     (case map_of (mg_clusters m) clusterName of
        None \<Rightarrow> (Inl (ErrText (''cluster '' @ clusterName @ '' not found'')), m, [])
      | Some cc \<Rightarrow>
          (Inr (), m\<lparr>mg_clusters := AList.delete clusterName (mg_clusters m)\<rparr>,
           close_effects clusterName cc))"

text \<open>\<open>Stop\<close> leaves the clusters in the map.\<close>

definition Stop :: "Manager \<Rightarrow> Manager \<times> effect list" where
  "Stop m = (m, ManagerCancelled # concat (map (\<lambda>(name, cc). close_effects name cc) (mg_clusters m)))"

section \<open>Reading\<close>

record GroupStatusCluster =
  gc_ClusterName :: string
  gc_GroupStatus :: GroupStatus

definition GetCluster :: "Manager \<Rightarrow> string \<Rightarrow> CollectorCluster option" where
  "GetCluster m clusterName = map_of (mg_clusters m) clusterName"

definition GetAllClusters :: "Manager \<Rightarrow> (string \<times> CollectorCluster) list" where
  "GetAllClusters m = fold (\<lambda>(k, v) result. AList.update k v result) (mg_clusters m) []"

fun cluster_groups_loop ::
  "string \<Rightarrow> (string \<times> GroupStatus) list \<Rightarrow> (string \<times> GroupStatusCluster) list \<Rightarrow>
     (string \<times> GroupStatusCluster) list" where
  "cluster_groups_loop clusterName [] result = result"
| "cluster_groups_loop clusterName ((groupID, status) # statuses) result =
     cluster_groups_loop clusterName statuses
       (AList.update (clusterName @ ''/'' @ groupID)
          \<lparr>gc_ClusterName = clusterName, gc_GroupStatus = status\<rparr> result)"

fun all_groups_loop ::
  "(string \<times> CollectorCluster) list \<Rightarrow> (string \<times> GroupStatusCluster) list \<Rightarrow>
     (string \<times> GroupStatusCluster) list" where
  "all_groups_loop [] result = result"
| "all_groups_loop ((clusterName, cc) # clusters) result =
     all_groups_loop clusters
       (cluster_groups_loop clusterName (GetAllGroupStatuses (cc_Collector cc)) result)"

definition Manager_GetAllGroupStatuses :: "Manager \<Rightarrow> (string \<times> GroupStatusCluster) list" where
  "Manager_GetAllGroupStatuses m = all_groups_loop (GetAllClusters m) []"

definition GetClusterGroupStatuses :: "Manager \<Rightarrow> string \<Rightarrow> (string \<times> GroupStatusCluster) list result" where
  "GetClusterGroupStatuses m clusterName =
     (case GetCluster m clusterName of
        None \<Rightarrow> Inl (ErrText (''cluster '' @ clusterName @ '' not found''))
      | Some cc \<Rightarrow> Inr (fold (\<lambda>(g, status) result.
          AList.update g \<lparr>gc_ClusterName = clusterName, gc_GroupStatus = status\<rparr> result)
          (GetAllGroupStatuses (cc_Collector cc)) []))"

text \<open>The second component of a success is \<open>found\<close>.\<close>

definition Manager_GetGroupStatus ::
  "Manager \<Rightarrow> string \<Rightarrow> string \<Rightarrow> GroupStatusCluster option result" where
  "Manager_GetGroupStatus m clusterName groupID =
     (case GetCluster m clusterName of
        None \<Rightarrow> Inl (ErrText (''cluster '' @ clusterName @ '' not found''))
      | Some cc \<Rightarrow>
          (case GetGroupStatus (cc_Collector cc) groupID of
             None \<Rightarrow> Inr None
           | Some status \<Rightarrow> Inr (Some \<lparr>gc_ClusterName = clusterName, gc_GroupStatus = status\<rparr>)))"

definition GetLastError :: "CollectorCluster \<Rightarrow> go_error option" where
  "GetLastError cc = cc_LastError cc"


section \<open>Lifecycle\<close>

datatype manager_op = AddOp "unit result" "unit result" ConfigCluster | RemoveOp string

fun run_op :: "'r redis \<Rightarrow> 'r \<Rightarrow> manager_op \<Rightarrow> Manager \<Rightarrow> unit result \<times> Manager \<times> effect list" where
  "run_op R r (AddOp admin consumer config) m = AddCluster R r admin consumer config m"
| "run_op R r (RemoveOp name) m = RemoveCluster name m"

fun run_ops :: "'r redis \<Rightarrow> 'r \<Rightarrow> manager_op list \<Rightarrow> Manager \<Rightarrow> Manager \<times> effect list" where
  "run_ops R r [] m = (m, [])"
| "run_ops R r (op # ops) m =
     (let (res, m1, effs) = run_op R r op m; (m2, effs') = run_ops R r ops m1 in (m2, effs @ effs'))"

text \<open>One entry per cluster, and one open client and context per entry.\<close>

definition balanced :: "Manager \<Rightarrow> Manager \<Rightarrow> effect list \<Rightarrow> bool" where
  "balanced m m' effs \<longleftrightarrow> (\<forall>n.
     count_list effs (ClientClosed n) + (if n \<in> keys (mg_clusters m') then 1 else 0) =
       count_list effs (CollectionStarted n) + (if n \<in> keys (mg_clusters m) then 1 else 0) \<and>
     count_list effs (ContextCancelled n) = count_list effs (ClientClosed n))"

lemma keys_delete [simp]: "keys (AList.delete k al) = keys al - {k}"
  unfolding keys_def set_map [symmetric] delete_keys by auto

lemma close_effects_count:
  "count_list (close_effects k cc) (ClientClosed n) = (if n = k then 1 else 0)"
  "count_list (close_effects k cc) (ContextCancelled n) = (if n = k then 1 else 0)"
  "count_list (close_effects k cc) (CollectionStarted n) = 0"
  by (auto simp: close_effects_def split: option.split)

lemma distinct_delete: "distinct (map fst al) \<Longrightarrow> distinct (map fst (AList.delete k al))"
  by (rule AList.distinct_delete)

lemma AddCluster_cases:
  assumes "AddCluster R r admin consumer config m = (res, m', effs)"
  shows "(m' = m \<and> effs = []) \<or>
    (\<exists>cc. ck_Name config \<notin> keys (mg_clusters m) \<and> effs = [CollectionStarted (ck_Name config)] \<and> res = Inr () \<and>
       ck_Enabled config \<and> m' = m\<lparr>mg_clusters := AList.update (ck_Name config) cc (mg_clusters m)\<rparr> \<and>
       cc_ClusterName cc = ck_Name config \<and> cc_Config cc = config \<and>
       co_config (cc_Collector cc) = (case ck_Collector config of None \<Rightarrow> mg_globalConfig m | Some c \<Rightarrow> c) \<and>
       co_statusStore (cc_Collector cc) = [])"
proof (cases "\<not> ck_Enabled config \<or> map_of (mg_clusters m) (ck_Name config) \<noteq> None")
  case True
  then show ?thesis using assms by (cases "ck_Enabled config") (simp_all add: AddCluster_def)
next
  case False
  let ?cfg = "case ck_Collector config of None \<Rightarrow> mg_globalConfig m | Some c \<Rightarrow> c"
  define made where "made = createCollectorWithRCA R r admin consumer (joinBrokers (ck_Brokers config))
    ?cfg (mg_rcaConfig m) (ck_Name config)"
  have coll: "co_config coll = ?cfg \<and> co_statusStore coll = []" if "made = Inr (coll, p)" for coll p
    using that by (auto simp: made_def createCollectorWithRCA_def NewWithClient_def Let_def
        split: sum.splits option.splits if_splits)
  have key: "ck_Name config \<notin> keys (mg_clusters m)" using False by (simp add: keys_map_of)
  show ?thesis
  proof (cases made)
    case (Inl e)
    then show ?thesis using assms False by (simp add: AddCluster_def Let_def made_def [symmetric])
  next
    case (Inr cp)
    obtain coll p where cp: "cp = (coll, p)" by force
    let ?cc = "\<lparr>cc_ClusterName = ck_Name config, cc_Collector = coll, cc_Config = config, cc_LastError = None,
      cc_RCAPublisher = p\<rparr>"
    have "res = Inr () \<and> effs = [CollectionStarted (ck_Name config)] \<and>
        m' = m\<lparr>mg_clusters := AList.update (ck_Name config) ?cc (mg_clusters m)\<rparr>"
      using assms False Inr cp by (simp add: AddCluster_def Let_def made_def [symmetric])
    then show ?thesis using key coll [of coll p] Inr cp False by (intro disjI2 exI [of _ ?cc]) simp
  qed
qed

lemma run_op_balanced:
  assumes "run_op R r op m = (res, m', effs)" and "distinct (map fst (mg_clusters m))"
  shows "balanced m m' effs \<and> distinct (map fst (mg_clusters m'))"
proof (cases op)
  case (AddOp admin consumer config)
  have "AddCluster R r admin consumer config m = (res, m', effs)" using assms(1) AddOp by simp
  from AddCluster_cases [OF this] show ?thesis using assms(2)
    by (elim disjE exE conjE) (simp_all add: balanced_def distinct_update)
next
  case (RemoveOp name)
  show ?thesis
  proof (cases "map_of (mg_clusters m) name")
    case None
    then show ?thesis using assms RemoveOp by (auto simp: RemoveCluster_def balanced_def)
  next
    case (Some cc)
    then have "name \<in> keys (mg_clusters m)" by (simp add: keys_map_of)
    then show ?thesis using assms RemoveOp Some
      by (auto simp: RemoveCluster_def balanced_def close_effects_count distinct_delete)
  qed
qed

lemma run_ops_balanced:
  assumes "run_ops R r ops m = (m', effs)" and "distinct (map fst (mg_clusters m))"
  shows "balanced m m' effs \<and> distinct (map fst (mg_clusters m'))"
  using assms
proof (induction ops arbitrary: m effs)
  case Nil
  then show ?case by (simp add: balanced_def)
next
  case (Cons op ops)
  obtain res m1 e1 where one: "run_op R r op m = (res, m1, e1)" by (metis prod_cases3)
  obtain e2 where two: "run_ops R r ops m1 = (m', e2)" "effs = e1 @ e2"
    using Cons.prems(1) one by (auto simp: Let_def split: prod.splits)
  have b1: "balanced m m1 e1" and d1: "distinct (map fst (mg_clusters m1))"
    using run_op_balanced [OF one Cons.prems(2)] by blast+
  have b2: "balanced m1 m' e2" and d2: "distinct (map fst (mg_clusters m'))"
    using Cons.IH [OF two(1) d1] by blast+
  have "balanced m m' effs"
    unfolding balanced_def two(2) count_list_append
  proof (intro allI)
    fix n
    show "count_list e1 (ClientClosed n) + count_list e2 (ClientClosed n) + (if n \<in> keys (mg_clusters m') then 1 else 0) =
        count_list e1 (CollectionStarted n) + count_list e2 (CollectionStarted n) + (if n \<in> keys (mg_clusters m) then 1 else 0) \<and>
        count_list e1 (ContextCancelled n) + count_list e2 (ContextCancelled n) =
        count_list e1 (ClientClosed n) + count_list e2 (ClientClosed n)"
      using spec [OF b1 [unfolded balanced_def], of n] spec [OF b2 [unfolded balanced_def], of n] by linarith
  qed
  then show ?case using d2 by blast
qed

lemma stop_counts:
  assumes "distinct (map fst cs)"
  shows "count_list (concat (map (\<lambda>(name, cc). close_effects name cc) cs)) (ClientClosed n) =
      (if n \<in> keys cs then 1 else 0) \<and>
    count_list (concat (map (\<lambda>(name, cc). close_effects name cc) cs)) (ContextCancelled n) =
      (if n \<in> keys cs then 1 else 0) \<and>
    count_list (concat (map (\<lambda>(name, cc). close_effects name cc) cs)) (CollectionStarted n) = 0"
  using assms
proof (induction cs)
  case (Cons kc cs)
  obtain k cc where kc: "kc = (k, cc)" by force
  have "k \<notin> keys cs" using Cons.prems by (simp add: kc keys_def)
  then show ?case using Cons by (auto simp: kc close_effects_count)
qed simp

section \<open>The aggregated view\<close>

lemma cluster_groups_loop_lookup:
  assumes "distinct (map fst statuses)"
  shows "map_of (cluster_groups_loop c statuses result) k =
    (if \<exists>g st. k = c @ ''/'' @ g \<and> map_of statuses g = Some st
     then Some \<lparr>gc_ClusterName = c, gc_GroupStatus = the (map_of statuses (drop (Suc (length c)) k))\<rparr>
     else map_of result k)"
  using assms
proof (induction statuses arbitrary: result)
  case (Cons gst statuses)
  obtain g st where gst: "gst = (g, st)" by (cases gst)
  have fresh: "map_of statuses g = None" using Cons.prems by (simp add: gst map_of_eq_None_iff)
  show ?case
  proof (cases "k = c @ ''/'' @ g")
    case True
    then show ?thesis using Cons.IH [of "AList.update (c @ ''/'' @ g) \<lparr>gc_ClusterName = c, gc_GroupStatus = st\<rparr> result"] Cons.prems fresh
      by (auto simp: gst update_conv')
  next
    case False
    have "(\<exists>g' st'. k = c @ ''/'' @ g' \<and> map_of ((g, st) # statuses) g' = Some st') \<longleftrightarrow>
        (\<exists>g' st'. k = c @ ''/'' @ g' \<and> map_of statuses g' = Some st')"
      using False by auto
    moreover have "map_of ((g, st) # statuses) (drop (Suc (length c)) k) = map_of statuses (drop (Suc (length c)) k)"
      if "\<exists>g' st'. k = c @ ''/'' @ g' \<and> map_of statuses g' = Some st'"
      using that False by auto
    ultimately show ?thesis
      using Cons.IH [of "AList.update (c @ ''/'' @ g) \<lparr>gc_ClusterName = c, gc_GroupStatus = st\<rparr> result"] Cons.prems False
      by (auto simp: gst update_conv')
  qed
qed simp
lemma all_groups_loop_lookup:
  assumes "distinct (map fst clusters)"
    and "\<forall>(c, cc) \<in> set clusters. CHR ''/'' \<notin> set c \<and> distinct (map fst (co_statusStore (cc_Collector cc)))"
    and "CHR ''/'' \<notin> set c"
  shows "map_of (all_groups_loop clusters result) (c @ ''/'' @ g) =
    (case map_of clusters c of
       Some cc \<Rightarrow> (case map_of (co_statusStore (cc_Collector cc)) g of
           Some st \<Rightarrow> Some \<lparr>gc_ClusterName = c, gc_GroupStatus = st\<rparr>
         | None \<Rightarrow> map_of result (c @ ''/'' @ g))
     | None \<Rightarrow> map_of result (c @ ''/'' @ g))"
  using assms
proof (induction clusters arbitrary: result)
  case (Cons kc clusters)
  obtain k cc where kc: "kc = (k, cc)" by force
  let ?sts = "co_statusStore (cc_Collector cc)"
  have k: "CHR ''/'' \<notin> set k" "distinct (map fst ?sts)" using Cons.prems(2) by (simp_all add: kc)
  have all: "GetAllGroupStatuses (cc_Collector cc) = ?sts"
    using k(2) by (simp add: GetAllGroupStatuses_def fold_update_fresh)
  have inj: "c @ CHR ''/'' # g = k @ CHR ''/'' # g' \<longleftrightarrow> c = k \<and> g = g'" for g'
    using Cons.prems(3) k(1) by (rule split_first_unique)
  have one: "map_of (cluster_groups_loop k ?sts result) (c @ ''/'' @ g) =
      (if c = k \<and> map_of ?sts g \<noteq> None then Some \<lparr>gc_ClusterName = c, gc_GroupStatus = the (map_of ?sts g)\<rparr>
       else map_of result (c @ ''/'' @ g))"
  proof -
    have "c @ ''/'' @ g = k @ ''/'' @ g' \<longleftrightarrow> c = k \<and> g = g'" for g' using inj by simp
    then have ex: "(\<exists>g' st. c @ ''/'' @ g = k @ ''/'' @ g' \<and> map_of ?sts g' = Some st) \<longleftrightarrow>
        c = k \<and> map_of ?sts g \<noteq> None" by blast
    have "c = k \<Longrightarrow> drop (Suc (length k)) (c @ ''/'' @ g) = g" by simp
    then show ?thesis unfolding cluster_groups_loop_lookup [OF k(2)] ex by (cases "c = k") simp_all
  qed
  have IH: "map_of (all_groups_loop clusters (cluster_groups_loop k ?sts result)) (c @ ''/'' @ g) =
    (case map_of clusters c of
       Some cc \<Rightarrow> (case map_of (co_statusStore (cc_Collector cc)) g of
           Some st \<Rightarrow> Some \<lparr>gc_ClusterName = c, gc_GroupStatus = st\<rparr>
         | None \<Rightarrow> map_of (cluster_groups_loop k ?sts result) (c @ ''/'' @ g))
     | None \<Rightarrow> map_of (cluster_groups_loop k ?sts result) (c @ ''/'' @ g))"
    by (rule Cons.IH) (use Cons.prems in \<open>simp_all add: kc\<close>)
  have step: "all_groups_loop (kc # clusters) result = all_groups_loop clusters (cluster_groups_loop k ?sts result)"
    by (simp add: kc all)
  show ?case
  proof (cases "c = k")
    case True
    then have "map_of clusters c = None" using Cons.prems(1) by (simp add: kc map_of_eq_None_iff)
    then show ?thesis unfolding step IH one using True by (simp add: kc split: option.split)
  next
    case False
    then show ?thesis unfolding step IH one by (simp add: kc)
  qed
qed simp

lemma cluster_groups_loop_keys:
  "keys (cluster_groups_loop c statuses result) = (\<lambda>g. c @ ''/'' @ g) ` keys statuses \<union> keys result"
  by (induction statuses arbitrary: result) auto

lemma all_groups_loop_keys:
  assumes "\<forall>(c, cc) \<in> set clusters. distinct (map fst (co_statusStore (cc_Collector cc)))"
  shows "keys (all_groups_loop clusters result) =
    {c @ ''/'' @ g | c cc g. (c, cc) \<in> set clusters \<and> g \<in> keys (co_statusStore (cc_Collector cc))} \<union> keys result"
  using assms
proof (induction clusters arbitrary: result)
  case (Cons kc clusters)
  obtain k cc where kc: "kc = (k, cc)" by force
  have all: "GetAllGroupStatuses (cc_Collector cc) = co_statusStore (cc_Collector cc)"
    using Cons.prems by (simp add: kc GetAllGroupStatuses_def fold_update_fresh)
  show ?case using Cons by (auto simp: kc all cluster_groups_loop_keys)
qed simp

definition stores_ok :: "Manager \<Rightarrow> bool" where
  "stores_ok m \<longleftrightarrow> distinct (map fst (mg_clusters m)) \<and>
     (\<forall>(c, cc) \<in> set (mg_clusters m). distinct (map fst (co_statusStore (cc_Collector cc))))"

definition no_slash :: "Manager \<Rightarrow> bool" where
  "no_slash m \<longleftrightarrow> (\<forall>c \<in> keys (mg_clusters m). CHR ''/'' \<notin> set c)"

lemma GetAllClusters_eq: "distinct (map fst (mg_clusters m)) \<Longrightarrow> GetAllClusters m = mg_clusters m"
  by (simp add: GetAllClusters_def fold_update_fresh)

lemma aggregated_lookup:
  assumes "stores_ok m" and "no_slash m" and "CHR ''/'' \<notin> set c"
  shows "map_of (Manager_GetAllGroupStatuses m) (c @ ''/'' @ g) =
    (case Manager_GetGroupStatus m c g of Inr (Some st) \<Rightarrow> Some st | _ \<Rightarrow> None)"
proof -
  have "\<forall>(c, cc) \<in> set (mg_clusters m). CHR ''/'' \<notin> set c \<and> distinct (map fst (co_statusStore (cc_Collector cc)))"
    using assms(1,2) by (force simp: stores_ok_def no_slash_def keys_def)
  then have "map_of (all_groups_loop (mg_clusters m) []) (c @ ''/'' @ g) =
    (case map_of (mg_clusters m) c of
       Some cc \<Rightarrow> (case map_of (co_statusStore (cc_Collector cc)) g of
           Some st \<Rightarrow> Some \<lparr>gc_ClusterName = c, gc_GroupStatus = st\<rparr>
         | None \<Rightarrow> map_of [] (c @ ''/'' @ g))
     | None \<Rightarrow> map_of [] (c @ ''/'' @ g))"
    using assms(1,3) by (intro all_groups_loop_lookup) (simp_all add: stores_ok_def)
  moreover have "Manager_GetAllGroupStatuses m = all_groups_loop (mg_clusters m) []"
    using assms(1) by (simp add: Manager_GetAllGroupStatuses_def GetAllClusters_eq stores_ok_def)
  ultimately show ?thesis
    by (simp only: Manager_GetGroupStatus_def GetCluster_def GetGroupStatus_def) (simp split: option.split)
qed

lemma aggregated_keys:
  assumes "stores_ok m"
  shows "keys (Manager_GetAllGroupStatuses m) =
    {c @ ''/'' @ g | c g. \<exists>st. Manager_GetGroupStatus m c g = Inr (Some st)}"
proof -
  have "keys (Manager_GetAllGroupStatuses m) =
      {c @ ''/'' @ g | c cc g. (c, cc) \<in> set (mg_clusters m) \<and> g \<in> keys (co_statusStore (cc_Collector cc))}"
    using assms by (simp add: Manager_GetAllGroupStatuses_def GetAllClusters_eq all_groups_loop_keys stores_ok_def)
  also have "\<dots> = {c @ ''/'' @ g | c g. \<exists>st. Manager_GetGroupStatus m c g = Inr (Some st)}"
  proof -
    have "(\<exists>cc. (c, cc) \<in> set (mg_clusters m) \<and> g \<in> keys (co_statusStore (cc_Collector cc))) \<longleftrightarrow>
        (\<exists>st. Manager_GetGroupStatus m c g = Inr (Some st))" for c g
    proof -
      have "(c, cc) \<in> set (mg_clusters m) \<longleftrightarrow> map_of (mg_clusters m) c = Some cc" for cc
        using assms by (simp add: stores_ok_def)
      then show ?thesis
        by (auto simp: Manager_GetGroupStatus_def GetCluster_def GetGroupStatus_def keys_map_of split: option.splits)
    qed
    then show ?thesis by blast
  qed
  finally show ?thesis .
qed

section \<open>Properties\<close>

text \<open>C26: Whatever clusters are added and removed, with whatever failures, before the manager is
  stopped, every collection goroutine that was started has its context cancelled and its Kafka
  client closed exactly once.\<close>

theorem clients_closed_exactly_once:
  assumes "mg_clusters m0 = []" and "run_ops R r ops m0 = (m, effs)"
  shows "count_list (effs @ snd (Stop m)) (ClientClosed n) =
      count_list (effs @ snd (Stop m)) (CollectionStarted n) \<and>
    count_list (effs @ snd (Stop m)) (ContextCancelled n) =
      count_list (effs @ snd (Stop m)) (CollectionStarted n)"
proof -
  have b: "balanced m0 m effs" and d: "distinct (map fst (mg_clusters m))"
    using run_ops_balanced [OF assms(2)] assms(1) by simp_all
  show ?thesis using spec [OF b [unfolded balanced_def], of n] stop_counts [OF d, of n] assms(1)
    by (simp add: Stop_def)
qed

text \<open>Adding a cluster either changes nothing and starts nothing, or makes exactly the new
  cluster visible, with an empty collector for the cluster's own configuration or else the global
  one; every other cluster is untouched. A cluster that exists is never replaced.\<close>

lemma add_cluster_effect:
  assumes "AddCluster R r admin consumer config m = (res, m', effs)"
  shows "(m' = m \<and> effs = []) \<or>
    (res = Inr () \<and> effs = [CollectionStarted (ck_Name config)] \<and> GetCluster m (ck_Name config) = None \<and>
     (\<exists>cc. GetCluster m' (ck_Name config) = Some cc \<and> cc_Config cc = config \<and>
        co_config (cc_Collector cc) = (case ck_Collector config of None \<Rightarrow> mg_globalConfig m | Some c \<Rightarrow> c) \<and>
        GetAllGroupStatuses (cc_Collector cc) = []) \<and>
     (\<forall>n. n \<noteq> ck_Name config \<longrightarrow> GetCluster m' n = GetCluster m n))"
  using AddCluster_cases [OF assms]
proof
  assume "\<exists>cc. ck_Name config \<notin> keys (mg_clusters m) \<and> effs = [CollectionStarted (ck_Name config)] \<and> res = Inr () \<and>
       ck_Enabled config \<and> m' = m\<lparr>mg_clusters := AList.update (ck_Name config) cc (mg_clusters m)\<rparr> \<and>
       cc_ClusterName cc = ck_Name config \<and> cc_Config cc = config \<and>
       co_config (cc_Collector cc) = (case ck_Collector config of None \<Rightarrow> mg_globalConfig m | Some c \<Rightarrow> c) \<and>
       co_statusStore (cc_Collector cc) = []"
  then show ?thesis
    by (elim exE conjE) (simp add: GetCluster_def update_conv' keys_map_of GetAllGroupStatuses_def)
qed blast

text \<open>C35: As long as no cluster name has a slash, the aggregated view holds under cluster/group exactly
  the status that a query for that group of that cluster gives, and no other entry.\<close>

theorem aggregated_view_exact:
  assumes "stores_ok m" and "no_slash m" and "CHR ''/'' \<notin> set c"
  shows "map_of (Manager_GetAllGroupStatuses m) (c @ ''/'' @ g) =
      (case Manager_GetGroupStatus m c g of Inr (Some st) \<Rightarrow> Some st | _ \<Rightarrow> None) \<and>
    keys (Manager_GetAllGroupStatuses m) =
      {c @ ''/'' @ g | c g. \<exists>st. Manager_GetGroupStatus m c g = Inr (Some st)}"
  using aggregated_lookup [OF assms] aggregated_keys [OF assms(1)] by blast

section \<open>Samples\<close>

definition sample_cluster :: "string \<Rightarrow> ConfigCluster" where
  "sample_cluster name = \<lparr>ck_Name = name, ck_Enabled = True, ck_Brokers = [''b:9092''], ck_Collector = None\<rparr>"

definition sample_keys :: sample_redis where
  "sample_keys = \<lparr>sr_keys = [], sr_log = [], sr_broken = False\<rparr>"

lemma sample_add:
  "AddCluster sampleR sample_keys (Inr ()) (Inr ()) (sample_cluster name) (NewManager dev_config) =
     (Inr (), (NewManager dev_config)\<lparr>mg_clusters := [(name, \<lparr>cc_ClusterName = name,
        cc_Collector = NewWithClient dev_config None, cc_Config = sample_cluster name, cc_LastError = None,
        cc_RCAPublisher = None\<rparr>)]\<rparr>, [CollectionStarted name])"
  by (simp add: AddCluster_def sample_cluster_def createCollectorWithRCA_def NewClient_def NewManager_def Let_def)

theorem clients_closed_exactly_once_witness:
  "\<exists>m effs. run_ops sampleR sample_keys [AddOp (Inr ()) (Inr ()) (sample_cluster ''a''),
       AddOp (Inr ()) (Inr ()) (sample_cluster ''a'')] (NewManager dev_config) = (m, effs) \<and>
     count_list (effs @ snd (Stop m)) (ClientClosed ''a'') = count_list (effs @ snd (Stop m)) (CollectionStarted ''a'')"
proof -
  obtain m effs where run: "run_ops sampleR sample_keys [AddOp (Inr ()) (Inr ()) (sample_cluster ''a''),
       AddOp (Inr ()) (Inr ()) (sample_cluster ''a'')] (NewManager dev_config) = (m, effs)" by force
  have "mg_clusters (NewManager dev_config) = []" by (simp add: NewManager_def)
  then show ?thesis using clients_closed_exactly_once [OF _ run] run by blast
qed

definition sample_manager :: Manager where
  "sample_manager = (NewManager dev_config)\<lparr>mg_clusters := [(''c1'', \<lparr>cc_ClusterName = ''c1'',
     cc_Collector = (NewWithClient dev_config None)\<lparr>co_statusStore := [(''a/b'', zero_GroupStatus\<lparr>gs_GroupID := ''a/b''\<rparr>)],
       co_hasCollected := True\<rparr>,
     cc_Config = sample_cluster ''c1'', cc_LastError = None, cc_RCAPublisher = None\<rparr>)]\<rparr>"

lemma sample_manager_ok: "stores_ok sample_manager" "no_slash sample_manager"
  by (simp_all add: stores_ok_def no_slash_def sample_manager_def NewWithClient_def)

theorem aggregated_view_exact_witness:
  "map_of (Manager_GetAllGroupStatuses sample_manager) ''c1/a/b'' =
     Some \<lparr>gc_ClusterName = ''c1'', gc_GroupStatus = zero_GroupStatus\<lparr>gs_GroupID := ''a/b''\<rparr>\<rparr>"
proof -
  have "map_of (Manager_GetAllGroupStatuses sample_manager) (''c1'' @ ''/'' @ ''a/b'') =
      (case Manager_GetGroupStatus sample_manager ''c1'' ''a/b'' of Inr (Some st) \<Rightarrow> Some st | _ \<Rightarrow> None)"
    by (rule conjunct1 [OF aggregated_view_exact [OF sample_manager_ok]]) simp
  then show ?thesis
    by (simp add: Manager_GetGroupStatus_def GetCluster_def GetGroupStatus_def sample_manager_def NewWithClient_def)
qed

end
