(* ===== verification/Api.thy ===== *)
theory Api
  imports Manager
begin

text \<open>
  The HTTP interface (internal/api/cluster_handlers.go, internal/api/handler.go,
  internal/api/health.go, and the routes of cmd/monitor/main.go).  A handler takes the path and
  gives the status code and the value it writes; paths are those the multiplexer hands on,
  already cleaned.  The texts of the values, with timestamps and runtime figures, are in Api_Json.
\<close>

section \<open>Package strings\<close>

fun has_prefix :: "string \<Rightarrow> string \<Rightarrow> bool" where
  "has_prefix s [] = True"
| "has_prefix [] (c # p) = False"
| "has_prefix (d # s) (c # p) = (d = c \<and> has_prefix s p)"

definition has_suffix :: "string \<Rightarrow> string \<Rightarrow> bool" where
  "has_suffix s p = has_prefix (rev s) (rev p)"

definition trim_prefix :: "string \<Rightarrow> string \<Rightarrow> string" where
  "trim_prefix s p = (if has_prefix s p then drop (length p) s else s)"

fun contains :: "string \<Rightarrow> string \<Rightarrow> bool" where
  "contains [] p = (p = [])"
| "contains (c # s) p = (has_prefix (c # s) p \<or> contains s p)"

text \<open>\<open>Split\<close> and \<open>SplitN\<close> with two parts, for a separator of one character; \<open>Join\<close>.\<close>

fun split_on :: "char \<Rightarrow> string \<Rightarrow> string list" where
  "split_on c [] = [[]]"
| "split_on c (d # s) =
     (if d = c then [] # split_on c s
      else case split_on c s of [] \<Rightarrow> [[d]] | w # ws \<Rightarrow> (d # w) # ws)"

definition split_two :: "char \<Rightarrow> string \<Rightarrow> string list" where
  "split_two c s =
     (case str_index c s of None \<Rightarrow> [s] | Some i \<Rightarrow> [take i s, drop (Suc i) s])"

fun join :: "string list \<Rightarrow> string \<Rightarrow> string" where
  "join [] sep = ''''"
| "join [w] sep = w"
| "join (w # v # ws) sep = w @ sep @ join (v # ws) sep"

section \<open>Responses\<close>

record cluster_info =
  ci_Name :: string
  ci_Enabled :: bool
  ci_Brokers :: nat
  ci_Groups :: nat
  ci_LastError :: string

record ready_info =
  ri_Ready :: bool
  ri_Groups :: "nat option"
  ri_LastError :: "string option"

datatype body =
    TextBody string
  | ErrorBody string
  | StatusBody GroupStatusCluster
  | StatusesBody "(string \<times> GroupStatusCluster) list"
  | GroupsBody "string list"
  | ClustersBody "cluster_info list"
  | AllStatusesBody "(string \<times> string \<times> GroupStatus) list"
  | AllGroupsBody "(string \<times> string) list"
  | LegacyBody GroupStatus
  | ReadyBody string "string option" nat nat "(string \<times> ready_info) list"
  | NoClustersBody string string
  | HealthBody string string
  | ConfigBody
  | MetricsBody

record response =
  rs_Code :: nat
  rs_Body :: body

definition http_error :: "string \<Rightarrow> nat \<Rightarrow> response" where
  "http_error msg code = \<lparr>rs_Code = code, rs_Body = TextBody (msg @ [CHR 0x0A])\<rparr>"

definition json_error :: "string \<Rightarrow> nat \<Rightarrow> response" where
  "json_error msg code = \<lparr>rs_Code = code, rs_Body = ErrorBody msg\<rparr>"

definition writeJSON :: "body \<Rightarrow> response" where
  "writeJSON b = \<lparr>rs_Code = 200, rs_Body = b\<rparr>"

section \<open>Cluster handlers\<close>

definition ListClusters :: "Manager \<Rightarrow> response" where
  "ListClusters m = writeJSON (ClustersBody (map (\<lambda>(name, cc).
     \<lparr>ci_Name = name, ci_Enabled = True, ci_Brokers = length (ck_Brokers (cc_Config cc)),
      ci_Groups = length (GetAllGroupStatuses (cc_Collector cc)),
      ci_LastError = (case GetLastError cc of None \<Rightarrow> '''' | Some e \<Rightarrow> err_string e)\<rparr>) (GetAllClusters m)))"

definition clusters_prefix :: string where
  "clusters_prefix = ''/api/v1/clusters/''"

definition GetClusterStatus :: "Manager \<Rightarrow> string \<Rightarrow> response" where
  "GetClusterStatus m path =
     (let parts = split_on (CHR ''/'') (trim_prefix path clusters_prefix) in
      if length parts < 2 \<or> parts ! 1 \<noteq> ''status'' then http_error ''Invalid path'' 400
      else case GetClusterGroupStatuses m (parts ! 0) of
          Inl e \<Rightarrow> json_error (err_string e) 404
        | Inr statuses \<Rightarrow> writeJSON (StatusesBody statuses))"

definition GetClusterGroups :: "Manager \<Rightarrow> string \<Rightarrow> response" where
  "GetClusterGroups m path =
     (let parts = split_on (CHR ''/'') (trim_prefix path clusters_prefix) in
      if length parts < 2 \<or> parts ! 1 \<noteq> ''groups'' then http_error ''Invalid path'' 400
      else case GetClusterGroupStatuses m (parts ! 0) of
          Inl e \<Rightarrow> json_error (err_string e) 404
        | Inr statuses \<Rightarrow> writeJSON (GroupsBody (map fst statuses)))"

definition GetClusterGroupStatus :: "Manager \<Rightarrow> string \<Rightarrow> response" where
  "GetClusterGroupStatus m path =
     (let parts = split_on (CHR ''/'') (trim_prefix path clusters_prefix) in
      if length parts < 3 \<or> parts ! 1 \<noteq> ''groups'' then http_error ''Invalid path'' 400
      else
        let clusterName = parts ! 0; groupID = join (drop 2 parts) ''/'' in
        case Manager_GetGroupStatus m clusterName groupID of
          Inl e \<Rightarrow> json_error (''Cluster error: '' @ err_string e) 404
        | Inr None \<Rightarrow> json_error (''Consumer group '' @ [CHR 0x27] @ groupID @ [CHR 0x27] @
              '' not found in cluster '' @ [CHR 0x27] @ clusterName @ [CHR 0x27]) 404
        | Inr (Some status) \<Rightarrow> writeJSON (StatusBody status))"

fun aggregated_loop :: "(string \<times> GroupStatusCluster) list \<Rightarrow> (string \<times> string \<times> GroupStatus) list" where
  "aggregated_loop [] = []"
| "aggregated_loop ((key, status) # rest) =
     (case split_two (CHR ''/'') key of
        [c, g] \<Rightarrow> (c, g, gc_GroupStatus status) # aggregated_loop rest
      | _ \<Rightarrow> aggregated_loop rest)"

definition GetAllGroupsAcrossClusters :: "Manager \<Rightarrow> response" where
  "GetAllGroupsAcrossClusters m = writeJSON (AllStatusesBody (aggregated_loop (Manager_GetAllGroupStatuses m)))"

definition GetAllGroupsList :: "Manager \<Rightarrow> response" where
  "GetAllGroupsList m = writeJSON (AllGroupsBody
     (map (\<lambda>(c, g, st). (c, g)) (aggregated_loop (Manager_GetAllGroupStatuses m))))"

section \<open>Health, readiness and the legacy endpoint\<close>

definition HealthHandler :: response where
  "HealthHandler = writeJSON (HealthBody ''healthy'' ''lagradar'')"

definition ClusterReadyHandler :: "Manager \<Rightarrow> response" where
  "ClusterReadyHandler m =
     (let clusters = GetAllClusters m in
      if clusters = [] then \<lparr>rs_Code = 503, rs_Body = NoClustersBody ''not_ready'' ''no_clusters_configured''\<rparr>
      else
        let readyClusters = length (filter (\<lambda>(name, cc). IsReady (cc_Collector cc)) clusters);
            details = map (\<lambda>(name, cc). (name,
              \<lparr>ri_Ready = IsReady (cc_Collector cc),
               ri_Groups = (if IsReady (cc_Collector cc)
                 then Some (length (GetAllGroupStatuses (cc_Collector cc))) else None),
               ri_LastError = map_option err_string (GetLastError cc)\<rparr>)) clusters
        in if 0 < readyClusters
           then \<lparr>rs_Code = 200, rs_Body = ReadyBody ''ready'' None readyClusters (length clusters) details\<rparr>
           else \<lparr>rs_Code = 503, rs_Body = ReadyBody ''not_ready'' (Some ''no_ready_clusters'') 0
                  (length clusters) details\<rparr>)"

definition ConfigHandler :: response where
  "ConfigHandler = writeJSON ConfigBody"

text \<open>The path is sliced at the length of the prefix; a shorter path panics.\<close>

definition GroupStatusHandler :: "'h Collector \<Rightarrow> string \<Rightarrow> response go" where
  "GroupStatusHandler c path =
     (if length path < length ''/api/v1/status/'' then Panic ''slice bounds out of range''
      else
        let groupID = drop (length ''/api/v1/status/'') path in
        if groupID = '''' then Ret (http_error ''Group ID required'' 400)
        else case GetGroupStatus c groupID of
            None \<Rightarrow> Ret (http_error (''Consumer group '' @ groupID @ '' not found'') 404)
          | Some status \<Rightarrow> Ret (writeJSON (LegacyBody status)))"

section \<open>Routes\<close>

definition clusters_route :: "Manager \<Rightarrow> string \<Rightarrow> response" where
  "clusters_route m path =
     (if has_suffix path ''/status'' then GetClusterStatus m path
      else if has_suffix path ''/groups'' then GetClusterGroups m path
      else if contains path ''/groups/'' then GetClusterGroupStatus m path
      else http_error ''404 page not found'' 404)"

text \<open>
  The multiplexer: exact patterns before the two subtrees; \<open>legacy\<close> is the collector of the
  cluster "default" when the server was started.
\<close>

definition serve ::
  "string \<Rightarrow> EvaluatorWithRCA option Collector option \<Rightarrow> Manager \<Rightarrow> string \<Rightarrow> response go" where
  "serve metricsPath legacy m path =
     (if path = metricsPath then Ret (writeJSON MetricsBody)
      else if path = ''/health'' then Ret HealthHandler
      else if path = ''/ready'' then Ret (ClusterReadyHandler m)
      else if path = ''/api/v1/status'' then Ret (GetAllGroupsAcrossClusters m)
      else if path = ''/api/v1/groups'' then Ret (GetAllGroupsList m)
      else if path = ''/api/v1/config'' then Ret ConfigHandler
      else if path = ''/api/v1/clusters'' then Ret (ListClusters m)
      else if has_prefix path clusters_prefix then Ret (clusters_route m path)
      else case legacy of
          None \<Rightarrow> Ret (http_error ''404 page not found'' 404)
        | Some c \<Rightarrow> if has_prefix path ''/api/v1/status/'' then GroupStatusHandler c path
                    else Ret (http_error ''404 page not found'' 404))"


section \<open>Strings\<close>

lemma has_prefix_iff: "has_prefix s p \<longleftrightarrow> (\<exists>t. s = p @ t)"
  by (induction s p rule: has_prefix.induct) auto

lemma has_suffix_iff: "has_suffix s p \<longleftrightarrow> (\<exists>t. s = t @ p)"
proof -
  have "(\<exists>t. rev s = rev p @ t) \<longleftrightarrow> (\<exists>t. s = t @ p)"
    by (metis rev_append rev_rev_ident)
  then show ?thesis by (simp add: has_suffix_def has_prefix_iff)
qed

lemma contains_middle: "contains (a @ p @ b) p"
proof (induction a)
  case Nil
  show ?case
  proof (cases "p @ b")
    case (Cons d s)
    have "has_prefix (p @ b) p" by (simp add: has_prefix_iff)
    then show ?thesis by (simp add: Cons)
  qed simp
qed simp

lemma trim_prefix_append [simp]: "trim_prefix (p @ s) p = s"
  by (simp add: trim_prefix_def has_prefix_iff)

lemma split_on_not_Nil [simp]: "split_on c s \<noteq> []"
  by (induction s) (auto split: list.split)

lemma split_on_append: "c \<notin> set a \<Longrightarrow> split_on c (a @ c # b) = a # split_on c b"
  by (induction a) (auto split: list.split)

lemma split_on_word: "c \<notin> set a \<Longrightarrow> split_on c a = [a]"
  by (induction a) auto

lemma join_split: "join (split_on c s) [c] = s"
proof (induction s)
  case (Cons d s)
  obtain w ws where sp: "split_on c s = w # ws" by (cases "split_on c s") auto
  then show ?case using Cons by (cases ws) auto
qed simp

lemma split_two_append: "CHR ''/'' \<notin> set a \<Longrightarrow> split_two (CHR ''/'') (a @ CHR ''/'' # b) = [a, b]"
  by (simp add: split_two_def str_index_append)

lemma split_two_cases:
  "split_two (CHR ''/'') k = [c, g] \<longleftrightarrow> CHR ''/'' \<notin> set c \<and> k = c @ CHR ''/'' # g"
proof
  assume split: "split_two (CHR ''/'') k = [c, g]"
  then have "CHR ''/'' \<in> set k"
    by (cases "str_index (CHR ''/'') k") (simp_all add: split_two_def str_index_None_iff split: option.splits, metis option.distinct(1) str_index_None_iff)
  then obtain a b where k: "k = a @ CHR ''/'' # b" "CHR ''/'' \<notin> set a" by (metis split_list_first)
  show "CHR ''/'' \<notin> set c \<and> k = c @ CHR ''/'' # g"
    using split split_two_append [OF k(2), of b] k by simp
qed (simp add: split_two_append)

text \<open>Whether a path ends with a slash and a word depends only on what follows any of its slashes.\<close>

lemma last_element:
  assumes "CHR ''/'' \<notin> set w"
  shows "has_suffix (b @ CHR ''/'' # g) (CHR ''/'' # w) \<longleftrightarrow> has_suffix (CHR ''/'' # g) (CHR ''/'' # w)"
proof
  assume "has_suffix (b @ CHR ''/'' # g) (CHR ''/'' # w)"
  then obtain t where "b @ CHR ''/'' # g = t @ CHR ''/'' # w" by (auto simp: has_suffix_iff)
  then show "has_suffix (CHR ''/'' # g) (CHR ''/'' # w)"
    using assms by (auto simp: has_suffix_iff append_eq_append_conv2 append_eq_Cons_conv Cons_eq_append_conv)
next
  assume "has_suffix (CHR ''/'' # g) (CHR ''/'' # w)"
  then obtain t where "CHR ''/'' # g = t @ CHR ''/'' # w" by (auto simp: has_suffix_iff)
  then have "b @ CHR ''/'' # g = (b @ t) @ CHR ''/'' # w" by simp
  then show "has_suffix (b @ CHR ''/'' # g) (CHR ''/'' # w)" unfolding has_suffix_iff by blast
qed

section \<open>The aggregated list\<close>

lemma aggregated_loop_set:
  "(c, g, st) \<in> set (aggregated_loop es) \<longleftrightarrow>
     CHR ''/'' \<notin> set c \<and> (\<exists>v. (c @ CHR ''/'' # g, v) \<in> set es \<and> st = gc_GroupStatus v)"
proof (induction es)
  case (Cons kv es)
  obtain k v where kv: "kv = (k, v)" by force
  show ?case
  proof (cases "CHR ''/'' \<in> set k")
    case True
    then obtain a b where k: "k = a @ CHR ''/'' # b" "CHR ''/'' \<notin> set a" by (metis split_list_first)
    have "CHR ''/'' \<notin> set c \<Longrightarrow> c @ CHR ''/'' # g = k \<longleftrightarrow> c = a \<and> g = b"
      using split_first_unique [OF _ k(2)] k(1) by simp
    then show ?thesis using Cons k by (auto simp: kv split_two_append)
  next
    case False
    then have "split_two (CHR ''/'') k = [k]" by (simp add: split_two_def str_index_None_iff [THEN iffD2])
    then show ?thesis using Cons False by (auto simp: kv)
  qed
qed simp

lemma aggregated_loop_distinct:
  "distinct (map fst es) \<Longrightarrow> distinct (map (\<lambda>(c, g, st). (c, g)) (aggregated_loop es))"
proof (induction es)
  case (Cons kv es)
  obtain k v where kv: "kv = (k, v)" by force
  show ?case
  proof (cases "CHR ''/'' \<in> set k")
    case True
    then obtain a b where k: "k = a @ CHR ''/'' # b" "CHR ''/'' \<notin> set a" by (metis split_list_first)
    have "(k, v') \<notin> set es" for v' using Cons.prems by (force simp: kv)
    then have "(a, b) \<notin> (\<lambda>(c, g, st). (c, g)) ` set (aggregated_loop es)"
      using k by (auto simp: aggregated_loop_set)
    then show ?thesis using Cons k by (simp add: kv split_two_append)
  next
    case False
    then have "split_two (CHR ''/'') k = [k]" by (simp add: split_two_def str_index_None_iff [THEN iffD2])
    then show ?thesis using Cons by (simp add: kv)
  qed
qed simp

lemma cluster_groups_loop_distinct:
  "distinct (map fst result) \<Longrightarrow> distinct (map fst (cluster_groups_loop c statuses result))"
  by (induction c statuses result rule: cluster_groups_loop.induct) (simp_all add: distinct_update)

lemma all_groups_loop_distinct:
  "distinct (map fst result) \<Longrightarrow> distinct (map fst (all_groups_loop clusters result))"
  by (induction clusters result rule: all_groups_loop.induct) (simp_all add: cluster_groups_loop_distinct)

lemma GetClusterGroupStatuses_eq:
  assumes "stores_ok m"
  shows "GetClusterGroupStatuses m c = (case GetCluster m c of
      None \<Rightarrow> Inl (ErrText (''cluster '' @ c @ '' not found''))
    | Some cc \<Rightarrow> Inr (map (\<lambda>(g, st). (g, \<lparr>gc_ClusterName = c, gc_GroupStatus = st\<rparr>)) (co_statusStore (cc_Collector cc))))"
proof (cases "GetCluster m c")
  case (Some cc)
  let ?sts = "co_statusStore (cc_Collector cc)"
  have d: "distinct (map fst ?sts)"
    using assms Some by (force simp: stores_ok_def GetCluster_def dest: map_of_SomeD)
  have all: "GetAllGroupStatuses (cc_Collector cc) = ?sts"
    using d by (simp add: GetAllGroupStatuses_def fold_update_fresh)
  let ?f = "\<lambda>st. \<lparr>gc_ClusterName = c, gc_GroupStatus = st\<rparr>"
  have fold: "fold (\<lambda>(g, st) result. AList.update g (?f st) result) xs acc =
      fold (\<lambda>(k, v) result. AList.update k v result) (map (\<lambda>(g, st). (g, ?f st)) xs) acc" for xs acc
    by (induction xs arbitrary: acc) auto
  have fst_eq: "map fst (map (\<lambda>(g, st). (g, ?f st)) ?sts) = map fst ?sts" by (simp add: split_def comp_def)
  then have "fold (\<lambda>(g, st) result. AList.update g (?f st) result) ?sts [] = map (\<lambda>(g, st). (g, ?f st)) ?sts"
    unfolding fold by (subst fold_update_fresh) (simp_all only: fst_eq d keys_def list.map list.set image_empty Int_empty_left append_Nil)
  then show ?thesis using Some by (simp add: GetClusterGroupStatuses_def all)
qed (simp add: GetClusterGroupStatuses_def)

section \<open>Properties\<close>

lemma group_path_parts:
  assumes "CHR ''/'' \<notin> set c"
  shows "split_on (CHR ''/'') (trim_prefix (clusters_prefix @ c @ ''/groups/'' @ g) clusters_prefix) =
    c # ''groups'' # split_on (CHR ''/'') g"
proof -
  have "c @ ''/groups/'' @ g = c @ CHR ''/'' # (''groups'' @ CHR ''/'' # g)" by simp
  then show ?thesis using split_on_append [OF assms] split_on_append [of "CHR ''/''" "''groups''" g] by simp
qed

text \<open>C13: A path of a group's status is answered with exactly what the manager holds for that cluster
  and group, slashes in the group name included, or with 404 and the reason. The exceptions are
  the groups named status and groups, and those whose name ends in /status or /groups: they cannot
  be queried, because the first is answered as an invalid path and the second with the groups of
  the cluster.\<close>

theorem group_query_answer:
  assumes "stores_ok m" and "CHR ''/'' \<notin> set c"
  shows "clusters_route m (clusters_prefix @ c @ ''/groups/'' @ g) =
    (if has_suffix (CHR ''/'' # g) ''/status'' then http_error ''Invalid path'' 400
     else case GetCluster m c of
       None \<Rightarrow> json_error ((if has_suffix (CHR ''/'' # g) ''/groups'' then [] else ''Cluster error: '') @
                 ''cluster '' @ c @ '' not found'') 404
     | Some cc \<Rightarrow>
         if has_suffix (CHR ''/'' # g) ''/groups''
         then writeJSON (GroupsBody (map fst (co_statusStore (cc_Collector cc))))
         else case map_of (co_statusStore (cc_Collector cc)) g of
           None \<Rightarrow> json_error (''Consumer group '' @ [CHR 0x27] @ g @ [CHR 0x27] @ '' not found in cluster '' @
                     [CHR 0x27] @ c @ [CHR 0x27]) 404
         | Some st \<Rightarrow> writeJSON (StatusBody \<lparr>gc_ClusterName = c, gc_GroupStatus = st\<rparr>))"
proof -
  let ?path = "clusters_prefix @ c @ ''/groups/'' @ g"
  have path: "?path = (clusters_prefix @ c @ ''/groups'') @ CHR ''/'' # g" by simp
  have suffix: "has_suffix ?path (CHR ''/'' # w) \<longleftrightarrow> has_suffix (CHR ''/'' # g) (CHR ''/'' # w)"
    if "CHR ''/'' \<notin> set w" for w
    unfolding path by (rule last_element [OF that])
  have middle: "contains ?path ''/groups/''"
    using contains_middle [of "clusters_prefix @ c" "''/groups/''" g] by simp
  obtain w ws where g: "split_on (CHR ''/'') g = w # ws" by (cases "split_on (CHR ''/'') g") auto
  have parts: "split_on (CHR ''/'') (trim_prefix ?path clusters_prefix) = c # ''groups'' # w # ws"
    using group_path_parts [OF assms(2)] g by simp
  have gid: "join (w # ws) ''/'' = g" using join_split [of "CHR ''/''" g] g by simp
  have route: "clusters_route m ?path =
      (if has_suffix (CHR ''/'' # g) ''/status'' then GetClusterStatus m ?path
       else if has_suffix (CHR ''/'' # g) ''/groups'' then GetClusterGroups m ?path
       else GetClusterGroupStatus m ?path)"
    unfolding clusters_route_def using suffix [of "''status''"] suffix [of "''groups''"] middle by simp
  have status: "GetClusterStatus m ?path = http_error ''Invalid path'' 400"
    unfolding GetClusterStatus_def parts by simp
  have groups: "GetClusterGroups m ?path = (case GetCluster m c of
      None \<Rightarrow> json_error (''cluster '' @ c @ '' not found'') 404
    | Some cc \<Rightarrow> writeJSON (GroupsBody (map fst (co_statusStore (cc_Collector cc)))))"
    unfolding GetClusterGroups_def parts
    by (simp add: GetClusterGroupStatuses_eq [OF assms(1)] comp_def split_def split: option.split)
  have one: "GetClusterGroupStatus m ?path = (case GetCluster m c of
      None \<Rightarrow> json_error (''Cluster error: '' @ ''cluster '' @ c @ '' not found'') 404
    | Some cc \<Rightarrow> (case map_of (co_statusStore (cc_Collector cc)) g of
        None \<Rightarrow> json_error (''Consumer group '' @ [CHR 0x27] @ g @ [CHR 0x27] @ '' not found in cluster '' @
                     [CHR 0x27] @ c @ [CHR 0x27]) 404
      | Some st \<Rightarrow> writeJSON (StatusBody \<lparr>gc_ClusterName = c, gc_GroupStatus = st\<rparr>)))"
    unfolding GetClusterGroupStatus_def parts
    by (simp add: gid Manager_GetGroupStatus_def GetGroupStatus_def split: option.split)
  show ?thesis unfolding route status groups one by (simp split: option.split)
qed


theorem group_query_answer_witness:
  "clusters_route sample_manager ''/api/v1/clusters/c1/groups/a/b'' =
     writeJSON (StatusBody \<lparr>gc_ClusterName = ''c1'', gc_GroupStatus = zero_GroupStatus\<lparr>gs_GroupID := ''a/b''\<rparr>\<rparr>) \<and>
   clusters_route sample_manager ''/api/v1/clusters/c1/groups/status'' = http_error ''Invalid path'' 400 \<and>
   clusters_route sample_manager ''/api/v1/clusters/c1/groups/x/groups'' = writeJSON (GroupsBody [''a/b''])"
proof -
  note q = group_query_answer [OF sample_manager_ok(1), of "''c1''"]
  show ?thesis
    using q [of "''a/b''"] q [of "''status''"] q [of "''x/groups''"]
    by (simp add: clusters_prefix_def has_suffix_def sample_manager_def GetCluster_def NewWithClient_def)
qed


end
