(* ===== verification/Go_Decode.thy ===== *)
theory Go_Decode
  imports Rca_Events "HOL-Library.AList"
begin

text \<open>
  Decoding: \<open>strconv.ParseInt\<close> on a decimal text, and \<open>json.Unmarshal\<close> into structs, slices,
  maps and interface values.  A text inside an instant is taken after its escapes are read, where
  Go would read it as it stands; which of several errors of one value is reported is not modelled.
\<close>

section \<open>Decimal numbers\<close>

text \<open>\<open>ParseUint\<close>: \<open>None\<close> is a syntax error; out of range it gives the largest value at once.\<close>

fun parse_uint :: "string \<Rightarrow> int \<Rightarrow> int option" where
  "parse_uint [] n = Some n"
| "parse_uint (c # s) n =
     (if (of_char c :: int) < 48 \<or> 58 \<le> (of_char c :: int) then None
      else if 2 ^ 64 \<le> 10 * n + (of_char c - 48) then Some (2 ^ 64 - 1)
      else parse_uint s (10 * n + (of_char c - 48)))"

text \<open>The number, which is not in range when it is too large; \<open>None\<close> is a syntax error.\<close>

definition parse_int :: "string \<Rightarrow> int option" where
  "parse_int s =
     (let neg = (s \<noteq> [] \<and> hd s = CHR ''-'');
          body = (if s \<noteq> [] \<and> hd s \<in> {CHR ''-'', CHR ''+''} then tl s else s)
      in if body = [] then None else map_option (\<lambda>n. if neg then - n else n) (parse_uint body 0))"

text \<open>The value \<open>ParseInt\<close> gives when its error is dropped: 0 for a syntax error, else saturated.\<close>

definition parse_int64 :: "string \<Rightarrow> int" where
  "parse_int64 s = (case parse_int s of None \<Rightarrow> 0 | Some n \<Rightarrow> max (- (2 ^ 63)) (min n (2 ^ 63 - 1)))"

lemma parse_uint_digits:
  assumes "\<forall>c \<in> set s. 48 \<le> (of_char c :: int) \<and> (of_char c :: int) < 58" and "0 \<le> n"
    and "foldl (\<lambda>a c. 10 * a + (of_char c - 48)) n s < 2 ^ 64"
  shows "parse_uint s n = Some (foldl (\<lambda>a c. 10 * a + (of_char c - 48)) n s)"
  using assms
proof (induction s arbitrary: n)
  case (Cons c s)
  have grow: "0 \<le> m \<Longrightarrow> m \<le> foldl (\<lambda>a c. 10 * a + (of_char c - 48)) m s" for m :: int
    using Cons.prems(1)
  proof (induction s arbitrary: m)
    case (Cons d s)
    have "m \<le> 10 * m + (of_char d - 48)" "0 \<le> 10 * m + (of_char d - 48)" using Cons.prems by simp_all
    then show ?case using Cons.IH [of "10 * m + (of_char d - 48)"] Cons.prems by simp
  qed simp
  have "0 \<le> 10 * n + (of_char c - 48)" using Cons.prems(1,2) by simp
  then show ?case using Cons.IH [of "10 * n + (of_char c - 48)"] Cons.prems grow [of "10 * n + (of_char c - 48)"]
    by simp
qed simp

lemma parse_uint_udigits: "0 \<le> n \<Longrightarrow> n < 2 ^ 64 \<Longrightarrow> parse_uint (udigits n) 0 = Some n"
  using parse_uint_digits [of "udigits n" 0] udigits_range dval_udigits [of n] by (simp add: dval_def)

lemma udigits_not_Nil: "udigits n \<noteq> []"
  by (simp add: udigits.simps [of n])

lemma udigits_hd: "0 \<le> n \<Longrightarrow> hd (udigits n) \<noteq> CHR ''-'' \<and> hd (udigits n) \<noteq> CHR ''+''"
  using udigits_range [of n "hd (udigits n)"] udigits_not_Nil [of n] by auto

lemma parse_int_itoa: "- (2 ^ 64) < n \<Longrightarrow> n < 2 ^ 64 \<Longrightarrow> parse_int (itoa n) = Some n"
  using parse_uint_udigits [of "- n"] parse_uint_udigits [of n] udigits_not_Nil [of n] udigits_not_Nil [of "- n"]
    udigits_hd [of n]
  by (auto simp: parse_int_def itoa_def Let_def)

lemma parse_int64_itoa: "- (2 ^ 63) \<le> n \<Longrightarrow> n < 2 ^ 63 \<Longrightarrow> parse_int64 (itoa n) = n"
  using parse_int_itoa [of n] by (simp add: parse_int64_def)

section \<open>Unmarshalling\<close>

text \<open>Every function takes the old value of its target, which \<open>null\<close> leaves as it is.\<close>

definition type_error :: go_error where
  "type_error = ErrText ''json: cannot unmarshal value''"

fun decode_string :: "json \<Rightarrow> string \<Rightarrow> string result" where
  "decode_string JNull old = Inr old"
| "decode_string (JStr s) old = Inr s"
| "decode_string _ old = Inl type_error"

definition int_in :: "int \<Rightarrow> int \<Rightarrow> string \<Rightarrow> int result" where
  "int_in lo hi lit =
     (case parse_int lit of
        None \<Rightarrow> Inl type_error
      | Some n \<Rightarrow> if lo \<le> n \<and> n \<le> hi then Inr n else Inl type_error)"

fun decode_int64 :: "json \<Rightarrow> i64 \<Rightarrow> i64 result" where
  "decode_int64 JNull old = Inr old"
| "decode_int64 (JNum lit) old = result_bind (int_in (- (2 ^ 63)) (2 ^ 63 - 1) lit) (\<lambda>n. Inr (word_of_int n))"
| "decode_int64 _ old = Inl type_error"

fun decode_int32 :: "json \<Rightarrow> i32 \<Rightarrow> i32 result" where
  "decode_int32 JNull old = Inr old"
| "decode_int32 (JNum lit) old = result_bind (int_in (- (2 ^ 31)) (2 ^ 31 - 1) lit) (\<lambda>n. Inr (word_of_int n))"
| "decode_int32 _ old = Inl type_error"

fun decode_float :: "json \<Rightarrow> f64 \<Rightarrow> f64 result" where
  "decode_float JNull old = Inr old"
| "decode_float (JNum lit) old = parse_float lit"
| "decode_float _ old = Inl type_error"

fun decode_time :: "json \<Rightarrow> gotime \<Rightarrow> gotime result" where
  "decode_time JNull old = Inr old"
| "decode_time (JStr s) old = parse_rfc3339 s"
| "decode_time _ old = Inl (ErrText ''Time.UnmarshalJSON: input is not a JSON string'')"

text \<open>A value of its own type for an interface: of several members of one key the last one counts.\<close>

fun decode_any :: "json \<Rightarrow> any result" where
  "decode_any JNull = Inr AnyNil"
| "decode_any (JBool b) = Inr (AnyBool b)"
| "decode_any (JNum lit) = result_bind (parse_float lit) (\<lambda>x. Inr (AnyFloat x))"
| "decode_any (JStr s) = Inr (AnyStr s)"
| "decode_any (JArr js) = result_bind (list_result (map decode_any js)) (\<lambda>xs. Inr (AnyList xs))"
| "decode_any (JObj kvs) = result_bind (fields_result (map (\<lambda>(k, j). (k, decode_any j)) kvs))
     (\<lambda>kxs. Inr (AnyMap (fold (\<lambda>(k, x) m. AList.update k x m) kxs [])))"

text \<open>A nil slice or map is \<open>None\<close>; elements that are \<open>null\<close> are zero values.\<close>

fun decode_slice :: "(json \<Rightarrow> 'a result) \<Rightarrow> json \<Rightarrow> 'a list option result" where
  "decode_slice f JNull = Inr None"
| "decode_slice f (JArr js) = result_bind (list_result (map f js)) (\<lambda>xs. Inr (Some xs))"
| "decode_slice f _ = Inl type_error"

fun decode_entries :: "(json \<Rightarrow> 'a result) \<Rightarrow> (string \<times> json) list \<Rightarrow> (string \<times> 'a) list \<Rightarrow> (string \<times> 'a) list result" where
  "decode_entries f [] m = Inr m"
| "decode_entries f ((k, v) # kvs) m =
     result_bind (f v) (\<lambda>x. decode_entries f kvs (AList.update k x m))"

fun decode_map :: "(json \<Rightarrow> 'a result) \<Rightarrow> json \<Rightarrow> (string \<times> 'a) list option \<Rightarrow> (string \<times> 'a) list option result" where
  "decode_map f JNull old = Inr None"
| "decode_map f (JObj kvs) old =
     result_bind (decode_entries f kvs (case old of None \<Rightarrow> [] | Some m \<Rightarrow> m)) (\<lambda>m. Inr (Some m))"
| "decode_map f _ old = Inl type_error"

text \<open>
  A key names a field when it is its name, or is it up to the case of its letters (with the long
  s and the Kelvin sign, which fold to s and k).
\<close>

function fold_name :: "string \<Rightarrow> string" where
  "fold_name [] = []"
| "fold_name (c # s) =
     (if c = CHR 0xC5 \<and> take 1 s = [CHR 0xBF] then CHR ''s'' # fold_name (drop 1 s)
      else if c = CHR 0xE2 \<and> take 2 s = [CHR 0x84, CHR 0xAA] then CHR ''k'' # fold_name (drop 2 s)
      else (if 65 \<le> (of_char c :: nat) \<and> (of_char c :: nat) \<le> 90 then char_of (of_char c + 32 :: nat) else c)
             # fold_name s)"
  by pat_completeness auto
termination by (relation "measure length") auto

definition field_is :: "string \<Rightarrow> string \<Rightarrow> bool" where
  "field_is key name \<longleftrightarrow> key = name \<or> fold_name key = fold_name name"

text \<open>\<open>field\<close> stores the value of one key in the struct; keys without a field are skipped.\<close>

fun decode_fields ::
  "(string \<Rightarrow> json \<Rightarrow> 's \<Rightarrow> 's result) \<Rightarrow> (string \<times> json) list \<Rightarrow> 's \<Rightarrow> 's result" where
  "decode_fields field [] s = Inr s"
| "decode_fields field ((k, v) # kvs) s = result_bind (field k v s) (\<lambda>s'. decode_fields field kvs s')"

fun decode_struct :: "(string \<Rightarrow> json \<Rightarrow> 's \<Rightarrow> 's result) \<Rightarrow> json \<Rightarrow> 's \<Rightarrow> 's result" where
  "decode_struct field JNull s = Inr s"
| "decode_struct field (JObj kvs) s = decode_fields field kvs s"
| "decode_struct field _ s = Inl type_error"

definition unmarshal :: "(json \<Rightarrow> 'a result) \<Rightarrow> string \<Rightarrow> 'a result" where
  "unmarshal decode data = result_bind (json_parse data) decode"

section \<open>A text that was written\<close>

text \<open>A value with valid strings is read back as it is.\<close>

fun plain_json :: "json \<Rightarrow> bool" where
  "plain_json (JStr s) = valid_utf8 s"
| "plain_json (JNum lit) = num_lit lit"
| "plain_json (JArr js) = list_all plain_json js"
| "plain_json (JObj kvs) = list_all (\<lambda>(k, v). valid_utf8 k \<and> plain_json v) kvs"
| "plain_json JNull = True"
| "plain_json (JBool b) = True"

lemma plain_clean: "plain_json j \<Longrightarrow> json_nums j \<and> json_clean j = j"
proof (induction j rule: plain_json.induct)
  case (3 js)
  then show ?case by (auto simp: list_all_iff intro: map_idI)
next
  case (4 kvs)
  then show ?case by (fastforce simp: list_all_iff sanitize_valid intro: map_idI)
qed (simp_all add: sanitize_valid)

lemma json_depth_le [simp]:
  "0 < n \<Longrightarrow> json_depth (JArr js) \<le> n \<longleftrightarrow> (\<forall>j \<in> set js. json_depth j \<le> n - 1)"
  "0 < n \<Longrightarrow> json_depth (JObj kvs) \<le> n \<longleftrightarrow> (\<forall>(k, j) \<in> set kvs. json_depth j \<le> n - 1)"
  by (cases n; force simp: fold_max_le)+

declare json_depth.simps(1,2) [simp del]

lemma unmarshal_clean:
  "json_nums j \<Longrightarrow> json_depth j \<le> max_nesting \<Longrightarrow> unmarshal decode (json_text j) = decode (json_clean j)"
  by (simp add: unmarshal_def json_parse_text)

lemma unmarshal_text:
  "plain_json j \<Longrightarrow> json_depth j \<le> max_nesting \<Longrightarrow> unmarshal decode (json_text j) = decode j"
  using plain_clean [of j] unmarshal_clean by metis

lemma int_json_plain [simp]:
  "plain_json (int_json n)" "json_nums (int_json n)" "json_clean (int_json n) = int_json n" "json_depth (int_json n) = 0"
  by (simp_all add: int_json_def itoa_num_lit)

lemma decode_int_json [simp]:
  "decode_int64 (int_json (sint (w :: i64))) old = Inr w"
  "decode_int32 (int_json (sint (v :: i32))) old32 = Inr v"
proof -
  show "decode_int64 (int_json (sint w)) old = Inr w"
    using sint_i64_range [of w] parse_int_itoa [of "sint w"] by (simp add: int_json_def int_in_def)
  have "- (2 ^ 31) \<le> sint v \<and> sint v < 2 ^ 31" using sint_ge [of v] sint_lt [of v] by simp
  then show "decode_int32 (int_json (sint v)) old32 = Inr v"
    using parse_int_itoa [of "sint v"] by (simp add: int_json_def int_in_def)
qed

lemma list_result_map:
  "\<forall>x \<in> set xs. f (g x) = Inr x \<Longrightarrow> list_result (map (f \<circ> g) xs) = Inr xs"
  by (induction xs) auto

lemma decode_entries_strings:
  "\<exists>m'. decode_entries (\<lambda>v. decode_string v '''') (map (\<lambda>(k, v). (k, JStr v)) kvs) m = Inr m' \<and> set m' \<subseteq> set kvs \<union> set m"
proof (induction kvs arbitrary: m)
  case (Cons kv kvs)
  obtain k v where kv: "kv = (k, v)" by force
  obtain m' where m': "decode_entries (\<lambda>v. decode_string v '''') (map (\<lambda>(k, v). (k, JStr v)) kvs) (AList.update k v m) = Inr m'"
    "set m' \<subseteq> set kvs \<union> set (AList.update k v m)" using Cons.IH by blast
  have "set (AList.update k v m) \<subseteq> insert (k, v) (set m)" by (induction m) auto
  then show ?case using m' by (auto simp: kv)
qed simp

lemma set_sort_fields [simp]: "set (sort_fields kvs) = set kvs"
proof -
  have ins: "set (insert_field kv xs) = insert kv (set xs)" for kv and xs :: "(string \<times> 'a) list"
    by (induction kv xs rule: insert_field.induct) auto
  show ?thesis by (induction kvs) (simp_all add: sort_fields_def ins)
qed

lemma sort_fields_map: "sort_fields (map (\<lambda>(k, v). (k, f v)) kvs) = map (\<lambda>(k, v). (k, f v)) (sort_fields kvs)"
proof -
  have ins: "insert_field (k, f v) (map (\<lambda>(k, v). (k, f v)) xs) = map (\<lambda>(k, v). (k, f v)) (insert_field (k, v) xs)"
    for k v xs by (induction xs) auto
  show ?thesis by (induction kvs) (auto simp: sort_fields_def ins)
qed

end
