(* ===== verification/Event_Codec.thy ===== *)
theory Event_Codec
  imports Go_Decode
begin

text \<open>
  Reading an event (internal/rca/events.go) with \<open>json.Unmarshal\<close>, and the round trip: what
  \<open>marshal_event\<close> writes is read as the event, with its strings made valid UTF-8 and its data
  in the order of their keys.
\<close>

section \<open>Reading\<close>

definition zero_BaseEvent :: BaseEvent where
  "zero_BaseEvent = \<lparr>be_ID = '''', be_Source = '''', be_Type = '''', be_Severity = '''', be_Timestamp = 0,
     be_Cluster = '''', be_Namespace = '''', be_Service = '''', be_Title = '''', be_Description = '''',
     be_Data = [], be_Fingerprint = ''''\<rparr>"

definition zero_KafkaLagEvent :: KafkaLagEvent where
  "zero_KafkaLagEvent = \<lparr>ev_Base = zero_BaseEvent, ev_ConsumerGroup = '''', ev_Topic = '''', ev_Partition = 0,
     ev_CurrentLag = 0, ev_CurrentOffset = 0, ev_HighWatermark = 0, ev_LagDelta = 0, ev_OffsetDelta = 0,
     ev_ConsumptionRate = FFin 0, ev_LagChangeRate = FFin 0, ev_TimeSinceLastMove = ''''\<rparr>"

text \<open>The fields by their names, with what stores a value in each.\<close>

definition base_fields :: "(string \<times> (json \<Rightarrow> BaseEvent \<Rightarrow> BaseEvent result)) list" where
  "base_fields =
     [(''id'', \<lambda>v b. result_bind (decode_string v (be_ID b)) (\<lambda>x. Inr (b\<lparr>be_ID := x\<rparr>))),
      (''source'', \<lambda>v b. result_bind (decode_string v (be_Source b)) (\<lambda>x. Inr (b\<lparr>be_Source := x\<rparr>))),
      (''type'', \<lambda>v b. result_bind (decode_string v (be_Type b)) (\<lambda>x. Inr (b\<lparr>be_Type := x\<rparr>))),
      (''severity'', \<lambda>v b. result_bind (decode_string v (be_Severity b)) (\<lambda>x. Inr (b\<lparr>be_Severity := x\<rparr>))),
      (''timestamp'', \<lambda>v b. result_bind (decode_time v (be_Timestamp b)) (\<lambda>x. Inr (b\<lparr>be_Timestamp := x\<rparr>))),
      (''cluster'', \<lambda>v b. result_bind (decode_string v (be_Cluster b)) (\<lambda>x. Inr (b\<lparr>be_Cluster := x\<rparr>))),
      (''namespace'', \<lambda>v b. result_bind (decode_string v (be_Namespace b)) (\<lambda>x. Inr (b\<lparr>be_Namespace := x\<rparr>))),
      (''service'', \<lambda>v b. result_bind (decode_string v (be_Service b)) (\<lambda>x. Inr (b\<lparr>be_Service := x\<rparr>))),
      (''title'', \<lambda>v b. result_bind (decode_string v (be_Title b)) (\<lambda>x. Inr (b\<lparr>be_Title := x\<rparr>))),
      (''description'', \<lambda>v b. result_bind (decode_string v (be_Description b)) (\<lambda>x. Inr (b\<lparr>be_Description := x\<rparr>))),
      (''data'', \<lambda>v b. result_bind (decode_map decode_any v (Some (be_Data b)))
         (\<lambda>x. Inr (b\<lparr>be_Data := case x of None \<Rightarrow> [] | Some m \<Rightarrow> m\<rparr>))),
      (''fingerprint'', \<lambda>v b. result_bind (decode_string v (be_Fingerprint b)) (\<lambda>x. Inr (b\<lparr>be_Fingerprint := x\<rparr>)))]"

definition event_fields :: "(string \<times> (json \<Rightarrow> KafkaLagEvent \<Rightarrow> KafkaLagEvent result)) list" where
  "event_fields =
     map (\<lambda>(name, f). (name, \<lambda>v ev. result_bind (f v (ev_Base ev)) (\<lambda>b. Inr (ev\<lparr>ev_Base := b\<rparr>)))) base_fields @
     [(''consumer_group'', \<lambda>v ev. result_bind (decode_string v (ev_ConsumerGroup ev)) (\<lambda>x. Inr (ev\<lparr>ev_ConsumerGroup := x\<rparr>))),
      (''topic'', \<lambda>v ev. result_bind (decode_string v (ev_Topic ev)) (\<lambda>x. Inr (ev\<lparr>ev_Topic := x\<rparr>))),
      (''partition'', \<lambda>v ev. result_bind (decode_int32 v (ev_Partition ev)) (\<lambda>x. Inr (ev\<lparr>ev_Partition := x\<rparr>))),
      (''current_lag'', \<lambda>v ev. result_bind (decode_int64 v (ev_CurrentLag ev)) (\<lambda>x. Inr (ev\<lparr>ev_CurrentLag := x\<rparr>))),
      (''current_offset'', \<lambda>v ev. result_bind (decode_int64 v (ev_CurrentOffset ev)) (\<lambda>x. Inr (ev\<lparr>ev_CurrentOffset := x\<rparr>))),
      (''high_watermark'', \<lambda>v ev. result_bind (decode_int64 v (ev_HighWatermark ev)) (\<lambda>x. Inr (ev\<lparr>ev_HighWatermark := x\<rparr>))),
      (''lag_delta'', \<lambda>v ev. result_bind (decode_int64 v (ev_LagDelta ev)) (\<lambda>x. Inr (ev\<lparr>ev_LagDelta := x\<rparr>))),
      (''offset_delta'', \<lambda>v ev. result_bind (decode_int64 v (ev_OffsetDelta ev)) (\<lambda>x. Inr (ev\<lparr>ev_OffsetDelta := x\<rparr>))),
      (''consumption_rate'', \<lambda>v ev. result_bind (decode_float v (ev_ConsumptionRate ev)) (\<lambda>x. Inr (ev\<lparr>ev_ConsumptionRate := x\<rparr>))),
      (''lag_change_rate'', \<lambda>v ev. result_bind (decode_float v (ev_LagChangeRate ev)) (\<lambda>x. Inr (ev\<lparr>ev_LagChangeRate := x\<rparr>))),
      (''time_since_last_move'', \<lambda>v ev. result_bind (decode_string v (ev_TimeSinceLastMove ev)) (\<lambda>x. Inr (ev\<lparr>ev_TimeSinceLastMove := x\<rparr>)))]"

definition event_field :: "string \<Rightarrow> json \<Rightarrow> KafkaLagEvent \<Rightarrow> KafkaLagEvent result" where
  "event_field key v ev =
     (case filter (\<lambda>(name, f). field_is key name) event_fields of
        [] \<Rightarrow> Inr ev
      | (name, f) # _ \<Rightarrow> f v ev)"

definition unmarshal_event :: "string \<Rightarrow> KafkaLagEvent result" where
  "unmarshal_event data = unmarshal (\<lambda>j. decode_struct event_field j zero_KafkaLagEvent) data"

section \<open>The round trip\<close>

text \<open>No two fields answer to one name, so that each key finds its own.\<close>

lemma fold_name_lower: "\<forall>c \<in> set s. 90 < char_code c \<and> char_code c < 128 \<Longrightarrow> fold_name s = s"
proof (induction s)
  case (Cons c s)
  then have "90 < char_code c" "char_code c < 128" by simp_all
  then have "c \<noteq> CHR 0xC5" "c \<noteq> CHR 0xE2" by auto
  then show ?case using Cons by (simp del: fold_name.simps add: fold_name.simps(2))
qed simp

lemma event_field_names: "\<forall>name \<in> set (map fst event_fields). fold_name name = name"
proof
  fix name assume "name \<in> set (map fst event_fields)"
  moreover have "list_all (list_all (\<lambda>c. 90 < char_code c \<and> char_code c < 128)) (map fst event_fields)"
    by (simp add: event_fields_def base_fields_def)
  ultimately show "fold_name name = name" by (intro fold_name_lower) (auto simp: list_all_iff)
qed

lemma event_field_lookup:
  assumes "map_of event_fields k = Some f"
  shows "event_field k v ev = f v ev"
proof -
  have k: "k \<in> set (map fst event_fields)" using map_of_SomeD [OF assms] by force
  have "case filter (\<lambda>(name, f). field_is k name) fs of [] \<Rightarrow> False | (n, g) # _ \<Rightarrow> g = f"
    if "map_of fs k = Some f" and "set fs \<subseteq> set event_fields" for fs
    using that
  proof (induction fs)
    case (Cons nf fs)
    obtain n g where nf: "nf = (n, g)" by force
    have "n \<in> set (map fst event_fields)" using Cons.prems(2) nf by force
    then have "field_is k n \<longleftrightarrow> k = n" using event_field_names k unfolding field_is_def by metis
    then show ?case using Cons nf by (auto split: if_splits)
  qed simp
  from this [OF assms] show ?thesis by (auto simp: event_field_def split: list.splits)
qed

lemma event_field_at:
  "k \<in> set (map fst event_fields) \<Longrightarrow> event_field k v ev = the (map_of event_fields k) v ev"
  using event_field_lookup by (cases "map_of event_fields k") (auto simp: map_of_eq_None_iff)

text \<open>What the round trip makes of an event; its data are values without parts.\<close>

fun flat_any :: "any \<Rightarrow> bool" where
  "flat_any (AnyFloat x) = is_f64 x"
| "flat_any (AnyList xs) = False"
| "flat_any (AnyMap kvs) = False"
| "flat_any v = True"

fun clean_any :: "any \<Rightarrow> any" where
  "clean_any (AnyStr s) = AnyStr (sanitize s)"
| "clean_any v = v"

definition clean_data :: "(string \<times> any) list \<Rightarrow> (string \<times> any) list" where
  "clean_data kvs = map (\<lambda>(k, v). (sanitize k, clean_any v)) (sort_fields kvs)"

definition clean_base :: "BaseEvent \<Rightarrow> BaseEvent" where
  "clean_base b = \<lparr>be_ID = sanitize (be_ID b), be_Source = sanitize (be_Source b), be_Type = sanitize (be_Type b),
     be_Severity = sanitize (be_Severity b), be_Timestamp = be_Timestamp b, be_Cluster = sanitize (be_Cluster b),
     be_Namespace = sanitize (be_Namespace b), be_Service = sanitize (be_Service b), be_Title = sanitize (be_Title b),
     be_Description = sanitize (be_Description b), be_Data = clean_data (be_Data b),
     be_Fingerprint = sanitize (be_Fingerprint b)\<rparr>"

definition clean_event :: "KafkaLagEvent \<Rightarrow> KafkaLagEvent" where
  "clean_event ev = ev\<lparr>ev_Base := clean_base (ev_Base ev), ev_ConsumerGroup := sanitize (ev_ConsumerGroup ev),
     ev_Topic := sanitize (ev_Topic ev), ev_TimeSinceLastMove := sanitize (ev_TimeSinceLastMove ev)\<rparr>"

lemma flat_any_read:
  assumes "flat_any v" and "any_json v = Inr j"
  shows "decode_any (json_clean j) = Inr (clean_any v) \<and> json_nums j \<and> json_depth j = 0"
proof (cases v)
  case (AnyFloat x)
  then obtain q where "x = FFin q" using assms(2) by (cases x) auto
  then show ?thesis using assms AnyFloat float_text_reads [of q] by (auto simp: is_f64_def)
qed (use assms in auto)

lemma float_json_read:
  assumes "is_f64 x" and "float_json x = Inr j"
  shows "decode_float (json_clean j) old = Inr x \<and> json_nums j \<and> json_depth j = 0"
proof -
  obtain q where "x = FFin q" using assms(2) by (cases x) auto
  then show ?thesis using assms float_text_reads [of q] by (auto simp: is_f64_def)
qed

lemma sort_fields_simps: "sort_fields [] = []" "sort_fields (kv # kvs) = insert_field kv (sort_fields kvs)"
  by (simp_all add: sort_fields_def)

lemma distinct_sort_fields:
  fixes kvs :: "(string \<times> 'a) list"
  shows "distinct (map f (sort_fields kvs)) \<longleftrightarrow> distinct (map f kvs)"
proof -
  have "distinct (map f (insert_field kv xs)) \<longleftrightarrow> f kv \<notin> f ` set xs \<and> distinct (map f xs)"
    for kv and xs :: "(string \<times> 'a) list"
  proof (induction kv xs rule: insert_field.induct)
    case (2 kv kv' kvs)
    have "set (insert_field kv kvs) = insert kv (set kvs)" by (induction kv kvs rule: insert_field.induct) auto
    then show ?case using 2 by auto
  qed simp
  then show ?thesis by (induction kvs) (simp_all add: sort_fields_simps)
qed

lemma update_fresh: "k \<notin> fst ` set m \<Longrightarrow> AList.update k v m = m @ [(k, v)]"
  by (induction m) auto

lemma entries_read:
  assumes "fields_result (map (\<lambda>(k, v). (k, any_json v)) kvs) = Inr m" and "\<forall>(k, v) \<in> set kvs. flat_any v"
    and "distinct (map fst acc @ map (\<lambda>(k, v). sanitize k) kvs)"
  shows "decode_entries decode_any (map (\<lambda>(k, j). (sanitize k, json_clean j)) m) acc =
      Inr (acc @ map (\<lambda>(k, v). (sanitize k, clean_any v)) kvs) \<and>
    list_all (\<lambda>(k, j). json_nums j \<and> json_depth j = 0) m"
  using assms
proof (induction kvs arbitrary: m acc)
  case (Cons kv kvs)
  obtain k v where kv: "kv = (k, v)" by force
  obtain j m' where j: "any_json v = Inr j" and m': "fields_result (map (\<lambda>(k, v). (k, any_json v)) kvs) = Inr m'"
    and m: "m = (k, j) # m'"
    using Cons.prems(1) by (auto simp: kv result_bind_Inr)
  have flat: "flat_any v" using Cons.prems(2) kv by simp
  have "AList.update (sanitize k) (clean_any v) acc = acc @ [(sanitize k, clean_any v)]"
    using Cons.prems(3) by (intro update_fresh) (auto simp: kv)
  then show ?case
    using Cons.IH [OF m', of "acc @ [(sanitize k, clean_any v)]"] Cons.prems(2,3) flat_any_read [OF flat j]
    by (simp add: kv m)
qed simp

lemma data_read:
  assumes "any_json (AnyMap kvs) = Inr j" and "\<forall>(k, v) \<in> set kvs. flat_any v"
    and "distinct (map (\<lambda>(k, v). sanitize k) kvs)"
  shows "decode_map decode_any (json_clean j) (Some []) = Inr (Some (clean_data kvs)) \<and> json_nums j \<and> json_depth j \<le> 1"
proof -
  obtain m where m: "fields_result (map (\<lambda>(k, v). (k, any_json v)) (sort_fields kvs)) = Inr m" and j: "j = JObj m"
    using assms(1) by (auto simp: result_bind_Inr sort_fields_map)
  have "distinct (map fst [] @ map (\<lambda>(k, v). sanitize k) (sort_fields kvs))"
    using assms(3) by (simp add: distinct_sort_fields)
  from entries_read [OF m _ this] assms(2) show ?thesis
    by (auto simp: j clean_data_def list_all_iff)
qed

lemma decode_fields_append:
  "decode_fields f (xs @ ys) s = result_bind (decode_fields f xs s) (\<lambda>s'. decode_fields f ys s')"
  by (induction xs arbitrary: s) (auto simp: result_bind_def split: sum.split)

abbreviation clean_members :: "(string \<times> json) list \<Rightarrow> (string \<times> json) list" where
  "clean_members \<equiv> map (\<lambda>(k, j). (sanitize k, json_clean j))"

lemma decode_omitted:
  "be_Cluster (ev_Base ev) = [] \<Longrightarrow> decode_fields event_field (clean_members (omitempty ''cluster'' v)) ev =
     Inr (ev\<lparr>ev_Base := (ev_Base ev)\<lparr>be_Cluster := sanitize v\<rparr>\<rparr>)"
  "be_Namespace (ev_Base ev) = [] \<Longrightarrow> decode_fields event_field (clean_members (omitempty ''namespace'' v)) ev =
     Inr (ev\<lparr>ev_Base := (ev_Base ev)\<lparr>be_Namespace := sanitize v\<rparr>\<rparr>)"
  "be_Service (ev_Base ev) = [] \<Longrightarrow> decode_fields event_field (clean_members (omitempty ''service'' v)) ev =
     Inr (ev\<lparr>ev_Base := (ev_Base ev)\<lparr>be_Service := sanitize v\<rparr>\<rparr>)"
  by (auto simp: omitempty_def sanitize_valid event_field_at event_fields_def base_fields_def)

definition event_readable :: "KafkaLagEvent \<Rightarrow> bool" where
  "event_readable ev \<longleftrightarrow> is_f64 (ev_ConsumptionRate ev) \<and> is_f64 (ev_LagChangeRate ev) \<and>
     (\<forall>(k, v) \<in> set (be_Data (ev_Base ev)). flat_any v) \<and>
     distinct (map (\<lambda>(k, v). sanitize k) (be_Data (ev_Base ev)))"

theorem event_roundtrip:
  assumes "zone_ok z" and "event_readable ev" and "marshal_event z ev = Inr j"
  shows "unmarshal_event (json_text j) = Inr (clean_event ev)"
proof -
  let ?b = "ev_Base ev"
  obtain t d r c where t: "time_json z (be_Timestamp ?b) = Inr t" and d: "any_json (AnyMap (be_Data ?b)) = Inr d"
    and r: "float_json (ev_ConsumptionRate ev) = Inr r" and c: "float_json (ev_LagChangeRate ev) = Inr c"
    using assms(3) by (auto simp: marshal_event_def Let_def result_bind_Inr)
  have ok: "time_ok z (be_Timestamp ?b)" and tj: "t = JStr (rfc3339nano z (be_Timestamp ?b))"
    using t by (auto simp: time_json_def split: if_splits)
  have time: "decode_time (json_clean t) old = Inr (be_Timestamp ?b)" for old
    using rfc3339nano_reads [OF assms(1) ok] ascii_time(1) by (simp add: tj sanitize_valid ascii_valid)
  note data = data_read [OF d] and rate = float_json_read [OF _ r] and change = float_json_read [OF _ c]
  have fl: "decode_map decode_any (json_clean d) (Some []) = Inr (Some (clean_data (be_Data ?b)))" "json_nums d" "json_depth d \<le> 1"
    "decode_float (json_clean r) old = Inr (ev_ConsumptionRate ev)" "json_nums r" "json_depth r = 0"
    "decode_float (json_clean c) old = Inr (ev_LagChangeRate ev)" "json_nums c" "json_depth c = 0" for old
    using data rate change assms(2) unfolding event_readable_def by blast+
  have nums: "json_nums j" "json_depth j \<le> max_nesting"
    using assms(3) t d r c fl by (auto simp: marshal_event_def Let_def tj omitempty_def max_nesting_def)
  have "decode_struct event_field (json_clean j) zero_KafkaLagEvent = Inr (clean_event ev)"
    using assms(3) [symmetric] t d r c
    by (simp add: clean_event_def clean_base_def marshal_event_def Let_def decode_fields_append decode_omitted event_field_at event_fields_def
        base_fields_def sanitize_valid time fl zero_KafkaLagEvent_def zero_BaseEvent_def)
  then show ?thesis by (simp add: unmarshal_event_def unmarshal_clean [OF nums])
qed

end
