(* ===== verification/Rca_Consumer.thy ===== *)
theory Rca_Consumer
  imports Publisher Event_Codec
begin

text \<open>
  The event consumer (internal/rca/consumer/consumer.go).  Redis and the handlers work on a
  common world \<open>'w\<close>; a handler gets a pointer to the event and may change it for those after it.
\<close>

section \<open>Redis and handlers as the consumer uses them\<close>

record xmessage =
  xm_ID :: string
  xm_Values :: "(string \<times> any) list"

record 'w stream_redis =
  sd_Ping :: "'w \<Rightarrow> unit result"
  sd_XGroupCreateMkStream :: "string \<Rightarrow> string \<Rightarrow> string \<Rightarrow> 'w \<Rightarrow> unit result \<times> 'w"
  sd_XReadGroup :: "string \<Rightarrow> string \<Rightarrow> string list \<Rightarrow> i64 \<Rightarrow> duration \<Rightarrow> 'w \<Rightarrow>
    (string \<times> xmessage list) list result \<times> 'w"
  sd_XAck :: "string \<Rightarrow> string \<Rightarrow> string \<Rightarrow> 'w \<Rightarrow> unit result \<times> 'w"

type_synonym 'w handler = "KafkaLagEvent \<Rightarrow> 'w \<Rightarrow> unit result \<times> KafkaLagEvent \<times> 'w"

section \<open>The consumer\<close>

record 'w Consumer =
  cn_config :: ConsumerConfig
  cn_handlers :: "'w handler list"

definition NewConsumer :: "'w stream_redis \<Rightarrow> ConsumerConfig \<Rightarrow> 'w \<Rightarrow> 'w Consumer result" where
  "NewConsumer S cfg w =
     (case sd_Ping S w of
        Inl e \<Rightarrow> Inl (ErrWrap ''failed to connect to Redis: '' e)
      | Inr _ \<Rightarrow> Inr \<lparr>cn_config = cfg, cn_handlers = []\<rparr>)"

definition RegisterHandler :: "'w handler \<Rightarrow> 'w Consumer \<Rightarrow> 'w Consumer" where
  "RegisterHandler h c = c\<lparr>cn_handlers := cn_handlers c @ [h]\<rparr>"

text \<open>The loop over the handlers; an error is only logged.\<close>

fun run_handlers :: "'w handler list \<Rightarrow> KafkaLagEvent \<Rightarrow> 'w \<Rightarrow> 'w" where
  "run_handlers [] ev w = w"
| "run_handlers (h # hs) ev w = (let (res, ev', w') = h ev w in run_handlers hs ev' w')"

definition event_text :: "xmessage \<Rightarrow> string option" where
  "event_text msg = (case map_of (xm_Values msg) ''event'' of Some (AnyStr s) \<Rightarrow> Some s | _ \<Rightarrow> None)"

definition processMessage ::
  "'w Consumer \<Rightarrow> xmessage \<Rightarrow> 'w \<Rightarrow> unit result \<times> 'w" where
  "processMessage c msg w =
     (case event_text msg of
        None \<Rightarrow> (Inl (ErrText (''missing event data in message '' @ xm_ID msg)), w)
      | Some eventData \<Rightarrow>
          (case unmarshal_event eventData of
             Inl e \<Rightarrow> (Inl (ErrWrap ''failed to unmarshal event: '' e), w)
           | Inr ev \<Rightarrow> (Inr (), run_handlers (cn_handlers c) ev w)))"

text \<open>The loop over the messages of a stream; an acknowledgement that fails is only logged.\<close>

fun messages_loop ::
  "'w stream_redis \<Rightarrow> 'w Consumer \<Rightarrow> xmessage list \<Rightarrow> 'w \<Rightarrow> 'w" where
  "messages_loop S c [] w = w"
| "messages_loop S c (msg # msgs) w =
     (let (res, w1) = processMessage c msg w;
          w2 = (case res of
             Inl e \<Rightarrow> w1
           | Inr _ \<Rightarrow> snd (sd_XAck S (cc_StreamKey (cn_config c)) (cc_ConsumerGroup (cn_config c)) (xm_ID msg) w1))
      in messages_loop S c msgs w2)"

fun streams_loop ::
  "'w stream_redis \<Rightarrow> 'w Consumer \<Rightarrow>
     (string \<times> xmessage list) list \<Rightarrow> 'w \<Rightarrow> 'w" where
  "streams_loop S c [] w = w"
| "streams_loop S c ((stream, msgs) # streams) w =
     streams_loop S c streams (messages_loop S c msgs w)"

definition consumeBatch ::
  "'w stream_redis \<Rightarrow> 'w Consumer \<Rightarrow> 'w \<Rightarrow> unit result \<times> 'w" where
  "consumeBatch S c w =
     (let cfg = cn_config c;
          (reply, w1) = sd_XReadGroup S (cc_ConsumerGroup cfg) (cc_ConsumerName cfg)
             [cc_StreamKey cfg, ''>''] (cc_BatchSize cfg) (cc_BlockTimeout cfg) w
      in case reply of
           Inl e \<Rightarrow>
             if errors_Is_nil e then (Inr (), w1)
             else (Inl (ErrWrap ''failed to read from stream: '' e), w1)
         | Inr messages \<Rightarrow> (Inr (), streams_loop S c messages w1))"

text \<open>
  The consume loop until the context is done, which it finds after \<open>n\<close> batches; a batch that
  fails is only logged.
\<close>

fun consume_loop ::
  "'w stream_redis \<Rightarrow> 'w Consumer \<Rightarrow> go_error \<Rightarrow> nat \<Rightarrow> 'w \<Rightarrow>
     unit result \<times> 'w" where
  "consume_loop S c ctxErr 0 w = (Inl ctxErr, w)"
| "consume_loop S c ctxErr (Suc n) w =
     consume_loop S c ctxErr n (snd (consumeBatch S c w))"

definition Start ::
  "'w stream_redis \<Rightarrow> 'w Consumer \<Rightarrow> go_error \<Rightarrow> nat \<Rightarrow> 'w \<Rightarrow>
     unit result \<times> 'w" where
  "Start S c ctxErr n w =
     (let cfg = cn_config c;
          (reply, w1) = sd_XGroupCreateMkStream S (cc_StreamKey cfg) (cc_ConsumerGroup cfg) ''0'' w
      in case reply of
           Inr _ \<Rightarrow> consume_loop S c ctxErr n w1
         | Inl e \<Rightarrow>
             if err_string e \<noteq> ''[Error] Consumer Group name already exists''
             then (Inl (ErrWrap ''failed to create consumer group: '' e), w1)
             else consume_loop S c ctxErr n w1)"


section \<open>What the streams promise\<close>

text \<open>
  \<open>pending w\<close>: the entries delivered to the group and not acknowledged; \<open>delivered w\<close>: all that
  were ever delivered.  Reading with \<open>>\<close> delivers entries that never were, and makes them pending;
  an acknowledgement removes its entry.  Handlers leave the group alone.
\<close>

definition ids :: "(string \<times> xmessage list) list \<Rightarrow> string list" where
  "ids streams = map xm_ID (concat (map snd streams))"

definition stream_laws ::
  "'w stream_redis \<Rightarrow> 'w Consumer \<Rightarrow> ('w \<Rightarrow> string set) \<Rightarrow> ('w \<Rightarrow> string set) \<Rightarrow> bool" where
  "stream_laws S c pending delivered \<longleftrightarrow>
     (\<forall>g n ks b t w streams w'. sd_XReadGroup S g n ks b t w = (Inr streams, w') \<longrightarrow>
        distinct (ids streams) \<and> set (ids streams) \<inter> delivered w = {} \<and>
        pending w' = pending w \<union> set (ids streams) \<and> delivered w' = delivered w \<union> set (ids streams)) \<and>
     (\<forall>g n ks b t w e w'. sd_XReadGroup S g n ks b t w = (Inl e, w') \<longrightarrow>
        pending w' = pending w \<and> delivered w' = delivered w) \<and>
     (\<forall>s g i w u w'. sd_XAck S s g i w = (Inr u, w') \<longrightarrow>
        pending w' = pending w - {i} \<and> delivered w' = delivered w) \<and>
     (\<forall>s g i w e w'. sd_XAck S s g i w = (Inl e, w') \<longrightarrow>
        pending w' = pending w \<and> delivered w' = delivered w) \<and>
     (\<forall>h \<in> set (cn_handlers c). \<forall>ev w. pending (snd (snd (h ev w))) = pending w \<and>
        delivered (snd (snd (h ev w))) = delivered w)"

lemma read_law:
  "stream_laws S c pending delivered \<Longrightarrow> sd_XReadGroup S g n ks b t w = (Inr streams, w') \<Longrightarrow>
     distinct (ids streams) \<and> set (ids streams) \<inter> delivered w = {} \<and>
     pending w' = pending w \<union> set (ids streams) \<and> delivered w' = delivered w \<union> set (ids streams)"
  unfolding stream_laws_def by (elim conjE) metis

lemma read_error_law:
  "stream_laws S c pending delivered \<Longrightarrow> sd_XReadGroup S g n ks b t w = (Inl e, w') \<Longrightarrow>
     pending w' = pending w \<and> delivered w' = delivered w"
  unfolding stream_laws_def by (elim conjE) metis

lemma ack_law:
  "stream_laws S c pending delivered \<Longrightarrow> sd_XAck S s g i w = (Inr u, w') \<Longrightarrow>
     pending w' = pending w - {i} \<and> delivered w' = delivered w"
  unfolding stream_laws_def by (elim conjE) metis

lemma ack_error_law:
  "stream_laws S c pending delivered \<Longrightarrow> sd_XAck S s g i w = (Inl e, w') \<Longrightarrow>
     pending w' = pending w \<and> delivered w' = delivered w"
  unfolding stream_laws_def by (elim conjE) metis

lemma handlers_law:
  "stream_laws S c pending delivered \<Longrightarrow> \<forall>h \<in> set (cn_handlers c). \<forall>ev w.
     pending (snd (snd (h ev w))) = pending w \<and> delivered (snd (snd (h ev w))) = delivered w"
  unfolding stream_laws_def by (elim conjE)

definition acks_succeed :: "'w stream_redis \<Rightarrow> bool" where
  "acks_succeed S \<longleftrightarrow> (\<forall>s g i w. \<exists>u. fst (sd_XAck S s g i w) = Inr u)"

lemma run_handlers_frame:
  assumes "\<forall>h \<in> set hs. \<forall>ev w. pending (snd (snd (h ev w))) = pending w \<and> delivered (snd (snd (h ev w))) = delivered w"
  shows "pending (run_handlers hs ev w) = pending w \<and> delivered (run_handlers hs ev w) = delivered w"
  using assms
proof (induction hs arbitrary: ev w)
  case (Cons h hs)
  obtain res ev' w' where h: "h ev w = (res, ev', w')" by (metis prod_cases3)
  then have "pending w' = pending w \<and> delivered w' = delivered w"
    using Cons.prems by (metis list.set_intros(1) snd_conv)
  then show ?case using Cons.IH [of ev' w'] Cons.prems by (simp add: h)
qed simp

text \<open>A message the consumer can decode.\<close>

definition decodable :: "xmessage \<Rightarrow> bool" where
  "decodable msg \<longleftrightarrow> (case event_text msg of None \<Rightarrow> False | Some s \<Rightarrow> \<exists>ev. unmarshal_event s = Inr ev)"

lemma processMessage_result:
  "processMessage c msg w = (res, w') \<Longrightarrow> (res = Inr () \<longleftrightarrow> decodable msg) \<and>
     (case event_text msg of Some s \<Rightarrow>
        (case unmarshal_event s of Inr ev \<Rightarrow> w' = run_handlers (cn_handlers c) ev w | Inl e \<Rightarrow> w' = w)
      | None \<Rightarrow> w' = w)"
  by (auto simp: processMessage_def decodable_def split: option.splits sum.splits)

lemma messages_loop_sets:
  assumes "stream_laws S c pending delivered" and "acks_succeed S" and "distinct (map xm_ID msgs)"
  shows "pending (messages_loop S c msgs w) =
      pending w - xm_ID ` {msg \<in> set msgs. decodable msg} \<and>
    delivered (messages_loop S c msgs w) = delivered w"
  using assms(3)
proof (induction msgs arbitrary: w)
  case (Cons msg msgs)
  obtain res w1 where p: "processMessage c msg w = (res, w1)" by force
  have w1: "pending w1 = pending w" "delivered w1 = delivered w"
    using processMessage_result [OF p] run_handlers_frame [OF handlers_law [OF assms(1)]] by (auto split: option.splits sum.splits)
  let ?ack = "sd_XAck S (cc_StreamKey (cn_config c)) (cc_ConsumerGroup (cn_config c)) (xm_ID msg) w1"
  obtain u w2 where w2: "?ack = (Inr u, w2)" using assms(2) unfolding acks_succeed_def by (metis prod.collapse)
  have ack: "pending w2 = pending w1 - {xm_ID msg}" "delivered w2 = delivered w1"
    using ack_law [OF assms(1) w2] by simp_all
  show ?case
  proof (cases "decodable msg")
    case True
    then have "messages_loop S c (msg # msgs) w = messages_loop S c msgs w2"
      using processMessage_result [OF p] p w2 by simp
    then show ?thesis using Cons ack w1 True by auto
  next
    case False
    then obtain e where "res = Inl e" using processMessage_result [OF p] by (cases res) auto
    then have "messages_loop S c (msg # msgs) w = messages_loop S c msgs w1"
      using p by simp
    moreover have "{m \<in> set (msg # msgs). decodable m} = {m \<in> set msgs. decodable m}"
      using False by auto
    ultimately show ?thesis using Cons w1 by simp
  qed
qed simp

lemma streams_loop_eq: "streams_loop S c streams w = messages_loop S c (concat (map snd streams)) w"
proof -
  have app: "messages_loop S c (xs @ ys) w = messages_loop S c ys (messages_loop S c xs w)" for xs ys w
    by (induction xs arbitrary: w) (simp_all add: Let_def split_def)
  show ?thesis by (induction streams arbitrary: w) (auto simp: app)
qed

lemma messages_loop_keeps:
  assumes "stream_laws S c pending delivered" and "i \<notin> set (map xm_ID msgs)" and "i \<in> pending w"
  shows "i \<in> pending (messages_loop S c msgs w) \<and>
    delivered (messages_loop S c msgs w) = delivered w"
  using assms(2,3)
proof (induction msgs arbitrary: w)
  case (Cons msg msgs)
  obtain res w1 where p: "processMessage c msg w = (res, w1)" by force
  have w1: "pending w1 = pending w" "delivered w1 = delivered w"
    using processMessage_result [OF p] run_handlers_frame [OF handlers_law [OF assms(1)]]
    by (auto split: option.splits sum.splits)
  obtain ack w2 where w2: "sd_XAck S (cc_StreamKey (cn_config c)) (cc_ConsumerGroup (cn_config c)) (xm_ID msg) w1 = (ack, w2)"
    by force
  have ack: "i \<in> pending w2" "delivered w2 = delivered w1"
    using ack_law [OF assms(1)] ack_error_law [OF assms(1)] w2 Cons.prems w1 by (cases ack; auto)+
  show ?case
  proof (cases res)
    case (Inl e)
    then show ?thesis using Cons w1 p by simp
  next
    case (Inr u)
    then show ?thesis using Cons.IH [of w2] Cons.prems(1) ack w1 p w2 by simp
  qed
qed simp

lemma consumeBatch_keeps:
  assumes "stream_laws S c pending delivered" and "i \<in> pending w" and "i \<in> delivered w"
    and "consumeBatch S c w = (res, w')"
  shows "i \<in> pending w' \<and> i \<in> delivered w'"
proof -
  let ?cfg = "cn_config c"
  obtain reply w1 where r: "sd_XReadGroup S (cc_ConsumerGroup ?cfg) (cc_ConsumerName ?cfg)
      [cc_StreamKey ?cfg, ''>''] (cc_BatchSize ?cfg) (cc_BlockTimeout ?cfg) w = (reply, w1)" by force
  show ?thesis
  proof (cases reply)
    case (Inl e)
    then show ?thesis using read_error_law [OF assms(1)] r assms(2-4)
      by (auto simp: consumeBatch_def split: if_splits)
  next
    case (Inr streams)
    have law: "set (ids streams) \<inter> delivered w = {}" "pending w1 = pending w \<union> set (ids streams)"
        "delivered w1 = delivered w \<union> set (ids streams)"
      using read_law [OF assms(1)] r Inr by blast+
    have "i \<notin> set (map xm_ID (concat (map snd streams)))" using law(1) assms(3) by (auto simp: ids_def)
    then have "i \<in> pending (messages_loop S c (concat (map snd streams)) w1) \<and>
        delivered (messages_loop S c (concat (map snd streams)) w1) = delivered w1"
      by (rule messages_loop_keeps [OF assms(1)]) (simp add: law(2) assms(2))
    moreover have "w' = messages_loop S c (concat (map snd streams)) w1"
      using assms(4) r Inr by (simp add: consumeBatch_def streams_loop_eq)
    ultimately show ?thesis using law(3) assms(3) by simp
  qed
qed

lemma consume_loop_keeps:
  assumes "stream_laws S c pending delivered"
  shows "i \<in> pending w \<Longrightarrow> i \<in> delivered w \<Longrightarrow>
    i \<in> pending (snd (consume_loop S c ctxErr n w)) \<and> fst (consume_loop S c ctxErr n w) = Inl ctxErr"
proof (induction n arbitrary: w)
  case (Suc n)
  obtain res w' where b: "consumeBatch S c w = (res, w')" by force
  then show ?case using Suc.IH [of w'] consumeBatch_keeps [OF assms Suc.prems b] by simp
qed simp

section \<open>From the publisher to the handlers\<close>

text \<open>What a reader of the stream gets: the values of an entry, as strings.\<close>

definition read_entry :: "string \<Rightarrow> (string \<times> string) list \<Rightarrow> xmessage" where
  "read_entry entryID values = \<lparr>xm_ID = entryID, xm_Values = map (\<lambda>(f, v). (f, AnyStr v)) values\<rparr>"

lemma published_readable:
  assumes "is_f64 (ps_ConsumptionRate status)" and "is_f64 (ps_LagChangeRate status)"
    and "is_f64 (ps_WindowCompleteness status)"
  shows "event_readable (published_event p eventID now eventType severity status message)"
  using assms
  by (simp add: event_readable_def published_event_def with_fingerprint_def new_event_def Let_def sanitize_valid)

lemma entry_received:
  assumes "zone_ok z" and "event_readable ev" and "marshal_event z ev = Inr j"
  shows "processMessage c (read_entry entryID (entry_values p (json_text j) eventType severity status now)) w =
    (Inr (), run_handlers (cn_handlers c) (clean_event ev) w)"
  using event_roundtrip [OF assms]
  by (simp add: processMessage_def event_text_def read_entry_def entry_values_def)


section \<open>Properties\<close>



text \<open>C4: An event reaches the handlers as it was published. Whatever entries the publication of an
  evaluated partition adds to the stream, retries and lost replies included, the consumer decodes
  each of them to the published event, the time to its nanosecond, the rates to their last bit and
  the offsets exactly, hands it to every handler and reports success. Only bytes that are not valid
  UTF-8 are replaced, and the data come in the order of their keys.\<close>

theorem published_event_is_received:
  assumes "redis_laws R live added" and "ep_enabled p" and "zone_ok z"
    and "status = EvaluatePartitionConsumer cfg records groupID topic partn"
    and "PublishPartitionEvent R z (Some p) eventID now eventType severity status message r = (res, r')"
  shows "\<exists>entries. added r' = added r @ entries \<and> (\<forall>(stream, values) \<in> set entries. stream = ep_streamKey p \<and>
    (\<forall>(c :: 'w Consumer) entryID w. processMessage c (read_entry entryID values) w = (Inr (), run_handlers (cn_handlers c)
      (clean_event (published_event p eventID now eventType severity status message)) w)))"
proof -
  let ?ev = "published_event p eventID now eventType severity status message"
  obtain k data where k: "added r' = added r @ replicate k (ep_streamKey p, entry_values p data eventType severity status now)"
    and data: "0 < k \<longrightarrow> (\<exists>j. marshal_event z ?ev = Inr j \<and> data = json_text j)"
    using publish_entries [OF assms(1,2,5)] by blast
  have readable: "event_readable ?ev"
    unfolding assms(4) by (intro published_readable evaluate_floats)
  have "processMessage c (read_entry entryID (entry_values p data eventType severity status now)) w =
      (Inr (), run_handlers (cn_handlers c) (clean_event ?ev) w)" if k0: "0 < k" for c :: "'w Consumer" and entryID w
  proof -
    obtain j where "marshal_event z ?ev = Inr j" "data = json_text j" using data k0 by blast
    then show ?thesis by (simp add: entry_received [OF assms(3) readable])
  qed
  then show ?thesis
    by (intro exI [of _ "replicate k (ep_streamKey p, entry_values p data eventType severity status now)"])
      (auto simp: k)
qed

text \<open>A consumer whose group exists already does not start: Redis answers with the error
  BUSYGROUP, whose text is not the one the code compares with, and not a single message is read.\<close>

lemma restart_fails:
  assumes "sd_XGroupCreateMkStream S (cc_StreamKey (cn_config c)) (cc_ConsumerGroup (cn_config c)) ''0'' w =
      (Inl (ErrText ''BUSYGROUP Consumer Group name already exists''), w')"
  shows "Start S c ctxErr n w =
    (Inl (ErrWrap ''failed to create consumer group: '' (ErrText ''BUSYGROUP Consumer Group name already exists'')), w')"
  using assms by (simp add: Start_def)

section \<open>Samples\<close>

text \<open>A stream with messages that were not delivered yet, and the group's pending entries.\<close>

record sample_stream =
  sw_new :: "xmessage list"
  sw_pending :: "string list"
  sw_seen :: "string list"

definition sampleS :: "sample_stream stream_redis" where
  "sampleS = \<lparr>sd_Ping = (\<lambda>w. Inr ()),
     sd_XGroupCreateMkStream = (\<lambda>s g i w. (Inl (ErrText ''BUSYGROUP Consumer Group name already exists''), w)),
     sd_XReadGroup = (\<lambda>g n ks b t w.
       if sw_new w = [] \<or> \<not> distinct (map xm_ID (sw_new w)) \<or> set (map xm_ID (sw_new w)) \<inter> set (sw_seen w) \<noteq> {}
       then (Inl RedisNil, w)
       else (Inr [(''s'', sw_new w)], w\<lparr>sw_new := [], sw_pending := sw_pending w @ map xm_ID (sw_new w),
         sw_seen := sw_seen w @ map xm_ID (sw_new w)\<rparr>)),
     sd_XAck = (\<lambda>s g i w. (Inr (), w\<lparr>sw_pending := filter (\<lambda>j. j \<noteq> i) (sw_pending w)\<rparr>))\<rparr>"

definition sample_consumer :: "sample_stream Consumer" where
  "sample_consumer = \<lparr>cn_config = \<lparr>cc_ConsumerGroup = ''c'', cc_StreamKey = ''s'', cc_ConsumerName = ''n'',
     cc_BatchSize = 10, cc_BlockTimeout = second, cc_MaxRetries = 3\<rparr>,
     cn_handlers = [\<lambda>ev w. (Inl (ErrText ''handler failed''), ev, w)]\<rparr>"

lemma sampleS_laws: "stream_laws sampleS sample_consumer (\<lambda>w. set (sw_pending w)) (\<lambda>w. set (sw_seen w))"
  by (auto simp: stream_laws_def sampleS_def sample_consumer_def ids_def split: if_splits)

lemma sampleS_acks: "acks_succeed sampleS"
  by (simp add: acks_succeed_def sampleS_def)

definition sample_world :: sample_stream where
  "sample_world = \<lparr>sw_new = [\<lparr>xm_ID = ''1-0'', xm_Values = [(''event'', AnyStr ''{}'')]\<rparr>,
     \<lparr>xm_ID = ''2-0'', xm_Values = [(''event'', AnyStr ''x'')]\<rparr>], sw_pending = [], sw_seen = []\<rparr>"

lemma sample_read:
  "sd_XReadGroup sampleS (cc_ConsumerGroup (cn_config sample_consumer))
      (cc_ConsumerName (cn_config sample_consumer)) [cc_StreamKey (cn_config sample_consumer), ''>'']
      (cc_BatchSize (cn_config sample_consumer)) (cc_BlockTimeout (cn_config sample_consumer)) sample_world =
      (Inr [(''s'', sw_new sample_world)], sample_world\<lparr>sw_new := [], sw_pending := [''1-0'', ''2-0''], sw_seen := [''1-0'', ''2-0'']\<rparr>)"
  by (simp add: sampleS_def sample_world_def)

lemma sample_texts: "unmarshal_event ''{}'' = Inr zero_KafkaLagEvent" "\<exists>e. unmarshal_event ''x'' = Inl e"
proof -
  have "json_parse ''{}'' = Inr (JObj [])" using json_parse_text [of "JObj []"] by (simp add: max_nesting_def)
  moreover have "json_parse ''x'' = Inl syntax_error" by code_simp
  ultimately show "unmarshal_event ''{}'' = Inr zero_KafkaLagEvent" "\<exists>e. unmarshal_event ''x'' = Inl e"
    by (simp_all add: unmarshal_event_def unmarshal_def)
qed

lemma sample_decodable:
  "{msg \<in> set (sw_new sample_world). decodable msg} = {\<lparr>xm_ID = ''1-0'', xm_Values = [(''event'', AnyStr ''{}'')]\<rparr>}"
proof -
  have "decodable \<lparr>xm_ID = ''1-0'', xm_Values = [(''event'', AnyStr ''{}'')]\<rparr>"
    "\<not> decodable \<lparr>xm_ID = ''2-0'', xm_Values = [(''event'', AnyStr ''x'')]\<rparr>"
    using sample_texts by (auto simp: decodable_def event_text_def)
  then show ?thesis by (auto simp: sample_world_def)
qed



text \<open>The sample publisher adds one entry, which the sample consumer reads.\<close>

lemma sample_published:
  "\<exists>r' values. PublishPartitionEvent sampleR UTC (Some (sample_publisher ''c1'')) ''i'' 0 EventTypeLagCleared SeverityInfo
      (EvaluatePartitionConsumer dev_config [] ''g'' ''t'' 0) ''m'' \<lparr>sr_keys = [], sr_log = [], sr_broken = False\<rparr> = (Inr (), r') \<and>
    sr_log r' = [(''s'', values)]"
proof -
  let ?p = "sample_publisher ''c1''" and ?st = "EvaluatePartitionConsumer dev_config [] ''g'' ''t'' 0"
  define f where "f = generateFingerprint ?p (new_event ?p ''i'' 0 EventTypeLagCleared SeverityInfo ?st ''m'')"
  have "ps_WindowCompleteness ?st = FFin 0" "ps_ConsumptionRate ?st = FFin 0" "ps_LagChangeRate ?st = FFin 0"
    by (simp_all add: EvaluatePartitionConsumer_def zero_PartitionConsumerStatus_def)
  from marshal_event_finite [OF this sample_times(1), of f ?p "''i''" EventTypeLagCleared SeverityInfo "''m''"]
  show ?thesis
    by (auto simp: PublishPartitionEvent_def f_def [symmetric] Let_def)
      (auto simp: sample_publisher_def sampleR_def numeral_eq_Suc)
qed

theorem published_event_is_received_witness:
  "\<exists>r' values. PublishPartitionEvent sampleR UTC (Some (sample_publisher ''c1'')) ''i'' 0 EventTypeLagCleared SeverityInfo
      (EvaluatePartitionConsumer dev_config [] ''g'' ''t'' 0) ''m'' \<lparr>sr_keys = [], sr_log = [], sr_broken = False\<rparr> = (Inr (), r') \<and>
    sr_log r' = [(''s'', values)] \<and>
    processMessage sample_consumer (read_entry ''1-0'' values) sample_world = (Inr (), sample_world)"
proof -
  obtain r' "values" where run: "PublishPartitionEvent sampleR UTC (Some (sample_publisher ''c1'')) ''i'' 0 EventTypeLagCleared SeverityInfo
      (EvaluatePartitionConsumer dev_config [] ''g'' ''t'' 0) ''m'' \<lparr>sr_keys = [], sr_log = [], sr_broken = False\<rparr> = (Inr (), r')"
    and log: "sr_log r' = [(''s'', values)]"
    using sample_published by blast
  have "ep_enabled (sample_publisher ''c1'')" by (simp add: sample_publisher_def)
  from published_event_is_received [OF sampleR_laws this UTC_ok refl run, where 'w = sample_stream]
  show ?thesis using run log by (auto simp: sample_consumer_def)
qed

end
