(* ===== verification/Commands.thy ===== *)
theory Commands
  imports Api Rca_Consumer
begin

text \<open>
  The two programs (cmd/monitor/main.go, cmd/rca/main.go): from the configuration, as the YAML
  library gives it, to the clusters that are monitored, and from there to the shutdown; the
  event consumer and its logging handler.  \<open>log.Fatal\<close> ends the process and runs no deferred call.
\<close>

section \<open>\<open>time.ParseDuration\<close>\<close>

text \<open>\<open>None\<close> is an overflow.\<close>

fun leadingInt :: "string \<Rightarrow> int \<Rightarrow> (int \<times> string) option" where
  "leadingInt [] x = Some (x, [])"
| "leadingInt (c # s) x =
     (if \<not> is_digit c then Some (x, c # s)
      else if 2 ^ 63 div 10 < x then None
      else let y = 10 * x + (of_char c - 48) in if 2 ^ 63 < y then None else leadingInt s y)"

text \<open>The digits after the point as a number and a scale; after an overflow they are skipped.\<close>

fun leadingFraction :: "string \<Rightarrow> int \<Rightarrow> f64 \<Rightarrow> bool \<Rightarrow> int \<times> f64 \<times> string" where
  "leadingFraction [] x scale overflow = (x, scale, [])"
| "leadingFraction (c # s) x scale overflow =
     (if \<not> is_digit c then (x, scale, c # s)
      else if overflow \<or> (2 ^ 63 - 1) div 10 < x \<or> 2 ^ 63 < 10 * x + (of_char c - 48)
      then leadingFraction s x scale True
      else leadingFraction s (10 * x + (of_char c - 48)) (f_mul scale (FFin 10)) False)"

definition unitMap :: "(string \<times> int) list" where
  "unitMap = [(''ns'', 1), (''us'', 1000), ([CHR 0xC2, CHR 0xB5, CHR ''s''], 1000),
     ([CHR 0xCE, CHR 0xBC, CHR ''s''], 1000), (''ms'', 1000000), (''s'', 1000000000),
     (''m'', 60000000000), (''h'', 3600000000000)]"

text \<open>The conversion of a float that is finite and not negative to \<open>uint64\<close>.\<close>

fun f_to_uint :: "f64 \<Rightarrow> int" where
  "f_to_uint (FFin q) = \<lfloor>q\<rfloor>"
| "f_to_uint _ = 0"

text \<open>One number with its unit, and the rest of the text; \<open>None\<close> is any of the errors.\<close>

definition duration_part :: "string \<Rightarrow> (int \<times> string) option" where
  "duration_part s =
     (case leadingInt s 0 of
        None \<Rightarrow> None
      | Some (v, s1) \<Rightarrow>
          let pre = length s1 \<noteq> length s;
              (f, scale, s2, post) =
                (if s1 \<noteq> [] \<and> hd s1 = CHR ''.''
                 then (let (f, scale, s2) = leadingFraction (tl s1) 0 (FFin 1) False
                       in (f, scale, s2, length s2 \<noteq> length (tl s1)))
                 else (0, FFin 1, s1, False));
              u = takeWhile (\<lambda>c. \<not> (c = CHR ''.'' \<or> is_digit c)) s2
          in if \<not> pre \<and> \<not> post then None
             else case map_of unitMap u of
                 None \<Rightarrow> None
               | Some unit \<Rightarrow>
                   if 2 ^ 63 div unit < v then None
                   else let w = v * unit + (if 0 < f
                              then f_to_uint (f_mul (f_of_int f) (f_div (f_of_int unit) scale)) else 0)
                        in if 2 ^ 63 < w then None else Some (w, drop (length u) s2))"

text \<open>The loop over the parts; the fuel is the length of the text, and every part consumes some.\<close>

fun duration_loop :: "nat \<Rightarrow> string \<Rightarrow> int \<Rightarrow> int option" where
  "duration_loop 0 s d = (if s = [] then Some d else None)"
| "duration_loop (Suc n) s d =
     (if s = [] then Some d
      else if \<not> (hd s = CHR ''.'' \<or> is_digit (hd s)) then None
      else case duration_part s of
          None \<Rightarrow> None
        | Some (v, rest) \<Rightarrow> if 2 ^ 63 < d + v then None else duration_loop n rest (d + v))"

definition ParseDuration :: "string \<Rightarrow> duration result" where
  "ParseDuration orig =
     (let invalid = Inl (ErrText (''time: invalid duration '' @ orig));
          neg = (orig \<noteq> [] \<and> hd orig = CHR ''-'');
          s = (if orig \<noteq> [] \<and> hd orig \<in> {CHR ''-'', CHR ''+''} then tl orig else orig)
      in if s = ''0'' then Inr 0
         else if s = [] then invalid
         else case duration_loop (length s) s 0 of
             None \<Rightarrow> invalid
           | Some d \<Rightarrow> if neg then Inr (- d) else if 2 ^ 63 - 1 < d then invalid else Inr d)"

lemma leadingInt_rest: "leadingInt s x = Some (v, rest) \<Longrightarrow> length rest \<le> length s"
  by (induction s x rule: leadingInt.induct) (auto simp: Let_def split: if_splits)

lemma leadingFraction_rest: "leadingFraction s x sc ov = (f, sc', rest) \<Longrightarrow> length rest \<le> length s"
  by (induction s x sc ov rule: leadingFraction.induct) (auto split: if_splits)

text \<open>A part is never empty, so that the fuel of the loop is enough.\<close>

lemma duration_part_consumes:
  assumes "duration_part s = Some (v, rest)" shows "length rest < length s"
proof -
  obtain x s1 where int: "leadingInt s 0 = Some (x, s1)"
    using assms by (auto simp: duration_part_def split: option.splits)
  let ?point = "s1 \<noteq> [] \<and> hd s1 = CHR ''.''"
  define s2 where "s2 = (if ?point then snd (snd (leadingFraction (tl s1) 0 (FFin 1) False)) else s1)"
  let ?u = "takeWhile (\<lambda>c. \<not> (c = CHR ''.'' \<or> is_digit c)) s2"
  have "length s2 \<le> length s1"
  proof (cases ?point)
    case True
    obtain f sc r where fr: "leadingFraction (tl s1) 0 (FFin 1) False = (f, sc, r)" by (metis prod_cases3)
    then have "length r \<le> length (tl s1)" by (rule leadingFraction_rest)
    then show ?thesis using True fr by (simp add: s2_def)
  qed (auto simp: s2_def)
  moreover have "length s1 \<le> length s" using int by (rule leadingInt_rest)
  moreover have "map_of unitMap ?u \<noteq> None \<and> rest = drop (length ?u) s2"
    using assms int
    by (auto simp: duration_part_def s2_def Let_def split_def split: option.splits if_splits)
  moreover from this have "?u \<noteq> []" by (auto simp: unitMap_def)
  moreover have "length ?u \<le> length s2" by (rule length_takeWhile_le)
  ultimately show ?thesis by (cases ?u) auto
qed

lemma duration_fuel: "length s \<le> n \<Longrightarrow> duration_loop n s d = duration_loop (length s) s d"
proof (induction "length s" arbitrary: n s d rule: less_induct)
  case less
  show ?case
  proof (cases s)
    case (Cons c t)
    obtain k where n: "n = Suc k" using less.prems Cons by (cases n) auto
    have "duration_loop k rest e = duration_loop (length t) rest e" if "duration_part s = Some (v, rest)" for v rest e
    proof -
      have shorter: "length rest < length s" by (rule duration_part_consumes [OF that])
      then have "length rest \<le> k" "length rest \<le> length t" using less.prems n Cons by simp_all
      then show ?thesis using less.hyps [OF shorter] by metis
    qed
    then show ?thesis using Cons n by (auto split: option.split)
  qed (cases n; simp)
qed

section \<open>The monitor\<close>

record AppConfig =
  ac_WindowSize :: int
  ac_WindowMinSize :: int
  ac_CheckInterval :: string
  ac_StalledConsumptionRate :: f64
  ac_RapidLagIncreaseRate :: f64
  ac_LagTrendThreshold :: f64
  ac_InactivityTimeout :: string
  ac_MaxConcurrency :: int
  ac_HTTPAddress :: string
  ac_MetricsPath :: string
  ac_KafkaBrokers :: "string list"
  ac_Clusters :: "ConfigCluster list"
  ac_APIEnabled :: bool
  ac_APIAddress :: string
  ac_APIReadTimeout :: string
  ac_APIWriteTimeout :: string
  ac_RCA :: RcaConfig

definition globalCollectorConfig :: "AppConfig \<Rightarrow> duration \<Rightarrow> duration \<Rightarrow> Config" where
  "globalCollectorConfig config checkInterval inactivityTimeout =
     \<lparr>cfg_WindowSize = ac_WindowSize config, cfg_MinWindowSize = ac_WindowMinSize config,
      cfg_CheckInterval = checkInterval,
      cfg_StalledConsumptionRate = ac_StalledConsumptionRate config,
      cfg_RapidLagIncreaseRate = ac_RapidLagIncreaseRate config,
      cfg_LagTrendThreshold = ac_LagTrendThreshold config,
      cfg_InactivityTimeout = inactivityTimeout, cfg_MaxConcurrency = ac_MaxConcurrency config\<rparr>"

text \<open>
  The replies of the Kafka library when the client of the \<open>i\<close>th cluster is made, and the state of
  Redis then.
\<close>

record 'r startup =
  su_Admin :: "nat \<Rightarrow> unit result"
  su_Consumer :: "nat \<Rightarrow> unit result"
  su_Redis :: "nat \<Rightarrow> 'r"

text \<open>A cluster that cannot be added is only logged.\<close>

fun add_clusters ::
  "'r redis \<Rightarrow> 'r startup \<Rightarrow> nat \<Rightarrow> ConfigCluster list \<Rightarrow> Manager \<Rightarrow> Manager \<times> effect list" where
  "add_clusters R env i [] m = (m, [])"
| "add_clusters R env i (c # cs) m =
     (let (res, m1, effs) = AddCluster R (su_Redis env i) (su_Admin env i) (su_Consumer env i) c m;
          (m2, effs') = add_clusters R env (Suc i) cs m1
      in (m2, effs @ effs'))"

datatype outcome = Fatal string | Serving Manager "effect list"

definition main_start :: "'r redis \<Rightarrow> 'r startup \<Rightarrow> AppConfig \<Rightarrow> outcome" where
  "main_start R env config =
     (case ParseDuration (ac_CheckInterval config) of
        Inl e \<Rightarrow> Fatal (''Invalid check interval: '' @ err_string e)
      | Inr checkInterval \<Rightarrow>
     (case ParseDuration (ac_InactivityTimeout config) of
        Inl e \<Rightarrow> Fatal (''Invalid inactivity timeout: '' @ err_string e)
      | Inr inactivityTimeout \<Rightarrow>
          let global = globalCollectorConfig config checkInterval inactivityTimeout;
              m = (if pc_Enabled (rc_Publisher (ac_RCA config))
                   then NewManagerWithRCA global (ac_RCA config) else NewManager global)
          in if ac_Clusters config \<noteq> []
             then (let (m', effs) = add_clusters R env 0 (ac_Clusters config) m in Serving m' effs)
             else if ac_KafkaBrokers config \<noteq> []
             then (let legacy = \<lparr>ck_Name = ''default'', ck_Enabled = True,
                         ck_Brokers = ac_KafkaBrokers config, ck_Collector = None\<rparr>;
                       (res, m', effs) = AddCluster R (su_Redis env 0) (su_Admin env 0) (su_Consumer env 0) legacy m
                   in case res of
                        Inl e \<Rightarrow> Fatal (''Failed to add legacy cluster: '' @ err_string e)
                      | Inr _ \<Rightarrow> Serving m' effs)
             else Fatal ''No Kafka clusters configured''))"

text \<open>The server address; the deferred stop ends the program.\<close>

definition server_addr :: "AppConfig \<Rightarrow> string" where
  "server_addr config =
     (if ac_APIAddress config \<noteq> '''' then ac_APIAddress config else ac_HTTPAddress config)"

text \<open>
  The routes are registered once; the multiplexer panics at a pattern without a path and at one it
  has already.  The metrics path is taken to be a clean path: that a pattern can also have a method, a
  host, wildcards or a closing slash is not modelled.  The result is what answers the requests; the
  handler of the old path holds a pointer to a collector, of which it gets the present state.
\<close>

definition startHTTPServer ::
  "AppConfig \<Rightarrow> Manager \<Rightarrow> (EvaluatorWithRCA option Collector \<Rightarrow> Manager \<Rightarrow> string \<Rightarrow> response go) go" where
  "startHTTPServer config manager =
     (if CHR ''/'' \<notin> set (ac_MetricsPath config) then Panic ''invalid pattern''
      else if ac_MetricsPath config \<in> set [''/health'', ''/ready'', ''/api/v1/status'', ''/api/v1/groups'',
          ''/api/v1/config'', ''/api/v1/clusters'', clusters_prefix]
      then Panic ''pattern conflicts''
      else case GetCluster manager ''default'' of
          None \<Rightarrow> Ret (\<lambda>pointed. serve (ac_MetricsPath config) None)
        | Some defaultCluster \<Rightarrow>
            if ac_MetricsPath config = ''/api/v1/status/'' then Panic ''pattern conflicts''
            else Ret (\<lambda>pointed. serve (ac_MetricsPath config) (Some pointed)))"

text \<open>
  The server's goroutine: \<open>listen\<close> is the error with which \<open>ListenAndServe\<close> returned at an address
  before the signal came, if it did; every error but that of a shutdown ends the process.
\<close>

definition ErrServerClosed :: go_error where
  "ErrServerClosed = ErrText ''http: Server closed''"

definition http_server :: "(string \<Rightarrow> go_error option) \<Rightarrow> AppConfig \<Rightarrow> string option" where
  "http_server listen config =
     (case listen (server_addr config) of
        None \<Rightarrow> None
      | Some e \<Rightarrow> if e = ErrServerClosed then None else Some (''HTTP server error: '' @ err_string e))"

text \<open>
  From the server to the end of the program, with all effects: a fatal error runs no deferred call, a
  panic and a return run the deferred stop of the manager.  An error of the server's shutdown is only
  logged.
\<close>

datatype ending = Exit string "effect list" | Crash string "effect list" | Done "effect list"

definition serve_until_signal ::
  "(string \<Rightarrow> go_error option) \<Rightarrow> AppConfig \<Rightarrow> Manager \<Rightarrow> effect list \<Rightarrow> ending" where
  "serve_until_signal listen config m effs =
     (case startHTTPServer config m of
        Panic msg \<Rightarrow> Crash msg (effs @ snd (Stop m))
      | _ \<Rightarrow> (case http_server listen config of
            Some msg \<Rightarrow> Exit msg effs
          | None \<Rightarrow> Done (effs @ snd (Stop m))))"

section \<open>The event consumer\<close>

text \<open>The world of the handler is the list of the lines it logs.\<close>

definition event_line :: "KafkaLagEvent \<Rightarrow> string" where
  "event_line ev =
     (let b = ev_Base ev in
      ''[EVENT] Type: '' @ be_Type b @ '', Severity: '' @ be_Severity b @ '', Cluster: '' @ be_Cluster b @
      '', Group: '' @ ev_ConsumerGroup ev @ '', Topic: '' @ ev_Topic ev @ '', Partition: '' @
      itoa (sint (ev_Partition ev)) @ '', Lag: '' @ itoa (sint (ev_CurrentLag ev)))"

definition SimpleLogHandler :: "(string \<Rightarrow> 'w \<Rightarrow> 'w) \<Rightarrow> 'w handler" where
  "SimpleLogHandler log_line ev w = (Inr (), ev, log_line (event_line ev) w)"

text \<open>The result is the fatal message; a context that is done ends with its error.\<close>

definition rca_main ::
  "'w stream_redis \<Rightarrow> (string \<Rightarrow> 'w \<Rightarrow> 'w) \<Rightarrow> RcaConfig result \<Rightarrow>
     go_error \<Rightarrow> nat \<Rightarrow> 'w \<Rightarrow> string option \<times> 'w" where
  "rca_main S log_line loaded ctxErr n w =
     (case loaded of
        Inl e \<Rightarrow> (Some (''Failed to load config: '' @ err_string e), w)
      | Inr cfg \<Rightarrow>
          (case NewConsumer S (rc_Consumer cfg) w of
             Inl e \<Rightarrow> (Some (''Failed to create consumer: '' @ err_string e), w)
           | Inr cons \<Rightarrow>
               (case Start S (RegisterHandler (SimpleLogHandler log_line) cons) ctxErr n w of
                  (Inl e, w') \<Rightarrow> (Some (''Consumer error: '' @ err_string e), w')
                | (Inr _, w') \<Rightarrow> (None, w'))))"


section \<open>What the monitor starts\<close>

text \<open>The first configuration of a name that is enabled and whose Kafka client can be made.\<close>

fun first_config :: "'r startup \<Rightarrow> string \<Rightarrow> nat \<Rightarrow> ConfigCluster list \<Rightarrow> ConfigCluster option" where
  "first_config env n i [] = None"
| "first_config env n i (c # cs) =
     (if ck_Enabled c \<and> ck_Name c = n \<and> su_Admin env i = Inr () \<and> su_Consumer env i = Inr () then Some c
      else first_config env n (Suc i) cs)"

definition cluster_config :: "Manager \<Rightarrow> ConfigCluster \<Rightarrow> Config" where
  "cluster_config m c = (case ck_Collector c of None \<Rightarrow> mg_globalConfig m | Some cfg \<Rightarrow> cfg)"

lemma AddCluster_adds:
  assumes "AddCluster R r admin consumer c m = (res, m', effs)"
  shows "(if ck_Enabled c \<and> ck_Name c \<notin> keys (mg_clusters m) \<and> admin = Inr () \<and> consumer = Inr ()
     then \<exists>cc. m' = m\<lparr>mg_clusters := AList.update (ck_Name c) cc (mg_clusters m)\<rparr> \<and> cc_Config cc = c \<and>
       co_config (cc_Collector cc) = cluster_config m c \<and> effs = [CollectionStarted (ck_Name c)]
     else m' = m \<and> effs = [])"
proof -
  have none: "m' = m \<and> effs = []"
    if "\<not> (ck_Enabled c \<and> ck_Name c \<notin> keys (mg_clusters m) \<and> admin = Inr () \<and> consumer = Inr ())"
    using that assms
    by (cases admin; cases consumer)
      (auto simp: AddCluster_def createCollectorWithRCA_def NewClient_def keys_map_of Let_def split: if_splits)
  have some: "effs \<noteq> []"
    if "ck_Enabled c \<and> ck_Name c \<notin> keys (mg_clusters m) \<and> admin = Inr () \<and> consumer = Inr ()"
    using that assms
    by (auto simp: AddCluster_def createCollectorWithRCA_def NewClient_def keys_map_of Let_def
        split: if_splits option.splits sum.splits)
  show ?thesis using none some AddCluster_cases [OF assms] by (auto simp: cluster_config_def)
qed

lemma add_clusters_effect:
  assumes "add_clusters R env i cs m = (m', effs)" and "distinct (map fst (mg_clusters m))"
  shows "distinct (map fst (mg_clusters m')) \<and> mg_globalConfig m' = mg_globalConfig m \<and>
    count_list effs (ClientClosed n) = 0 \<and>
    (case map_of (mg_clusters m) n of
       Some cc \<Rightarrow> map_of (mg_clusters m') n = Some cc \<and> count_list effs (CollectionStarted n) = 0
     | None \<Rightarrow> map_option cc_Config (map_of (mg_clusters m') n) = first_config env n i cs \<and>
         count_list effs (CollectionStarted n) = (if map_of (mg_clusters m') n = None then 0 else 1) \<and>
         (\<forall>cc. map_of (mg_clusters m') n = Some cc \<longrightarrow> co_config (cc_Collector cc) = cluster_config m (cc_Config cc)))"
  using assms
proof (induction cs arbitrary: i m effs)
  case Nil
  then show ?case by (cases "map_of (mg_clusters m) n") (simp_all del: map_of_eq_Some_iff)
next
  case (Cons c cs)
  obtain res m1 e1 where one: "AddCluster R (su_Redis env i) (su_Admin env i) (su_Consumer env i) c m = (res, m1, e1)"
    by (metis prod_cases3)
  obtain e2 where two: "add_clusters R env (Suc i) cs m1 = (m', e2)" and effs: "effs = e1 @ e2"
    using Cons.prems(1) one by (auto simp: Let_def split: prod.splits)
  note added = AddCluster_adds [OF one]
  show ?case
  proof (cases "ck_Enabled c \<and> ck_Name c \<notin> keys (mg_clusters m) \<and> su_Admin env i = Inr () \<and> su_Consumer env i = Inr ()")
    case True
    then obtain cc where cc: "m1 = m\<lparr>mg_clusters := AList.update (ck_Name c) cc (mg_clusters m)\<rparr>" "cc_Config cc = c"
      "co_config (cc_Collector cc) = cluster_config m c" "e1 = [CollectionStarted (ck_Name c)]"
      using added by auto
    have d1: "distinct (map fst (mg_clusters m1))" using Cons.prems(2) by (simp add: cc(1) distinct_update)
    have fresh: "map_of (mg_clusters m) (ck_Name c) = None" using True by (simp add: keys_map_of)
    have cfg: "cluster_config m1 = cluster_config m" by (rule ext) (simp add: cc(1) cluster_config_def split: option.split)
    have lookup: "map_of (mg_clusters m1) n = (if n = ck_Name c then Some cc else map_of (mg_clusters m) n)"
      by (simp add: cc(1) update_conv')
    show ?thesis
      using Cons.IH [OF two d1] True fresh
      unfolding lookup cfg effs cc(4)
      by (cases "n = ck_Name c"; cases "map_of (mg_clusters m) n")
        (simp_all add: cc del: map_of_eq_Some_iff Some_eq_map_of_iff)
  next
    case False
    then have same: "m1 = m" "e1 = []" using added by simp_all
    have "first_config env n i (c # cs) = first_config env n (Suc i) cs" if "map_of (mg_clusters m) n = None"
      using that False by (auto simp: keys_map_of)
    then show ?thesis using Cons.IH [OF two] Cons.prems(2)
      unfolding effs same
      by (cases "map_of (mg_clusters m) n") (simp_all del: map_of_eq_Some_iff Some_eq_map_of_iff first_config.simps)
  qed
qed

text \<open>C14: The monitor refuses to start without valid durations and a cluster. Otherwise it monitors, for
  every name, exactly the first configuration of that name that is enabled and whose Kafka client
  can be made, with the settings of that cluster or else the global ones, and no cluster for which
  there is none; it starts one collection for each, and the shutdown closes the client of each
  once.\<close>

theorem monitor_starts_first_configs:
  assumes "main_start R env config = Serving m effs"
  shows "\<exists>ci it cs. ParseDuration (ac_CheckInterval config) = Inr ci \<and>
    ParseDuration (ac_InactivityTimeout config) = Inr it \<and> cs \<noteq> [] \<and>
    cs = (if ac_Clusters config \<noteq> [] then ac_Clusters config
          else if ac_KafkaBrokers config \<noteq> []
          then [\<lparr>ck_Name = ''default'', ck_Enabled = True, ck_Brokers = ac_KafkaBrokers config, ck_Collector = None\<rparr>]
          else []) \<and>
    (\<forall>n. map_option cc_Config (GetCluster m n) = first_config env n 0 cs \<and>
       (\<forall>cc. GetCluster m n = Some cc \<longrightarrow> co_config (cc_Collector cc) =
          (case ck_Collector (cc_Config cc) of None \<Rightarrow> globalCollectorConfig config ci it | Some c \<Rightarrow> c)) \<and>
       count_list effs (CollectionStarted n) = (if GetCluster m n = None then 0 else 1) \<and>
       (case serve_until_signal listen config m effs of
          Exit msg effs' \<Rightarrow> effs' = effs \<and> count_list effs' (ClientClosed n) = 0 \<and>
            (\<exists>e. listen (server_addr config) = Some e)
        | Crash msg effs' \<Rightarrow> count_list effs' (ClientClosed n) = count_list effs (CollectionStarted n)
        | Done effs' \<Rightarrow> count_list effs' (ClientClosed n) = count_list effs (CollectionStarted n)))"
proof -
  obtain ci where ci: "ParseDuration (ac_CheckInterval config) = Inr ci"
    using assms by (auto simp: main_start_def split: sum.splits)
  obtain it where it: "ParseDuration (ac_InactivityTimeout config) = Inr it"
    using assms ci by (auto simp: main_start_def split: sum.splits)
  define m0 where "m0 = (if pc_Enabled (rc_Publisher (ac_RCA config))
    then NewManagerWithRCA (globalCollectorConfig config ci it) (ac_RCA config)
    else NewManager (globalCollectorConfig config ci it))"
  define cs where "cs = (if ac_Clusters config \<noteq> [] then ac_Clusters config
          else if ac_KafkaBrokers config \<noteq> []
          then [\<lparr>ck_Name = ''default'', ck_Enabled = True, ck_Brokers = ac_KafkaBrokers config, ck_Collector = None\<rparr>]
          else [])"
  have m0: "mg_clusters m0 = []" "mg_globalConfig m0 = globalCollectorConfig config ci it"
    by (simp_all add: m0_def NewManager_def NewManagerWithRCA_def)
  have run: "add_clusters R env 0 cs m0 = (m, effs) \<and> cs \<noteq> []"
    using assms unfolding main_start_def ci it m0_def [symmetric] cs_def Let_def
    by (auto simp: Let_def m0_def split: sum.splits prod.splits if_splits)
  then have "distinct (map fst (mg_clusters m))"
    using add_clusters_effect [of R env 0 cs m0 m effs] m0 by simp
  note stop = stop_counts [OF this]
  have cfg: "cluster_config m0 c = (case ck_Collector c of None \<Rightarrow> globalCollectorConfig config ci it | Some c \<Rightarrow> c)" for c
    by (simp add: cluster_config_def m0(2) split: option.split)
  have "map_option cc_Config (GetCluster m n) = first_config env n 0 cs \<and>
       (\<forall>cc. GetCluster m n = Some cc \<longrightarrow> co_config (cc_Collector cc) =
          (case ck_Collector (cc_Config cc) of None \<Rightarrow> globalCollectorConfig config ci it | Some c \<Rightarrow> c)) \<and>
       count_list effs (CollectionStarted n) = (if GetCluster m n = None then 0 else 1) \<and>
       count_list effs (ClientClosed n) = 0 \<and>
       count_list (effs @ snd (Stop m)) (ClientClosed n) = count_list effs (CollectionStarted n)" for n
    using add_clusters_effect [of R env 0 cs m0 m effs n] run m0 stop [of n] unfolding cfg
    by (cases "map_of (mg_clusters m) n") (simp_all add: GetCluster_def Stop_def keys_map_of del: map_of_eq_Some_iff)
  note started = this
  have ended: "case serve_until_signal listen config m effs of
          Exit msg effs' \<Rightarrow> effs' = effs \<and> (\<exists>e. listen (server_addr config) = Some e)
        | Crash msg effs' \<Rightarrow> effs' = effs @ snd (Stop m) | Done effs' \<Rightarrow> effs' = effs @ snd (Stop m)"
    by (auto simp: serve_until_signal_def http_server_def split: go.split option.split)
  have "case serve_until_signal listen config m effs of
          Exit msg effs' \<Rightarrow> effs' = effs \<and> count_list effs' (ClientClosed n) = 0 \<and>
            (\<exists>e. listen (server_addr config) = Some e)
        | Crash msg effs' \<Rightarrow> count_list effs' (ClientClosed n) = count_list effs (CollectionStarted n)
        | Done effs' \<Rightarrow> count_list effs' (ClientClosed n) = count_list effs (CollectionStarted n)" for n
    using ended started [of n] by (auto split: ending.splits)
  then show ?thesis using ci it run started unfolding cs_def by blast
qed

section \<open>A concrete start\<close>

definition sample_config :: AppConfig where
  "sample_config = \<lparr>ac_WindowSize = 10, ac_WindowMinSize = 5, ac_CheckInterval = ''10s'',
     ac_StalledConsumptionRate = round64 (1 / 10), ac_RapidLagIncreaseRate = FFin 20,
     ac_LagTrendThreshold = round64 (1 / 10), ac_InactivityTimeout = ''1m30s'', ac_MaxConcurrency = 10,
     ac_HTTPAddress = '':8080'', ac_MetricsPath = ''/metrics'', ac_KafkaBrokers = [],
     ac_Clusters = [sample_cluster ''a'', sample_cluster ''b'', sample_cluster ''a''],
     ac_APIEnabled = True, ac_APIAddress = '''', ac_APIReadTimeout = '''', ac_APIWriteTimeout = '''',
     ac_RCA = \<lparr>rc_Publisher = \<lparr>pc_Enabled = False, pc_StreamKey = '''', pc_MaxRetries = 0,
          pc_RetryInterval = '''', pc_DeDupeWindow = 0\<rparr>,
        rc_Redis = \<lparr>rd_Addr = '''', rd_Password = '''', rd_DB = 0\<rparr>,
        rc_Consumer = \<lparr>cc_ConsumerGroup = '''', cc_StreamKey = '''', cc_ConsumerName = '''',
          cc_BatchSize = 0, cc_BlockTimeout = 0, cc_MaxRetries = 0\<rparr>\<rparr>\<rparr>"

text \<open>The second cluster's consumer cannot be made.\<close>

definition sample_startup :: "sample_redis startup" where
  "sample_startup = \<lparr>su_Admin = (\<lambda>i. Inr ()),
     su_Consumer = (\<lambda>i. if i = 1 then Inl (ErrText ''refused'') else Inr ()), su_Redis = (\<lambda>i. sample_keys)\<rparr>"

lemma sample_durations:
  "ParseDuration ''10s'' = Inr (10 * second)" "ParseDuration ''1m30s'' = Inr (90 * second)"
  "ParseDuration ''-1.5h'' = Inr (- (90 * minute))"
  "ParseDuration ''5'' = Inl (ErrText ''time: invalid duration 5'')"
  by code_simp+

theorem monitor_starts_first_configs_witness:
  "\<exists>m effs effs'. main_start sampleR sample_startup sample_config = Serving m effs \<and>
     map_option cc_Config (GetCluster m ''a'') = Some (sample_cluster ''a'') \<and> GetCluster m ''b'' = None \<and>
     serve_until_signal (\<lambda>addr. None) sample_config m effs = Done effs' \<and> count_list effs' (ClientClosed ''a'') = 1"
proof -
  obtain m effs where run: "main_start sampleR sample_startup sample_config = Serving m effs"
    by (simp add: main_start_def sample_config_def sample_durations Let_def split_def)
  from monitor_starts_first_configs [OF run, of "\<lambda>addr. None"] obtain cs where cs: "cs = ac_Clusters sample_config"
    and all: "\<And>n. map_option cc_Config (GetCluster m n) = first_config sample_startup n 0 cs"
      "\<And>n. count_list effs (CollectionStarted n) = (if GetCluster m n = None then 0 else 1)"
      "\<And>n. case serve_until_signal (\<lambda>addr. None) sample_config m effs of
          Exit msg effs' \<Rightarrow> effs' = effs \<and> count_list effs' (ClientClosed n) = 0 \<and>
            (\<exists>e. (\<lambda>addr. None :: go_error option) (server_addr sample_config) = Some e)
        | Crash msg effs' \<Rightarrow> count_list effs' (ClientClosed n) = count_list effs (CollectionStarted n)
        | Done effs' \<Rightarrow> count_list effs' (ClientClosed n) = count_list effs (CollectionStarted n)"
    by (auto simp: sample_config_def)
  have a: "map_option cc_Config (GetCluster m ''a'') = Some (sample_cluster ''a'')"
    unfolding all(1) cs by (simp add: sample_config_def sample_startup_def sample_cluster_def)
  have b: "map_option cc_Config (GetCluster m ''b'') = None"
    unfolding all(1) cs by (simp add: sample_config_def sample_startup_def sample_cluster_def)
  have "serve_until_signal (\<lambda>addr. None) sample_config m effs = Done (effs @ snd (Stop m))"
    by (simp add: serve_until_signal_def startHTTPServer_def http_server_def sample_config_def clusters_prefix_def
        split: option.split)
  then show ?thesis using run a b all(2,3) [of "''a''"] by auto
qed

end
