(* ===== verification/Rca_Pipeline.thy ===== *)
theory Rca_Pipeline
  imports Commands
begin

text \<open>
  The path of an event through the parts: the collector's hook (internal/cluster/helper.go) hands
  every evaluated partition to the analyzer, the analyzer decides on events, and the publisher
  adds them to the stream.
\<close>

section \<open>The hook of a cluster\<close>

text \<open>
  The hook's state is the analyzer and the server; identifiers and the readings of the clock are
  functions of the server's state, which every publication moves on.
\<close>

definition rca_hook ::
  "'r redis \<Rightarrow> zone \<Rightarrow> ('r \<Rightarrow> string) \<Rightarrow> ('r \<Rightarrow> nat \<Rightarrow> gotime) \<Rightarrow> PartitionConsumerStatus \<Rightarrow>
     OffsetRecord list \<Rightarrow> EvaluatorWithRCA \<times> 'r \<Rightarrow> EvaluatorWithRCA \<times> 'r" where
  "rca_hook R z newID clk status records er =
     analyzePartition
       (\<lambda>eventType severity st message r. PublishPartitionEvent R z (ea_rcaPublisher (fst er)) (newID r)
          (clk r 3) eventType severity st message r)
       (clk (snd er)) status records er"

section \<open>What a hook keeps, a round keeps\<close>

text \<open>
  The collector's side of the hook: a property of the hook's state that every call for one of
  \<open>groups\<close> keeps is kept by a whole round over these groups.
\<close>

lemma emit_hook [simp]: "co_hookState (emit ops c) = co_hookState c"
  by (simp add: emit_def)

locale evaluation_hook =
  fixes h :: "PartitionConsumerStatus \<Rightarrow> OffsetRecord list \<Rightarrow> 'h \<Rightarrow> 'h"
    and groups :: "string set"
    and P :: "'h \<Rightarrow> bool"
    and ok :: bool
  assumes hook_keeps: "ok \<Longrightarrow> ps_GroupID st \<in> groups \<Longrightarrow> P s \<Longrightarrow> P (h st rs s)"
begin

lemma evaluatePartition_keeps:
  assumes ok and "gid \<in> groups" and "P (co_hookState c)"
    and "evaluatePartition (Some h) offsetInvalid cl gid tpo hw now c = Ret (res, c')"
  shows "P (co_hookState c')"
proof (cases hw)
  case (Inl e)
  then show ?thesis using assms(3,4) by (simp add: evaluatePartition_def)
next
  case (Inr high)
  have "\<And>st rs s. ps_GroupID st = gid \<Longrightarrow> P s \<Longrightarrow> P (h st rs s)"
    using hook_keeps [OF assms(1)] assms(2) by blast
  then show ?thesis using Inr assms(3,4)
    by (auto simp: evaluatePartition_def Let_def go_bind_Ret_iff run_hook_def updatePartitionMetricsWithCluster_def
        split: if_splits)
qed

lemma partitions_loop_keeps:
  assumes ok and "gid \<in> groups" and "P (co_hookState c)"
    and "partitions_loop (Some h) env cl gid i j tpos gs t c = Ret (gs', t', c')"
  shows "P (co_hookState c')"
  using assms(3,4)
proof (induction tpos arbitrary: j gs t c)
  case (Cons tpo tpos)
  obtain res c1 where ev: "evaluatePartition (Some h) (ke_OffsetInvalid env) cl gid tpo (ke_HighWatermark env i j) (ke_Now env i j) c =
      Ret (res, c1)" and rest: "(case res of
         Inl e \<Rightarrow> partitions_loop (Some h) env cl gid i (Suc j) tpos gs t c1
       | Inr st \<Rightarrow> partitions_loop (Some h) env cl gid i (Suc j) tpos
           (file_partition st (count_partition st gs)) (t + ps_CurrentLag st) c1) = Ret (gs', t', c')"
    using Cons.prems(2) by (auto simp: go_bind_Ret_iff)
  have "P (co_hookState c1)" using evaluatePartition_keeps [OF assms(1,2) Cons.prems(1) ev] .
  then show ?case using Cons.IH rest by (cases res) auto
qed simp

lemma collectGroup_keeps:
  assumes ok and "gid \<in> groups" and "P (co_hookState c)"
    and "collectGroupMetricsWithCluster (Some h) env cl i gid mc c = Ret (res, c')"
  shows "P (co_hookState c')"
proof (cases "ke_Offsets env i")
  case (Inl e)
  then show ?thesis using assms(3,4) by (simp add: collectGroupMetricsWithCluster_def)
next
  case (Inr offs)
  then obtain gs t where "partitions_loop (Some h) env cl gid i 0 offs
      (zero_GroupStatus\<lparr>gs_GroupID := gid, gs_MemberCount := mc, gs_LastUpdateTime := ke_GroupNow env i,
         gs_PartitionCount := int (length offs)\<rparr>) 0 c = Ret (gs, t, c')"
    using assms(4) by (auto simp: collectGroupMetricsWithCluster_def go_bind_Ret_iff Let_def)
  then show ?thesis by (rule partitions_loop_keeps [OF assms(1-3)])
qed

lemma goroutines_keep:
  assumes ok and "set gids \<subseteq> groups" and "P (co_hookState c)" and "set order \<subseteq> {..<length gids}"
    and "run_goroutines (Some h) env cl gids mc order c = Ret (results, c')"
  shows "P (co_hookState c')"
  using assms(3-5)
proof (induction order arbitrary: c results)
  case (Cons i order)
  obtain res c1 results' where one: "collectGroupMetricsWithCluster (Some h) env cl i (gids ! i)
        (member_count mc (gids ! i)) c = Ret (res, c1)"
    and rest: "run_goroutines (Some h) env cl gids mc order
        (emit [MObserve CollectionDuration [cl, gids ! i] (dur_seconds (ke_GroupDuration env i))] c1) = Ret (results', c')"
    using Cons.prems(3) by (auto simp: go_bind_Ret_iff Let_def)
  have "gids ! i \<in> groups" using Cons.prems(2) assms(2) by (auto intro: nth_mem)
  then have "P (co_hookState c1)" by (rule collectGroup_keeps [OF assms(1) _ Cons.prems(1) one])
  then show ?case using Cons.IH [OF _ _ rest] Cons.prems(2) by simp
qed simp

lemma round_keeps:
  assumes ok and "set gids \<subseteq> groups" and "P (co_hookState c)" and "set order \<subseteq> {..<length gids}"
    and "ke_Groups env = Inr gids"
    and "CollectMetricsWithCluster (Some h) env cl order c = Ret (res, c')"
  shows "P (co_hookState c')"
proof -
  obtain c1 where body: "round_body (Some h) env cl order c = Ret (res, c1)" and outer: "co_hookState c' = co_hookState c1"
    using assms(6) by (auto simp: CollectMetricsWithCluster_def go_bind_Ret_iff)
  obtain mc c2 results c3 where run: "run_goroutines (Some h) env cl gids mc order c2 = Ret (results, c3)"
    and hs: "co_hookState c2 = co_hookState c" "co_hookState c1 = co_hookState c3"
    using body assms(5) by (auto simp: round_body_def go_bind_Ret_iff Let_def split: if_splits)
  have "P (co_hookState c3)" by (rule goroutines_keep [OF assms(1,2) _ assms(4) run]) (simp add: hs assms(3))
  then show ?thesis by (simp add: outer hs)
qed

end

section \<open>What publications keep, the analyzer keeps\<close>

text \<open>
  The analyzer's side of the publisher: a relation between worlds that every publication of a status
  with some property respects is respected by an evaluation that gives such a status, whatever it
  decides.
\<close>

locale event_sink =
  fixes pub :: "'w sink"
    and status_ok :: "PartitionConsumerStatus \<Rightarrow> bool"
    and rel :: "'w \<Rightarrow> 'w \<Rightarrow> bool"
    and ok :: bool
  assumes rel_refl: "rel w w"
    and rel_trans: "rel w w1 \<Longrightarrow> rel w1 w2 \<Longrightarrow> rel w w2"
    and pub_rel: "ok \<Longrightarrow> status_ok st \<Longrightarrow> rel w (snd (pub ty sev st msg w))"
begin

lemma publish_all_rel:
  assumes ok and "status_ok st"
  shows "rel w (publish_all pub st evs w)"
proof (induction evs arbitrary: w)
  case (Cons ev evs)
  obtain ty sev msg where ev: "ev = (ty, sev, msg)" by (metis prod_cases3)
  show ?case using rel_trans [OF pub_rel [OF assms] Cons.IH] by (simp add: ev)
qed (simp add: rel_refl)

lemma analyzePartition_rel:
  assumes ok
    and "status_ok (EvaluatePartitionConsumer (ea_config e) records (ps_GroupID st) (ps_Topic st) (ps_Partition st))"
    and "analyzePartition pub clock st records (e, w) = (e', w')"
  shows "ea_rcaPublisher e' = ea_rcaPublisher e \<and> ea_config e' = ea_config e \<and> rel w w'"
proof -
  let ?st = "EvaluatePartitionConsumer (ea_config e) records (ps_GroupID st) (ps_Topic st) (ps_Partition st)"
  have run: "(if ea_rcaPublisher e \<noteq> None then detectAndPublishEvents pub clock ?st records (e, w) else (e, w)) = (e', w')"
    using assms(3) by (simp add: analyzePartition_def EvaluatePartitionConsumerWithRCA_def Let_def split: if_splits)
  show ?thesis
  proof (cases "ea_rcaPublisher e = None")
    case True
    then show ?thesis using run by (simp add: rel_refl)
  next
    case False
    then have "detectAndPublishEvents pub clock ?st records (e, w) = (e', w')" using run by simp
    from detect_eq [OF this] show ?thesis
      using publish_all_rel [OF assms(1), of ?st] assms(2) by (auto simp: own_change_def)
  qed
qed

end

section \<open>What reaches the stream\<close>

text \<open>An evaluated status of a partition of one of some groups.\<close>

definition evaluated_in :: "Config \<Rightarrow> string set \<Rightarrow> PartitionConsumerStatus \<Rightarrow> bool" where
  "evaluated_in cfg groups st \<longleftrightarrow> (\<exists>g t pt records. g \<in> groups \<and> st = EvaluatePartitionConsumer cfg records g t pt)"

text \<open>An entry of a publisher with an event of such a status, which its text denotes.\<close>

definition entry_of :: "EventPublisher \<Rightarrow> Config \<Rightarrow> string set \<Rightarrow> string \<times> (string \<times> string) list \<Rightarrow> bool" where
  "entry_of p cfg groups x \<longleftrightarrow> (\<exists>st eventID now ty sev msg data. evaluated_in cfg groups st \<and>
     x = (ep_streamKey p, entry_values p data ty sev st now) \<and>
     unmarshal_event data = Inr (clean_event (published_event p eventID now ty sev st msg)))"

definition only_own ::
  "('r \<Rightarrow> (string \<times> (string \<times> string) list) list) \<Rightarrow> EventPublisher option \<Rightarrow> Config \<Rightarrow> string set \<Rightarrow> 'r \<Rightarrow> 'r \<Rightarrow> bool" where
  "only_own added publisher cfg groups r r' \<longleftrightarrow> (\<exists>es. added r' = added r @ es \<and>
     (\<forall>x \<in> set es. \<exists>p. publisher = Some p \<and> ep_enabled p \<and> entry_of p cfg groups x))"

lemma only_own_refl [simp]: "only_own added publisher cfg groups r r"
  by (simp add: only_own_def)

lemma only_own_trans:
  assumes "only_own added publisher cfg groups r r1" and "only_own added publisher cfg groups r1 r2"
  shows "only_own added publisher cfg groups r r2"
proof -
  obtain es es' where "added r1 = added r @ es" "added r2 = added r1 @ es'"
    and "\<forall>x \<in> set es. \<exists>p. publisher = Some p \<and> ep_enabled p \<and> entry_of p cfg groups x"
    and "\<forall>x \<in> set es'. \<exists>p. publisher = Some p \<and> ep_enabled p \<and> entry_of p cfg groups x"
    using assms unfolding only_own_def by blast
  then show ?thesis unfolding only_own_def by (intro exI [of _ "es @ es'"]) auto
qed

lemma evaluated_in_readable:
  "evaluated_in cfg groups st \<Longrightarrow> event_readable (published_event p eventID now ty sev st msg)"
  unfolding evaluated_in_def by (elim conjE exE, intro published_readable) (simp_all add: evaluate_floats)

lemma publish_only_own:
  assumes "redis_laws R live added \<and> zone_ok z" and "evaluated_in cfg groups status"
  shows "only_own added publisher cfg groups r
    (snd (PublishPartitionEvent R z publisher eventID now eventType severity status message r))"
proof (cases publisher)
  case None
  then show ?thesis by (simp add: PublishPartitionEvent_def)
next
  case (Some p)
  show ?thesis
  proof (cases "ep_enabled p")
    case True
    obtain res r' where run: "PublishPartitionEvent R z (Some p) eventID now eventType severity status message r = (res, r')"
      by force
    let ?ev = "published_event p eventID now eventType severity status message"
    obtain k data where k: "added r' = added r @ replicate k
        (ep_streamKey p, entry_values p data eventType severity status now)"
      and data: "0 < k \<longrightarrow> (\<exists>j. marshal_event z ?ev = Inr j \<and> data = json_text j)"
      using publish_entries [OF conjunct1 [OF assms(1)] True run] by blast
    have "entry_of p cfg groups (ep_streamKey p, entry_values p data eventType severity status now)" if k0: "0 < k"
    proof -
      obtain j where "marshal_event z ?ev = Inr j" "data = json_text j" using data k0 by blast
      then have "unmarshal_event data = Inr (clean_event ?ev)"
        using event_roundtrip [OF conjunct2 [OF assms(1)] evaluated_in_readable [OF assms(2)]] by blast
      then show ?thesis unfolding entry_of_def using assms(2) by blast
    qed
    then show ?thesis unfolding only_own_def using run Some True k
      by (intro exI [of _ "replicate k (ep_streamKey p, entry_values p data eventType severity status now)"]) auto
  qed (simp add: Some PublishPartitionEvent_def)
qed

text \<open>The modelled publisher as the analyzer's sink, and the hook over it as the collector's hook.\<close>

interpretation own_sink: event_sink
  "\<lambda>ty sev st msg r. PublishPartitionEvent R z publisher (newID r) (clk r 3) ty sev st msg r"
  "evaluated_in cfg groups" "only_own added publisher cfg groups" "redis_laws R live added \<and> zone_ok z"
  for R z publisher newID and clk :: "'r \<Rightarrow> nat \<Rightarrow> gotime" and cfg groups added live
  by unfold_locales (auto intro: only_own_trans publish_only_own)

definition own_state ::
  "('r \<Rightarrow> (string \<times> (string \<times> string) list) list) \<Rightarrow> EventPublisher option \<Rightarrow> Config \<Rightarrow> string set \<Rightarrow> 'r \<Rightarrow>
     EvaluatorWithRCA \<times> 'r \<Rightarrow> bool" where
  "own_state added publisher cfg groups r er \<longleftrightarrow>
     ea_rcaPublisher (fst er) = publisher \<and> ea_config (fst er) = cfg \<and> only_own added publisher cfg groups r (snd er)"

lemma hook_own_state:
  assumes "redis_laws R live added \<and> zone_ok z" and "ps_GroupID st \<in> groups" and "own_state added publisher cfg groups r er"
  shows "own_state added publisher cfg groups r (rca_hook R z newID clk st rs er)"
proof -
  obtain e1 r1 where er: "er = (e1, r1)" by force
  obtain e2 r2 where run: "rca_hook R z newID clk st rs (e1, r1) = (e2, r2)" by force
  have analyze: "analyzePartition (\<lambda>ty sev st msg r. PublishPartitionEvent R z (ea_rcaPublisher e1) (newID r) (clk r 3) ty sev st msg r)
      (clk r1) st rs (e1, r1) = (e2, r2)"
    using run by (simp add: rca_hook_def)
  have "evaluated_in cfg groups (EvaluatePartitionConsumer (ea_config e1) rs (ps_GroupID st) (ps_Topic st) (ps_Partition st))"
    using assms(2,3) by (auto simp: evaluated_in_def er own_state_def)
  from own_sink.analyzePartition_rel [of R live added z cfg groups _ _ _ "ea_rcaPublisher e1" newID clk, OF assms(1) this analyze]
  have "ea_rcaPublisher e2 = ea_rcaPublisher e1 \<and> ea_config e2 = ea_config e1 \<and> only_own added (ea_rcaPublisher e1) cfg groups r1 r2" .
  then show ?thesis
    using assms(3) run only_own_trans [of added publisher cfg groups r r1 r2] by (auto simp: er own_state_def)
qed

interpretation own_hook: evaluation_hook
  "rca_hook R z newID clk" groups "own_state added publisher cfg groups r" "redis_laws R live added \<and> zone_ok z"
  for R z newID clk groups added publisher cfg r live
  by unfold_locales (rule hook_own_state)

lemma entry_parts:
  assumes "entry_of p cfg groups (stream, values)" and "publisher = Some p" and "ep_enabled p"
  shows "\<exists>p g t pt records eventID now ty sev msg data.
       publisher = Some p \<and> ep_enabled p \<and> g \<in> groups \<and> stream = ep_streamKey p \<and>
       (let st = EvaluatePartitionConsumer cfg records g t pt in
        values = entry_values p data ty sev st now \<and>
        unmarshal_event data = Inr (clean_event (published_event p eventID now ty sev st msg)))"
proof -
  from assms(1) obtain st eventID now ty sev msg data where x: "evaluated_in cfg groups st"
    "stream = ep_streamKey p" "values = entry_values p data ty sev st now"
    "unmarshal_event data = Inr (clean_event (published_event p eventID now ty sev st msg))"
    by (auto simp: entry_of_def)
  from x(1) obtain g t pt records where st: "g \<in> groups" "EvaluatePartitionConsumer cfg records g t pt = st"
    by (auto simp: evaluated_in_def)
  have "publisher = Some p \<and> ep_enabled p \<and> g \<in> groups \<and> stream = ep_streamKey p \<and>
       (let st = EvaluatePartitionConsumer cfg records g t pt in
        values = entry_values p data ty sev st now \<and>
        unmarshal_event data = Inr (clean_event (published_event p eventID now ty sev st msg)))"
    unfolding Let_def st(2) using assms(2,3) st(1) x(2-4) by simp
  then show ?thesis by (intro exI)
qed


definition sample_hooked :: "(EvaluatorWithRCA \<times> sample_redis) Collector" where
  "sample_hooked = NewWithClient dev_config
     (NewLagEvaluatorWithRCA dev_config (Some (sample_publisher ''c1'')), sample_keys)"


end
