(* ===== verification/Sharding.thy ===== *)
theory Sharding
  imports Collector_Types "HOL-Library.AList" "HOL-Library.Multiset"
begin

text \<open>
  The assignment of groups to instances (distributed/coordinator/sharding.go).  The
  consistent-hash ring is a library and so a parameter: given the configuration and the
  members, building it panics or gives the function \<open>LocateKey\<close>.
\<close>

section \<open>Configuration\<close>

record ConsistentHashConfig =
  ch_PartitionCount :: int
  ch_ReplicationFactor :: int
  ch_Load :: f64

definition DefaultConsistentHashConfig :: ConsistentHashConfig where
  "DefaultConsistentHashConfig =
     \<lparr>ch_PartitionCount = 997, ch_ReplicationFactor = 20, ch_Load = FFin (5 / 4)\<rparr>"

text \<open>A sharding is its configuration.\<close>

definition NewConsistentHashShardingWithConfig :: "ConsistentHashConfig \<Rightarrow> ConsistentHashConfig" where
  "NewConsistentHashShardingWithConfig config =
     (let c1 = (if ch_PartitionCount config \<le> 0 then config\<lparr>ch_PartitionCount := 997\<rparr> else config);
          c2 = (if ch_ReplicationFactor c1 \<le> 0 then c1\<lparr>ch_ReplicationFactor := 20\<rparr> else c1)
      in if f_lt (ch_Load c2) (FFin 0) \<or> f_eq (ch_Load c2) (FFin 0)
         then c2\<lparr>ch_Load := FFin (5 / 4)\<rparr> else c2)"

definition NewConsistentHashSharding :: ConsistentHashConfig where
  "NewConsistentHashSharding = NewConsistentHashShardingWithConfig DefaultConsistentHashConfig"

section \<open>Assignment\<close>

type_synonym assignments = "(string \<times> string list) list"
type_synonym ring = "ConsistentHashConfig \<Rightarrow> string list \<Rightarrow> (string \<Rightarrow> string) go"

fun empty_assignments :: "string list \<Rightarrow> assignments \<Rightarrow> assignments" where
  "empty_assignments [] a = a"
| "empty_assignments (inst # instances) a = empty_assignments instances (AList.update inst [] a)"

text \<open>Appending to a key that is missing starts from the nil slice.\<close>

fun assign_loop :: "(string \<Rightarrow> string) \<Rightarrow> string list \<Rightarrow> assignments \<Rightarrow> assignments" where
  "assign_loop locate [] a = a"
| "assign_loop locate (gid # gids) a =
     (let member = locate gid;
          old = (case map_of a member of None \<Rightarrow> [] | Some gs \<Rightarrow> gs)
      in assign_loop locate gids (AList.update member (old @ [gid]) a))"

definition AssignGroups ::
  "ring \<Rightarrow> ConsistentHashConfig \<Rightarrow> string list \<Rightarrow> string list \<Rightarrow> assignments go" where
  "AssignGroups ring s groups instances =
     (if instances = [] then Ret []
      else go_bind (ring s instances) (\<lambda>locate.
        Ret (assign_loop locate groups (empty_assignments instances []))))"

section \<open>The contract of a sharding strategy\<close>

text \<open>
  What the interface \<open>ShardingStrategy\<close> promises, wherever it returns: one entry per
  instance, and every group in exactly one of them.  \<open>ok\<close> is what the strategy itself relies on.
\<close>

lemma shared_element:
  "distinct (concat (map snd a)) \<Longrightarrow> (i1, xs) \<in> set a \<Longrightarrow> (i2, ys) \<in> set a \<Longrightarrow>
     x \<in> set xs \<Longrightarrow> x \<in> set ys \<Longrightarrow> i1 = i2"
  by (induction a) force+

locale sharding_strategy =
  fixes assign :: "string list \<Rightarrow> string list \<Rightarrow> assignments go"
    and ok :: bool
  assumes assign_keys: "ok \<Longrightarrow> assign groups instances = Ret a \<Longrightarrow> fst ` set a = set instances"
    and assign_distinct: "ok \<Longrightarrow> assign groups instances = Ret a \<Longrightarrow> distinct (map fst a)"
    and assign_groups: "ok \<Longrightarrow> assign groups instances = Ret a \<Longrightarrow> instances \<noteq> [] \<Longrightarrow>
      mset (concat (map snd a)) = mset groups"
begin

lemma every_group_has_an_instance:
  assumes "ok" and "assign groups instances = Ret a" and "instances \<noteq> []" and "g \<in> set groups"
  shows "\<exists>inst gs. map_of a inst = Some gs \<and> g \<in> set gs \<and> inst \<in> set instances"
proof -
  have "g \<in> set (concat (map snd a))"
    using assign_groups [OF assms(1-3)] assms(4) by (metis set_mset_mset)
  then obtain inst gs where "(inst, gs) \<in> set a" "g \<in> set gs" by auto
  moreover from this(1) have "map_of a inst = Some gs"
    using assign_distinct [OF assms(1,2)] by simp
  moreover have "inst \<in> set instances"
    using \<open>(inst, gs) \<in> set a\<close> assign_keys [OF assms(1,2)] by force
  ultimately show ?thesis by blast
qed

lemma no_group_twice:
  assumes "ok" and "assign groups instances = Ret a" and "instances \<noteq> []" and "distinct groups"
    and "map_of a i1 = Some gs1" and "map_of a i2 = Some gs2" and "g \<in> set gs1" and "g \<in> set gs2"
  shows "i1 = i2"
proof -
  have "distinct (concat (map snd a))"
    using assign_groups [OF assms(1-3)] assms(4) by (metis mset_eq_imp_distinct_iff)
  then show ?thesis
    using map_of_SomeD [OF assms(5)] map_of_SomeD [OF assms(6)] assms(7,8) by (rule shared_element)
qed

lemma group_counted_once:
  assumes "ok" and "assign groups instances = Ret a" and "instances \<noteq> []"
  shows "sum_list (map (length \<circ> snd) a) = length groups"
proof -
  have "length (concat (map snd a)) = length groups"
    using assign_groups [OF assms] by (metis size_mset)
  then show ?thesis by (simp add: length_concat comp_def)
qed

end


section \<open>Consistent hashing implements it\<close>

text \<open>What the ring promises: a key is located on one of its members.\<close>

definition ring_ok :: "ring \<Rightarrow> bool" where
  "ring_ok ring \<longleftrightarrow> (\<forall>s members locate key. members \<noteq> [] \<longrightarrow> ring s members = Ret locate \<longrightarrow>
     locate key \<in> set members)"

lemma empty_assignments_keys:
  "fst ` set (empty_assignments instances a) = set instances \<union> fst ` set a"
  by (induction instances a rule: empty_assignments.induct) (auto simp: dom_update)

lemma empty_assignments_distinct:
  "distinct (map fst a) \<Longrightarrow> distinct (map fst (empty_assignments instances a))"
  by (induction instances a rule: empty_assignments.induct) (auto simp: distinct_update)

lemma update_values_empty:
  "concat (map snd a) = [] \<Longrightarrow> concat (map snd (AList.update inst [] a)) = []"
  by (induction a) auto

lemma empty_assignments_values:
  "concat (map snd a) = [] \<Longrightarrow> concat (map snd (empty_assignments instances a)) = []"
  by (induction instances a rule: empty_assignments.induct) (simp_all only: empty_assignments.simps update_values_empty)

lemma update_append_mset:
  "distinct (map fst a) \<Longrightarrow> map_of a m = Some xs \<Longrightarrow>
     mset (concat (map snd (AList.update m (xs @ [g]) a))) = add_mset g (mset (concat (map snd a)))"
proof (induction a)
  case (Cons kv a)
  obtain k v where kv: "kv = (k, v)" by (cases kv)
  show ?case
  proof (cases "k = m")
    case True
    then show ?thesis using Cons.prems by (simp add: kv)
  next
    case False
    then show ?thesis using Cons by (simp add: kv)
  qed
qed simp

lemma assign_loop_spec:
  assumes "distinct (map fst a)" and "\<And>g. locate g \<in> fst ` set a"
  shows "fst ` set (assign_loop locate gids a) = fst ` set a \<and> distinct (map fst (assign_loop locate gids a)) \<and>
    mset (concat (map snd (assign_loop locate gids a))) = mset (concat (map snd a)) + mset gids"
  using assms
proof (induction gids arbitrary: a)
  case (Cons gid gids)
  obtain xs where xs: "map_of a (locate gid) = Some xs"
    using Cons.prems(2) [of gid] by (metis map_of_eq_None_iff not_None_eq)
  define a' where "a' = AList.update (locate gid) (xs @ [gid]) a"
  have a': "fst ` set a' = fst ` set a" "distinct (map fst a')"
      "mset (concat (map snd a')) = add_mset gid (mset (concat (map snd a)))"
    using Cons.prems xs update_append_mset [OF Cons.prems(1) xs]
    by (auto simp: a'_def dom_update distinct_update)
  have "assign_loop locate (gid # gids) a = assign_loop locate gids a'"
    by (simp add: xs a'_def)
  then show ?case using Cons.IH [OF a'(2)] Cons.prems(2) a'(1,3) by simp
qed simp

lemma AssignGroups_spec:
  assumes "ring_ok ring" and "AssignGroups ring s gids instances = Ret a" and "instances \<noteq> []"
  shows "fst ` set a = set instances \<and> distinct (map fst a) \<and> mset (concat (map snd a)) = mset gids"
proof -
  obtain locate where locate: "ring s instances = Ret locate"
      "a = assign_loop locate gids (empty_assignments instances [])"
    using assms(2,3) by (auto simp: AssignGroups_def go_bind_Ret_iff)
  have "locate g \<in> fst ` set (empty_assignments instances [])" for g
    using assms(1,3) locate(1) by (simp add: empty_assignments_keys ring_ok_def)
  then show ?thesis
    using assign_loop_spec [of "empty_assignments instances []" locate gids]
      empty_assignments_distinct [of "[]" instances] empty_assignments_values [of "[]" instances]
    by (simp add: locate(2) empty_assignments_keys)
qed

interpretation hashing: sharding_strategy "AssignGroups ring s" "ring_ok ring" for ring s
proof unfold_locales
  fix gids instances a
  assume ok: "ring_ok ring" and run: "AssignGroups ring s gids instances = Ret a"
  show "fst ` set a = set instances" "distinct (map fst a)"
    using AssignGroups_spec [OF ok run] run by (cases "instances = []"; simp add: AssignGroups_def)+
  show "mset (concat (map snd a)) = mset gids" if "instances \<noteq> []"
    using AssignGroups_spec [OF ok run that] by blast
qed

section \<open>Properties\<close>

text \<open>C36: Given at least one instance, an assignment has an entry for every instance and no other, and
  every group is in exactly one of them, on an instance that was given; the entries hold as many
  groups as were given.\<close>

theorem groups_assigned_exactly_once:
  assumes "ring_ok ring" and "AssignGroups ring s gids instances = Ret a" and "instances \<noteq> []"
    and "distinct gids" and "g \<in> set gids"
  shows "fst ` set a = set instances \<and> sum_list (map (length \<circ> snd) a) = length gids \<and>
    (\<exists>!inst. \<exists>gs. map_of a inst = Some gs \<and> g \<in> set gs)"
proof -
  have "\<exists>inst gs. map_of a inst = Some gs \<and> g \<in> set gs"
    using hashing.every_group_has_an_instance [OF assms(1-3,5)] by blast
  moreover have "i1 = i2" if "map_of a i1 = Some gs1" "g \<in> set gs1" "map_of a i2 = Some gs2" "g \<in> set gs2" for i1 i2 gs1 gs2
    using hashing.no_group_twice [OF assms(1-4) that(1,3,2,4)] .
  moreover have "fst ` set a = set instances" using hashing.assign_keys [OF assms(1,2)] .
  moreover have "sum_list (map (length \<circ> snd) a) = length gids"
    using hashing.group_counted_once [OF assms(1-3)] .
  ultimately show ?thesis by metis
qed

definition first_ring :: ring where
  "first_ring s members = Ret (\<lambda>key. hd members)"

lemma first_ring_ok: "ring_ok first_ring"
  by (auto simp: ring_ok_def first_ring_def)

theorem groups_assigned_exactly_once_witness:
  "AssignGroups first_ring NewConsistentHashSharding [''g'', ''h''] [''a'', ''b''] =
     Ret [(''a'', [''g'', ''h'']), (''b'', [])] \<and>
   (\<exists>!inst. \<exists>gs. map_of [(''a'', [''g'', ''h'']), (''b'', [])] inst = Some gs \<and> ''h'' \<in> set gs)"
proof
  show run: "AssignGroups first_ring NewConsistentHashSharding [''g'', ''h''] [''a'', ''b''] =
      Ret [(''a'', [''g'', ''h'']), (''b'', [])]"
    by (simp add: AssignGroups_def first_ring_def)
  show "\<exists>!inst. \<exists>gs. map_of [(''a'', [''g'', ''h'']), (''b'', [])] inst = Some gs \<and> ''h'' \<in> set gs"
    using groups_assigned_exactly_once [OF first_ring_ok run, of "''h''"] by auto
qed

text \<open>Whatever configuration a sharding is made with, its partition count and replication factor
  are positive and its load is not zero or below; positive values are kept, and the result is a
  fixed point.\<close>

lemma sharding_config_positive:
  "0 < ch_PartitionCount (NewConsistentHashShardingWithConfig c) \<and>
   0 < ch_ReplicationFactor (NewConsistentHashShardingWithConfig c) \<and>
   \<not> (f_lt (ch_Load (NewConsistentHashShardingWithConfig c)) (FFin 0) \<or>
      f_eq (ch_Load (NewConsistentHashShardingWithConfig c)) (FFin 0)) \<and>
   ch_PartitionCount (NewConsistentHashShardingWithConfig c) =
     (if ch_PartitionCount c \<le> 0 then 997 else ch_PartitionCount c) \<and>
   NewConsistentHashShardingWithConfig (NewConsistentHashShardingWithConfig c) =
     NewConsistentHashShardingWithConfig c"
  by (simp add: NewConsistentHashShardingWithConfig_def Let_def)

end
