(* ===== verification/State_Store.thy ===== *)
theory State_Store
  imports Go_Decode
begin

text \<open>
  The shared state of several instances in Redis (distributed/state/state_store.go, with the
  configuration and the instance record of distributed/distributed_configs.go).  Redis is a
  record of the commands the store sends, each a function on a state of the server.
  Instances stamp their times in UTC; a record of a window keeps the location its time was read in.
\<close>

section \<open>Redis as the store uses it\<close>

datatype redis_cmd =
    CDel string
  | CHSet string string string
  | CSet string string duration

text \<open>\<open>st_PipeGet\<close>: a pipeline of \<open>GET\<close> with the error of \<open>Exec\<close> and the reply to each.\<close>

record 'r store_redis =
  st_Get :: "string \<Rightarrow> 'r \<Rightarrow> string result \<times> 'r"
  st_Set :: "string \<Rightarrow> string \<Rightarrow> duration \<Rightarrow> 'r \<Rightarrow> unit result \<times> 'r"
  st_Exists :: "string \<Rightarrow> 'r \<Rightarrow> int result \<times> 'r"
  st_Expire :: "string \<Rightarrow> duration \<Rightarrow> 'r \<Rightarrow> unit result \<times> 'r"
  st_Scan :: "64 word \<Rightarrow> string \<Rightarrow> int \<Rightarrow> 'r \<Rightarrow> (string list \<times> 64 word) result \<times> 'r"
  st_PipeGet :: "string list \<Rightarrow> 'r \<Rightarrow> (go_error option \<times> string result list) \<times> 'r"
  st_TxPipelined :: "redis_cmd list \<Rightarrow> 'r \<Rightarrow> unit result \<times> 'r"
  st_HGetAll :: "string \<Rightarrow> 'r \<Rightarrow> (string \<times> string) list result \<times> 'r"

section \<open>Configuration and records\<close>

record StateStoreConfig =
  sc_Prefix :: string
  sc_InstanceTTL :: duration
  sc_InstanceTimeout :: duration
  sc_PartitionWindowTTL :: duration
  sc_AssignmentTimeout :: duration

record InstanceInfo =
  ii_ID :: string
  ii_LastHeartbeat :: gotime
  ii_Status :: string
  ii_AssignedCount :: i64
  ii_Metadata :: "(string \<times> string) list option"

definition zero_InstanceInfo :: InstanceInfo where
  "zero_InstanceInfo = \<lparr>ii_ID = '''', ii_LastHeartbeat = 0, ii_Status = '''', ii_AssignedCount = 0,
     ii_Metadata = None\<rparr>"

text \<open>A store is its configuration.\<close>

definition NewStateStore :: "StateStoreConfig \<Rightarrow> StateStoreConfig" where
  "NewStateStore cfg = cfg"

definition NewStateStoreWithClient :: StateStoreConfig where
  "NewStateStoreWithClient = \<lparr>sc_Prefix = ''lagradar'', sc_InstanceTTL = 5 * minute,
     sc_InstanceTimeout = 2 * minute, sc_PartitionWindowTTL = 24 * 60 * minute,
     sc_AssignmentTimeout = 10 * minute\<rparr>"

definition MaxIterations :: nat where "MaxIterations = 100"

section \<open>Keys\<close>

definition instanceKey :: "StateStoreConfig \<Rightarrow> string \<Rightarrow> string" where
  "instanceKey s instanceID = sc_Prefix s @ '':instance:'' @ instanceID"

definition storeWindowKey :: "StateStoreConfig \<Rightarrow> string \<Rightarrow> string" where
  "storeWindowKey s key = sc_Prefix s @ '':window:'' @ key"

definition assignmentsKey :: "StateStoreConfig \<Rightarrow> string" where
  "assignmentsKey s = sc_Prefix s @ '':assignments''"

definition assignmentsTimestampKey :: "StateStoreConfig \<Rightarrow> string" where
  "assignmentsTimestampKey s = assignmentsKey s @ '':timestamp''"

section \<open>JSON forms\<close>

definition metadata_json :: "(string \<times> string) list option \<Rightarrow> json" where
  "metadata_json md = (case md of None \<Rightarrow> JNull
     | Some m \<Rightarrow> JObj (sort_fields (map (\<lambda>(k, v). (k, JStr v)) m)))"

definition instance_json :: "InstanceInfo \<Rightarrow> json result" where
  "instance_json info = result_bind (time_json UTC (ii_LastHeartbeat info)) (\<lambda>t.
     Inr (JObj [(''id'', JStr (ii_ID info)), (''last_heartbeat'', t), (''status'', JStr (ii_Status info)),
       (''assigned_count'', int_json (sint (ii_AssignedCount info))),
       (''metadata'', metadata_json (ii_Metadata info))]))"

definition instance_field :: "string \<Rightarrow> json \<Rightarrow> InstanceInfo \<Rightarrow> InstanceInfo result" where
  "instance_field key v info =
     (if field_is key ''id''
      then result_bind (decode_string v (ii_ID info)) (\<lambda>x. Inr (info\<lparr>ii_ID := x\<rparr>))
      else if field_is key ''last_heartbeat''
      then result_bind (decode_time v (ii_LastHeartbeat info)) (\<lambda>x. Inr (info\<lparr>ii_LastHeartbeat := x\<rparr>))
      else if field_is key ''status''
      then result_bind (decode_string v (ii_Status info)) (\<lambda>x. Inr (info\<lparr>ii_Status := x\<rparr>))
      else if field_is key ''assigned_count''
      then result_bind (decode_int64 v (ii_AssignedCount info)) (\<lambda>x. Inr (info\<lparr>ii_AssignedCount := x\<rparr>))
      else if field_is key ''metadata''
      then result_bind (decode_map (\<lambda>j. decode_string j '''') v (ii_Metadata info)) (\<lambda>x. Inr (info\<lparr>ii_Metadata := x\<rparr>))
      else Inr info)"

definition unmarshal_instance :: "string \<Rightarrow> InstanceInfo result" where
  "unmarshal_instance data =
     unmarshal (\<lambda>j. decode_struct instance_field j zero_InstanceInfo) data"

text \<open>A nil slice of groups is \<open>None\<close>.\<close>

definition groups_json :: "string list option \<Rightarrow> json" where
  "groups_json gs = (case gs of None \<Rightarrow> JNull | Some xs \<Rightarrow> JArr (map JStr xs))"

definition unmarshal_groups :: "string \<Rightarrow> string list option result" where
  "unmarshal_groups data = unmarshal (decode_slice (\<lambda>j. decode_string j '''')) data"

fun records_json :: "zone \<Rightarrow> OffsetRecord list \<Rightarrow> json list result" where
  "records_json z [] = Inr []"
| "records_json z (r # rs) =
     result_bind (time_json z (or_CheckTimestamp r)) (\<lambda>t.
     result_bind (records_json z rs) (\<lambda>js.
       Inr (JObj [(''Offset'', int_json (sint (or_Offset r))),
         (''HighWatermark'', int_json (sint (or_HighWatermark r))),
         (''Lag'', int_json (sint (or_Lag r))), (''CheckTimestamp'', t)] # js)))"

definition zero_OffsetRecord :: OffsetRecord where
  "zero_OffsetRecord = \<lparr>or_Offset = 0, or_HighWatermark = 0, or_Lag = 0, or_CheckTimestamp = 0\<rparr>"

definition record_field :: "string \<Rightarrow> json \<Rightarrow> OffsetRecord \<Rightarrow> OffsetRecord result" where
  "record_field key v r =
     (if field_is key ''Offset''
      then result_bind (decode_int64 v (or_Offset r)) (\<lambda>x. Inr (r\<lparr>or_Offset := x\<rparr>))
      else if field_is key ''HighWatermark''
      then result_bind (decode_int64 v (or_HighWatermark r)) (\<lambda>x. Inr (r\<lparr>or_HighWatermark := x\<rparr>))
      else if field_is key ''Lag''
      then result_bind (decode_int64 v (or_Lag r)) (\<lambda>x. Inr (r\<lparr>or_Lag := x\<rparr>))
      else if field_is key ''CheckTimestamp''
      then result_bind (decode_time v (or_CheckTimestamp r)) (\<lambda>x. Inr (r\<lparr>or_CheckTimestamp := x\<rparr>))
      else Inr r)"

definition unmarshal_records :: "string \<Rightarrow> OffsetRecord list option result" where
  "unmarshal_records data =
     unmarshal (decode_slice (\<lambda>j. decode_struct record_field j zero_OffsetRecord)) data"

section \<open>Instances\<close>

text \<open>\<open>now\<close> and \<open>started\<close> are the two readings of the clock.\<close>

definition RegisterInstance ::
  "'r store_redis \<Rightarrow> StateStoreConfig \<Rightarrow> gotime \<Rightarrow> gotime \<Rightarrow> string \<Rightarrow> 'r \<Rightarrow> unit result \<times> 'r" where
  "RegisterInstance R s now started instanceID r =
     (case instance_json \<lparr>ii_ID = instanceID, ii_LastHeartbeat = now, ii_Status = ''active'',
              ii_AssignedCount = 0,
              ii_Metadata = Some [(''version'', ''1.0.0''), (''start_time'', rfc3339 UTC started)]\<rparr> of
        Inl e \<Rightarrow> (Inl (ErrWrap ''failed to marshal instance info: '' e), r)
      | Inr data \<Rightarrow> st_Set R (instanceKey s instanceID) (json_text data) (sc_InstanceTTL s) r)"

definition UpdateHeartbeat ::
  "'r store_redis \<Rightarrow> StateStoreConfig \<Rightarrow> gotime \<Rightarrow> gotime \<Rightarrow> string \<Rightarrow> 'r \<Rightarrow> unit result \<times> 'r" where
  "UpdateHeartbeat R s now started instanceID r =
     (let key = instanceKey s instanceID; (exists, r1) = st_Exists R key r in
      case exists of
        Inl e \<Rightarrow> (Inl e, r1)
      | Inr n \<Rightarrow>
          if n = 0 then RegisterInstance R s now started instanceID r1
          else st_Expire R key (sc_InstanceTTL s) r1)"

text \<open>The loop over the replies to one batch of keys.\<close>

fun active_loop ::
  "gotime \<Rightarrow> duration \<Rightarrow> string result list \<Rightarrow> string list \<Rightarrow> string list" where
  "active_loop now timeout [] instances = instances"
| "active_loop now timeout (Inl e # cmds) instances = active_loop now timeout cmds instances"
| "active_loop now timeout (Inr data # cmds) instances =
     (case unmarshal_instance data of
        Inl e \<Rightarrow> active_loop now timeout cmds instances
      | Inr info \<Rightarrow>
          active_loop now timeout cmds
            (if time_sub now (ii_LastHeartbeat info) < timeout \<and> ii_Status info = ''active''
             then instances @ [ii_ID info] else instances))"

text \<open>One batch of keys, fetched in a pipeline; a key that is gone does not fail it.\<close>

definition fetch_batch ::
  "'r store_redis \<Rightarrow> gotime \<Rightarrow> duration \<Rightarrow> string list \<Rightarrow> string list \<Rightarrow> 'r \<Rightarrow>
     string list result \<times> 'r" where
  "fetch_batch R now timeout ks instances r =
     (if ks = [] then (Inr instances, r)
      else
        let ((err, cmds), r1) = st_PipeGet R ks r in
        case err of
          None \<Rightarrow> (Inr (active_loop now timeout cmds instances), r1)
        | Some e \<Rightarrow>
            if errors_Is_nil e then (Inr (active_loop now timeout cmds instances), r1)
            else (Inl (ErrWrap ''pipeline exec error: '' e), r1))"

text \<open>The loop over the batches; the number is that of the iterations still allowed.\<close>

fun scan_loop ::
  "'r store_redis \<Rightarrow> string \<Rightarrow> gotime \<Rightarrow> duration \<Rightarrow> nat \<Rightarrow> 64 word \<Rightarrow> string list \<Rightarrow> 'r \<Rightarrow>
     (string list \<times> go_error option) \<times> 'r" where
  "scan_loop R pattern now timeout 0 cursor instances r =
     ((instances, Some (ErrText ''max iterations reached while scanning instances'')), r)"
| "scan_loop R pattern now timeout (Suc n) cursor instances r =
     (case st_Scan R cursor pattern 100 r of
        (Inl e, r1) \<Rightarrow> (([], Some (ErrWrap ''failed to scan instances: '' e)), r1)
      | (Inr (ks, nextCursor), r1) \<Rightarrow>
          (case fetch_batch R now timeout ks instances r1 of
             (Inl e, r2) \<Rightarrow> (([], Some e), r2)
           | (Inr found, r2) \<Rightarrow>
               if nextCursor = 0 then ((found, None), r2)
               else scan_loop R pattern now timeout n nextCursor found r2))"

definition GetActiveInstances ::
  "'r store_redis \<Rightarrow> StateStoreConfig \<Rightarrow> gotime \<Rightarrow> duration \<Rightarrow> 'r \<Rightarrow>
     (string list \<times> go_error option) \<times> 'r" where
  "GetActiveInstances R s now timeout r =
     scan_loop R (instanceKey s ''*'') now timeout MaxIterations 0 [] r"

text \<open>The record is written back with a life of 30 seconds.\<close>

definition MarkInstanceOffline ::
  "'r store_redis \<Rightarrow> StateStoreConfig \<Rightarrow> gotime \<Rightarrow> string \<Rightarrow> 'r \<Rightarrow> unit result \<times> 'r" where
  "MarkInstanceOffline R s now instanceID r =
     (let key = instanceKey s instanceID; (reply, r1) = st_Get R key r in
      case reply of
        Inl e \<Rightarrow> if errors_Is_nil e then (Inr (), r1) else (Inl e, r1)
      | Inr data \<Rightarrow>
          (case unmarshal_instance data of
             Inl e \<Rightarrow> (Inl e, r1)
           | Inr info \<Rightarrow>
               (case instance_json (info\<lparr>ii_Status := ''offline'', ii_LastHeartbeat := now\<rparr>) of
                  Inl e \<Rightarrow> (Inl e, r1)
                | Inr newData \<Rightarrow> st_Set R key (json_text newData) (30 * second) r1)))"

section \<open>Assignments\<close>

definition assignment_cmds ::
  "StateStoreConfig \<Rightarrow> gotime \<Rightarrow> (string \<times> string list option) list \<Rightarrow> redis_cmd list" where
  "assignment_cmds s now assignments =
     CDel (assignmentsKey s) #
     map (\<lambda>(inst, groups). CHSet (assignmentsKey s) inst (json_text (groups_json groups))) assignments @
     [CSet (assignmentsTimestampKey s) (itoa (time_unix now)) (wrap64 (sc_AssignmentTimeout s * 2))]"

text \<open>Marshalling groups cannot fail, so that its error branch is left out.\<close>

definition StoreAssignments ::
  "'r store_redis \<Rightarrow> StateStoreConfig \<Rightarrow> gotime \<Rightarrow> (string \<times> string list option) list \<Rightarrow> 'r \<Rightarrow>
     unit result \<times> 'r" where
  "StoreAssignments R s now assignments r =
     (case st_TxPipelined R (assignment_cmds s now assignments) r of
        (Inl e, r1) \<Rightarrow> (Inl (ErrWrap ''failed to store assignments: '' e), r1)
      | (Inr _, r1) \<Rightarrow> (Inr (), r1))"

fun assignments_loop ::
  "(string \<times> string) list \<Rightarrow> (string \<times> string list option) list \<Rightarrow>
     (string \<times> string list option) list" where
  "assignments_loop [] assignments = assignments"
| "assignments_loop ((inst, data) # rest) assignments =
     (case unmarshal_groups data of
        Inl e \<Rightarrow> assignments_loop rest assignments
      | Inr groups \<Rightarrow> assignments_loop rest (AList.update inst groups assignments))"

definition unix_time :: "int \<Rightarrow> gotime" where
  "unix_time n = wrap64 (n + 62135596800) * second"

definition GetAssignments ::
  "'r store_redis \<Rightarrow> StateStoreConfig \<Rightarrow> gotime \<Rightarrow> 'r \<Rightarrow>
     (string \<times> string list option) list result \<times> 'r" where
  "GetAssignments R s now r =
     (let (reply, r1) = st_Get R (assignmentsTimestampKey s) r;
          timestamp = (case reply of Inl e \<Rightarrow> 0 | Inr text \<Rightarrow> parse_int64 text)
      in if 0 < timestamp \<and> sc_AssignmentTimeout s < time_sub now (unix_time timestamp)
         then (Inl (ErrText (''assignments expired (last updated '' @ utc_string (unix_time timestamp) @ '')'')), r1)
         else case st_HGetAll R (assignmentsKey s) r1 of
             (Inl e, r2) \<Rightarrow> (Inl (ErrWrap ''failed to get assignments: '' e), r2)
           | (Inr data, r2) \<Rightarrow> (Inr (assignments_loop data []), r2))"

section \<open>Partition windows\<close>

definition StorePartitionWindow ::
  "'r store_redis \<Rightarrow> zone \<Rightarrow> StateStoreConfig \<Rightarrow> string \<Rightarrow> OffsetRecord list \<Rightarrow> 'r \<Rightarrow> unit result \<times> 'r" where
  "StorePartitionWindow R z s key records r =
     (if records = [] then (Inr (), r)
      else case records_json z records of
          Inl e \<Rightarrow> (Inl (ErrWrap ''failed to marshal records: '' e), r)
        | Inr js \<Rightarrow> st_Set R (storeWindowKey s key) (json_text (JArr js)) (sc_PartitionWindowTTL s) r)"

definition GetPartitionWindow ::
  "'r store_redis \<Rightarrow> StateStoreConfig \<Rightarrow> string \<Rightarrow> 'r \<Rightarrow> OffsetRecord list option result \<times> 'r" where
  "GetPartitionWindow R s key r =
     (let (reply, r1) = st_Get R (storeWindowKey s key) r in
      case reply of
        Inl e \<Rightarrow> if errors_Is_nil e then (Inr None, r1)
                 else (Inl (ErrWrap ''failed to get partition window: '' e), r1)
      | Inr data \<Rightarrow>
          (case unmarshal_records data of
             Inl e \<Rightarrow> (Inl (ErrWrap ''failed to unmarshal records: '' e), r1)
           | Inr records \<Rightarrow> (Inr records, r1)))"


section \<open>What Redis promises\<close>

datatype rvalue = RStr string | RHash "(string \<times> string) list"

text \<open>The commands of a transaction on the keys and their values.\<close>

fun apply_cmd :: "redis_cmd \<Rightarrow> (string \<rightharpoonup> rvalue) \<Rightarrow> (string \<rightharpoonup> rvalue)" where
  "apply_cmd (CDel k) m = m(k := None)"
| "apply_cmd (CSet k v ttl) m = m(k \<mapsto> RStr v)"
| "apply_cmd (CHSet k f v) m =
     (case m k of
        None \<Rightarrow> m(k \<mapsto> RHash [(f, v)])
      | Some (RHash h) \<Rightarrow> m(k \<mapsto> RHash (AList.update f v h))
      | Some (RStr x) \<Rightarrow> m)"

definition literal :: "string \<Rightarrow> bool" where
  "literal p \<longleftrightarrow> set p \<inter> {CHR ''*'', CHR ''?'', CHR ''['', CHR 0x5C} = {}"

text \<open>
  The documented behaviour of the commands, over \<open>view r\<close>, the keys that exist in the state
  \<open>r\<close> with their values: reads change nothing and give what is there; a write that fails may have
  been done; \<open>EXPIRE\<close> can only remove its key; \<open>SCAN\<close> gives keys that match its pattern.
\<close>

definition reads_ok :: "'r store_redis \<Rightarrow> ('r \<Rightarrow> string \<rightharpoonup> rvalue) \<Rightarrow> bool" where
  "reads_ok R view \<longleftrightarrow>
     (\<forall>k r rep r'. st_Get R k r = (rep, r') \<longrightarrow> view r' = view r \<and>
        (\<forall>v. rep = Inr v \<longrightarrow> view r k = Some (RStr v)) \<and> (rep = Inl RedisNil \<longrightarrow> view r k = None)) \<and>
     (\<forall>k r rep r'. st_Exists R k r = (rep, r') \<longrightarrow> view r' = view r \<and>
        (\<forall>n. rep = Inr n \<longrightarrow> (n = 0 \<longleftrightarrow> view r k = None))) \<and>
     (\<forall>k r rep r'. st_HGetAll R k r = (rep, r') \<longrightarrow> view r' = view r \<and>
        (\<forall>es. rep = Inr es \<longrightarrow> distinct (map fst es) \<and>
           (view r k = None \<and> es = [] \<or> (\<exists>h. view r k = Some (RHash h) \<and> map_of es = map_of h))))"

definition scans_ok :: "'r store_redis \<Rightarrow> ('r \<Rightarrow> string \<rightharpoonup> rvalue) \<Rightarrow> bool" where
  "scans_ok R view \<longleftrightarrow>
     (\<forall>c p n r rep r'. st_Scan R c (p @ ''*'') n r = (rep, r') \<longrightarrow> view r' = view r \<and>
        (\<forall>ks c'. rep = Inr (ks, c') \<and> literal p \<longrightarrow> (\<forall>k \<in> set ks. \<exists>x. k = p @ x))) \<and>
     (\<forall>ks r err reps r'. st_PipeGet R ks r = ((err, reps), r') \<longrightarrow> view r' = view r \<and>
        list_all2 (\<lambda>k rep. \<forall>v. rep = Inr v \<longrightarrow> view r k = Some (RStr v)) ks reps)"

definition writes_ok :: "'r store_redis \<Rightarrow> ('r \<Rightarrow> string \<rightharpoonup> rvalue) \<Rightarrow> bool" where
  "writes_ok R view \<longleftrightarrow>
     (\<forall>k v t r rep r'. st_Set R k v t r = (rep, r') \<longrightarrow>
        view r' = (view r)(k \<mapsto> RStr v) \<or> (rep \<noteq> Inr () \<and> view r' = view r)) \<and>
     (\<forall>k t r rep r'. st_Expire R k t r = (rep, r') \<longrightarrow> view r' = view r \<or> view r' = (view r)(k := None)) \<and>
     (\<forall>cmds r rep r'. st_TxPipelined R cmds r = (rep, r') \<longrightarrow>
        view r' = fold apply_cmd cmds (view r) \<or> (rep \<noteq> Inr () \<and> view r' = view r))"

definition store_laws :: "'r store_redis \<Rightarrow> ('r \<Rightarrow> string \<rightharpoonup> rvalue) \<Rightarrow> bool" where
  "store_laws R view \<longleftrightarrow> reads_ok R view \<and> scans_ok R view \<and> writes_ok R view"

lemma read_laws:
  assumes "store_laws R view"
  shows get_law: "st_Get R k r = (rep, r') \<Longrightarrow> view r' = view r \<and>
      (\<forall>v. rep = Inr v \<longrightarrow> view r k = Some (RStr v)) \<and> (rep = Inl RedisNil \<longrightarrow> view r k = None)"
    and exists_law: "st_Exists R k r = (erep, r') \<Longrightarrow> view r' = view r \<and>
      (\<forall>n. erep = Inr n \<longrightarrow> (n = 0 \<longleftrightarrow> view r k = None))"
    and hgetall_law: "st_HGetAll R k r = (hrep, r') \<Longrightarrow> view r' = view r \<and>
      (\<forall>es. hrep = Inr es \<longrightarrow> distinct (map fst es) \<and>
         (view r k = None \<and> es = [] \<or> (\<exists>h. view r k = Some (RHash h) \<and> map_of es = map_of h)))"
proof -
  have "reads_ok R view" using assms by (simp add: store_laws_def)
  note laws = this [unfolded reads_ok_def]
  show "st_Get R k r = (rep, r') \<Longrightarrow> view r' = view r \<and>
      (\<forall>v. rep = Inr v \<longrightarrow> view r k = Some (RStr v)) \<and> (rep = Inl RedisNil \<longrightarrow> view r k = None)"
    by (rule mp [OF spec [OF spec [OF spec [OF spec [OF conjunct1 [OF laws]]]]]])
  show "st_Exists R k r = (erep, r') \<Longrightarrow> view r' = view r \<and>
      (\<forall>n. erep = Inr n \<longrightarrow> (n = 0 \<longleftrightarrow> view r k = None))"
    by (rule mp [OF spec [OF spec [OF spec [OF spec [OF conjunct1 [OF conjunct2 [OF laws]]]]]]])
  show "st_HGetAll R k r = (hrep, r') \<Longrightarrow> view r' = view r \<and>
      (\<forall>es. hrep = Inr es \<longrightarrow> distinct (map fst es) \<and>
         (view r k = None \<and> es = [] \<or> (\<exists>h. view r k = Some (RHash h) \<and> map_of es = map_of h)))"
    by (rule mp [OF spec [OF spec [OF spec [OF spec [OF conjunct2 [OF conjunct2 [OF laws]]]]]]])
qed

lemma scan_laws:
  assumes "store_laws R view"
  shows scan_law: "st_Scan R c (p @ ''*'') n r = (srep, r') \<Longrightarrow> view r' = view r \<and>
      (\<forall>ks c'. srep = Inr (ks, c') \<and> literal p \<longrightarrow> (\<forall>k \<in> set ks. \<exists>x. k = p @ x))"
    and pipe_law: "st_PipeGet R ks r = ((err, reps), r') \<Longrightarrow> view r' = view r \<and>
      list_all2 (\<lambda>k rep. \<forall>v. rep = Inr v \<longrightarrow> view r k = Some (RStr v)) ks reps"
proof -
  have "scans_ok R view" using assms by (simp add: store_laws_def)
  note laws = this [unfolded scans_ok_def]
  show "st_Scan R c (p @ ''*'') n r = (srep, r') \<Longrightarrow> view r' = view r \<and>
      (\<forall>ks c'. srep = Inr (ks, c') \<and> literal p \<longrightarrow> (\<forall>k \<in> set ks. \<exists>x. k = p @ x))"
    by (rule mp [OF spec [OF spec [OF spec [OF spec [OF spec [OF spec [OF conjunct1 [OF laws]]]]]]]])
  show "st_PipeGet R ks r = ((err, reps), r') \<Longrightarrow> view r' = view r \<and>
      list_all2 (\<lambda>k rep. \<forall>v. rep = Inr v \<longrightarrow> view r k = Some (RStr v)) ks reps"
    by (rule mp [OF spec [OF spec [OF spec [OF spec [OF spec [OF conjunct2 [OF laws]]]]]]])
qed

lemma write_laws:
  assumes "store_laws R view"
  shows set_law: "st_Set R k v t r = (rep, r') \<Longrightarrow>
      view r' = (view r)(k \<mapsto> RStr v) \<or> (rep \<noteq> Inr () \<and> view r' = view r)"
    and expire_law: "st_Expire R k t r = (rep, r') \<Longrightarrow> view r' = view r \<or> view r' = (view r)(k := None)"
    and tx_law: "st_TxPipelined R cmds r = (rep, r') \<Longrightarrow>
      view r' = fold apply_cmd cmds (view r) \<or> (rep \<noteq> Inr () \<and> view r' = view r)"
proof -
  have "writes_ok R view" using assms by (simp add: store_laws_def)
  note laws = this [unfolded writes_ok_def]
  show "st_Set R k v t r = (rep, r') \<Longrightarrow>
      view r' = (view r)(k \<mapsto> RStr v) \<or> (rep \<noteq> Inr () \<and> view r' = view r)"
    by (rule mp [OF spec [OF spec [OF spec [OF spec [OF spec [OF spec [OF conjunct1 [OF laws]]]]]]]])
  show "st_Expire R k t r = (rep, r') \<Longrightarrow> view r' = view r \<or> view r' = (view r)(k := None)"
    by (rule mp [OF spec [OF spec [OF spec [OF spec [OF spec [OF conjunct1 [OF conjunct2 [OF laws]]]]]]]])
  show "st_TxPipelined R cmds r = (rep, r') \<Longrightarrow>
      view r' = fold apply_cmd cmds (view r) \<or> (rep \<noteq> Inr () \<and> view r' = view r)"
    by (rule mp [OF spec [OF spec [OF spec [OF spec [OF conjunct2 [OF conjunct2 [OF laws]]]]]]])
qed

section \<open>Keys\<close>

lemma key_simps [simp]:
  "instanceKey s i = instanceKey s j \<longleftrightarrow> i = j"
  "storeWindowKey s k \<noteq> instanceKey s i" "instanceKey s i \<noteq> storeWindowKey s k"
  "assignmentsKey s \<noteq> instanceKey s i" "instanceKey s i \<noteq> assignmentsKey s"
  "assignmentsTimestampKey s \<noteq> instanceKey s i" "instanceKey s i \<noteq> assignmentsTimestampKey s"
  "assignmentsTimestampKey s \<noteq> assignmentsKey s" "assignmentsKey s \<noteq> assignmentsTimestampKey s"
  by (simp_all add: instanceKey_def storeWindowKey_def assignmentsKey_def assignmentsTimestampKey_def)

section \<open>Records decode to what was encoded\<close>

lemma records_decode:
  assumes "zone_ok z" and "records_json z rs = Inr js"
  shows "list_result (map (\<lambda>j. decode_struct record_field j zero_OffsetRecord) js) = Inr rs \<and>
    list_all plain_json js \<and> json_depth (JArr js) \<le> max_nesting"
  using assms(2)
proof (induction rs arbitrary: js)
  case (Cons r rs)
  obtain js' where ok: "time_ok z (or_CheckTimestamp r)" and js': "records_json z rs = Inr js'"
    and js: "js = JObj [(''Offset'', int_json (sint (or_Offset r))),
         (''HighWatermark'', int_json (sint (or_HighWatermark r))),
         (''Lag'', int_json (sint (or_Lag r))), (''CheckTimestamp'', JStr (rfc3339nano z (or_CheckTimestamp r)))] # js'"
    using Cons.prems by (auto simp: time_json_def result_bind_def split: if_splits sum.splits)
  have one: "decode_struct record_field (hd js) zero_OffsetRecord = Inr r"
    using assms(1) ok
    by (simp add: js record_field_def field_is_def zero_OffsetRecord_def)
  have "plain_json (hd js)" using assms(1) ok by (simp add: js)
  moreover have "json_depth (hd js) = 1" by (simp add: js json_depth.simps(2))
  ultimately show ?case using Cons.IH [OF js'] one by (simp add: js max_nesting_def)
qed (simp add: max_nesting_def)

lemma groups_decode:
  "decode_slice (\<lambda>j. decode_string j '''') (groups_json gs) = Inr gs"
  by (cases gs) (simp_all add: groups_json_def list_result_map)

text \<open>An instance that can be written, and what reading it back keeps.\<close>

definition instance_plain :: "InstanceInfo \<Rightarrow> bool" where
  "instance_plain info \<longleftrightarrow> valid_utf8 (ii_ID info) \<and> valid_utf8 (ii_Status info) \<and>
     (\<forall>m. ii_Metadata info = Some m \<longrightarrow> (\<forall>(k, v) \<in> set m. valid_utf8 k \<and> valid_utf8 v))"

lemma metadata_decode:
  assumes "\<forall>m. md = Some m \<longrightarrow> (\<forall>(k, v) \<in> set m. valid_utf8 k \<and> valid_utf8 v)"
  shows "plain_json (metadata_json md) \<and> (\<exists>md'. decode_map (\<lambda>j. decode_string j '''') (metadata_json md) None = Inr md' \<and>
    (\<forall>m. md' = Some m \<longrightarrow> (\<forall>(k, v) \<in> set m. valid_utf8 k \<and> valid_utf8 v)))"
proof (cases md)
  case (Some m)
  have j: "metadata_json md = JObj (map (\<lambda>(k, v). (k, JStr v)) (sort_fields m))"
    by (simp add: metadata_json_def Some sort_fields_map)
  obtain m' where "decode_entries (\<lambda>j. decode_string j '''') (map (\<lambda>(k, v). (k, JStr v)) (sort_fields m)) [] = Inr m'" "set m' \<subseteq> set m"
    using decode_entries_strings [of "sort_fields m" "[]"] by auto
  moreover have "plain_json (metadata_json md)" using assms Some unfolding j by (simp add: list_all_iff split_def comp_def)
  moreover have "decode_map (\<lambda>j. decode_string j '''') (metadata_json md) None = Inr (Some m')" using calculation(1) by (simp add: j)
  ultimately show ?thesis using assms Some by (intro conjI exI [of _ "Some m'"]) auto
qed (simp add: metadata_json_def)

lemma instance_decode:
  assumes "instance_plain info" and "instance_json info = Inr j"
  shows "\<exists>info'. unmarshal_instance (json_text j) = Inr info' \<and> instance_plain info' \<and>
    ii_ID info' = ii_ID info \<and> ii_LastHeartbeat info' = ii_LastHeartbeat info \<and> ii_Status info' = ii_Status info"
proof -
  have ok: "time_ok UTC (ii_LastHeartbeat info)"
    and j: "j = JObj [(''id'', JStr (ii_ID info)), (''last_heartbeat'', JStr (rfc3339nano UTC (ii_LastHeartbeat info))),
       (''status'', JStr (ii_Status info)),
       (''assigned_count'', int_json (sint (ii_AssignedCount info))),
       (''metadata'', metadata_json (ii_Metadata info))]"
    using assms(2) by (auto simp: instance_json_def time_json_def split: if_splits)
  obtain md' where md: "plain_json (metadata_json (ii_Metadata info))"
    "decode_map (\<lambda>j. decode_string j '''') (metadata_json (ii_Metadata info)) None = Inr md'"
    "\<forall>m. md' = Some m \<longrightarrow> (\<forall>(k, v) \<in> set m. valid_utf8 k \<and> valid_utf8 v)"
    using metadata_decode [of "ii_Metadata info"] assms(1) unfolding instance_plain_def by blast
  have plain: "plain_json j"
    using assms(1) ok md(1) by (simp add: j instance_plain_def)
  have "json_depth (metadata_json (ii_Metadata info)) \<le> 1"
    by (cases "ii_Metadata info") (auto simp: metadata_json_def)
  then have depth: "json_depth j \<le> max_nesting" by (simp add: j max_nesting_def)
  have "decode_struct instance_field j zero_InstanceInfo =
      Inr (info\<lparr>ii_Metadata := md'\<rparr>)"
    using ok md(2)
    by (simp add: j instance_field_def field_is_def zero_InstanceInfo_def)
  then have "unmarshal_instance (json_text j) = Inr (info\<lparr>ii_Metadata := md'\<rparr>)"
    by (simp add: unmarshal_instance_def unmarshal_text [OF plain depth])
  then show ?thesis using md(3) assms(1) by (simp add: instance_plain_def)
qed


section \<open>What the hash of the assignments holds\<close>

lemma fold_update_map_of:
  "distinct (map fst xs) \<Longrightarrow> map_of (fold (\<lambda>(k, v) h. AList.update k v h) xs h) = map_of h ++ map_of xs"
proof (induction xs arbitrary: h)
  case (Cons kv xs)
  obtain k v where kv: "kv = (k, v)" by force
  have "k \<notin> dom (map_of xs)" using Cons.prems by (simp add: kv dom_map_of_conv_image_fst)
  then show ?case using Cons by (simp add: kv update_conv' map_add_upd_left fun_eq_iff map_add_def dom_def split: option.split)
qed simp

lemma hset_commands:
  assumes "m k = Some (RHash h)"
  shows "fold apply_cmd (map (\<lambda>(i, d). CHSet k i d) xs) m = m(k \<mapsto> RHash (fold (\<lambda>(k, v) h. AList.update k v h) xs h))"
  using assms
proof (induction xs arbitrary: m h)
  case (Cons kv xs)
  obtain i d where kv: "kv = (i, d)" by force
  have "fold apply_cmd (map (\<lambda>(i, d). CHSet k i d) xs) (m(k \<mapsto> RHash (AList.update i d h))) =
      (m(k \<mapsto> RHash (AList.update i d h)))(k \<mapsto> RHash (fold (\<lambda>(k, v) h. AList.update k v h) xs (AList.update i d h)))"
    by (rule Cons.IH) simp
  then show ?case using Cons.prems by (simp add: kv)
qed (simp add: fun_upd_idem)

lemma assignment_cmds_view:
  fixes a :: "(string \<times> string list option) list"
  assumes "distinct (map fst a)"
  defines "texts \<equiv> map (\<lambda>(i, gs). (i, json_text (groups_json gs))) a"
  shows "fold apply_cmd (assignment_cmds s now a) m (assignmentsTimestampKey s) = Some (RStr (itoa (time_unix now))) \<and>
    (a = [] \<and> fold apply_cmd (assignment_cmds s now a) m (assignmentsKey s) = None \<or>
     (\<exists>h. fold apply_cmd (assignment_cmds s now a) m (assignmentsKey s) = Some (RHash h) \<and> map_of h = map_of texts))"
proof -
  let ?k = "assignmentsKey s"
  have cmds: "assignment_cmds s now a = CDel ?k # map (\<lambda>(i, d). CHSet ?k i d) texts @
      [CSet (assignmentsTimestampKey s) (itoa (time_unix now)) (wrap64 (sc_AssignmentTimeout s * 2))]"
    by (simp add: assignment_cmds_def texts_def split_def comp_def)
  show ?thesis
  proof (cases texts)
    case Nil
    then show ?thesis unfolding cmds by (simp add: texts_def)
  next
    case (Cons kv rest)
    obtain i d where kv: "kv = (i, d)" by force
    have d: "distinct (map fst texts)" using assms(1) by (simp add: texts_def split_def comp_def)
    have i: "i \<notin> dom (map_of rest)" using d by (simp add: Cons kv dom_map_of_conv_image_fst)
    let ?h = "fold (\<lambda>(k, v) h. AList.update k v h) rest [(i, d)]"
    have run: "fold apply_cmd (map (\<lambda>(i, d). CHSet ?k i d) rest) (m(?k \<mapsto> RHash [(i, d)])) =
        (m(?k \<mapsto> RHash [(i, d)]))(?k \<mapsto> RHash ?h)"
      by (rule hset_commands) simp
    have "map_of ?h = map_of texts"
      using fold_update_map_of [of rest "[(i, d)]"] d i
      by (simp add: Cons kv map_add_upd_left [of i, where ?e1.0 = "Map.empty", simplified])
    then show ?thesis unfolding cmds using run by (simp add: Cons kv)
  qed
qed

lemma assignments_loop_map:
  assumes "distinct (map fst es)" and "\<forall>(i, d) \<in> set es. unmarshal_groups d = Inr (g i)"
  shows "map_of (assignments_loop es acc) = map_of acc ++ map_of (map (\<lambda>(i, d). (i, g i)) es)"
  using assms
proof (induction es arbitrary: acc)
  case (Cons kv es)
  obtain i d where kv: "kv = (i, d)" by force
  have "i \<notin> dom (map_of (map (\<lambda>(i, d). (i, g i)) es))"
    using Cons.prems(1) by (simp add: kv dom_map_of_conv_image_fst image_image split_def)
  then show ?case using Cons by (simp add: kv update_conv' map_add_upd_left fun_eq_iff map_add_def dom_def split: option.split)
qed simp

lemma map_of_keyed: "map_of (map (\<lambda>(i, d). (i, g i)) es) i = (if map_of es i = None then None else Some (g i))"
  by (induction es) auto

definition valid_groups :: "(string \<times> string list option) list \<Rightarrow> bool" where
  "valid_groups a \<longleftrightarrow> (\<forall>(i, gs) \<in> set a. \<forall>xs. gs = Some xs \<longrightarrow> (\<forall>x \<in> set xs. valid_utf8 x))"

lemma groups_text_decode:
  assumes "\<forall>xs. gs = Some xs \<longrightarrow> (\<forall>x \<in> set xs. valid_utf8 x)"
  shows "unmarshal_groups (json_text (groups_json gs)) = Inr gs"
proof -
  have "plain_json (groups_json gs)" using assms(1) by (cases gs) (simp_all add: groups_json_def list_all_iff)
  moreover have "json_depth (groups_json gs) \<le> max_nesting"
    by (cases gs) (auto simp: groups_json_def max_nesting_def)
  ultimately show ?thesis by (simp add: unmarshal_groups_def unmarshal_text groups_decode)
qed

text \<open>Reading the hash that a store has left gives the assignments back.\<close>

lemma loop_recovers:
  assumes "valid_groups a" and "distinct (map fst a)" and "distinct (map fst es)"
    and "map_of es = map_of (map (\<lambda>(i, gs). (i, json_text (groups_json gs))) a)"
  shows "map_of (assignments_loop es []) = map_of a"
proof -
  define g where "g i = the (map_of a i)" for i
  have texts: "map_of es i = map_option (\<lambda>gs. json_text (groups_json gs)) (map_of a i)" for i
    using assms(4) by (simp add: map_of_map comp_def)
  have "unmarshal_groups d = Inr (g i)" if "(i, d) \<in> set es" for i d
  proof -
    have "map_of es i = Some d" using that assms(3) by simp
    then obtain gs where gs: "map_of a i = Some gs" "d = json_text (groups_json gs)" using texts [of i] by auto
    then have "\<forall>xs. gs = Some xs \<longrightarrow> (\<forall>x \<in> set xs. valid_utf8 x)"
      using assms(1) map_of_SomeD [OF gs(1)] by (auto simp: valid_groups_def)
    then show ?thesis using groups_text_decode gs by (simp add: g_def)
  qed
  then have "map_of (assignments_loop es []) = map_of (map (\<lambda>(i, d). (i, g i)) es)"
    using assignments_loop_map [OF assms(3), of g "[]"] by auto
  also have "\<dots> = map_of a"
  proof
    fix i show "map_of (map (\<lambda>(i, d). (i, g i)) es) i = map_of a i"
      using texts [of i] by (cases "map_of a i") (simp_all add: map_of_keyed g_def)
  qed
  finally show ?thesis .
qed

text \<open>What \<open>GetAssignments\<close> makes of the two keys a store has left.\<close>

lemma hash_recovered:
  assumes "store_laws R view" and "valid_groups a" and "distinct (map fst a)"
    and "StoreAssignments R s now a r = (Inr (), r1)"
    and "view r2 (assignmentsKey s) = view r1 (assignmentsKey s)"
    and "st_HGetAll R (assignmentsKey s) r2 = (Inr es, r3)"
  shows "map_of (assignments_loop es []) = map_of a"
proof -
  obtain u where tx: "st_TxPipelined R (assignment_cmds s now a) r = (Inr u, r1)"
    using assms(4) by (auto simp: StoreAssignments_def split: prod.splits sum.splits)
  then have v1: "view r1 = fold apply_cmd (assignment_cmds s now a) (view r)"
    using tx_law [OF assms(1)] by fastforce
  have es: "distinct (map fst es)" "view r2 (assignmentsKey s) = None \<and> es = [] \<or>
      (\<exists>h. view r2 (assignmentsKey s) = Some (RHash h) \<and> map_of es = map_of h)"
    using hgetall_law [OF assms(1,6)] by blast+
  let ?texts = "map (\<lambda>(i, gs). (i, json_text (groups_json gs))) a"
  from conjunct2 [OF assignment_cmds_view [OF assms(3), of s now "view r"]]
  have "map_of es = map_of ?texts"
  proof (elim disjE conjE exE)
    assume "a = []" and "fold apply_cmd (assignment_cmds s now a) (view r) (assignmentsKey s) = None"
    then show ?thesis using es(2) assms(5) v1 by simp
  next
    fix h assume "fold apply_cmd (assignment_cmds s now a) (view r) (assignmentsKey s) = Some (RHash h)"
      and "map_of h = map_of ?texts"
    then show ?thesis using es(2) assms(5) v1 by auto
  qed
  then show ?thesis by (rule loop_recovers [OF assms(2,3) es(1)])
qed

lemma timestamp_left:
  assumes "store_laws R view" and "distinct (map fst a)" and "StoreAssignments R s now a r = (Inr (), r1)"
  shows "view r1 (assignmentsTimestampKey s) = Some (RStr (itoa (time_unix now)))"
proof -
  obtain u where "st_TxPipelined R (assignment_cmds s now a) r = (Inr u, r1)"
    using assms(3) by (auto simp: StoreAssignments_def split: prod.splits sum.splits)
  then have "view r1 = fold apply_cmd (assignment_cmds s now a) (view r)"
    using tx_law [OF assms(1)] by fastforce
  then show ?thesis using conjunct1 [OF assignment_cmds_view [OF assms(2), of s now "view r"]] by simp
qed

lemma stamp_number:
  assumes "time_ok UTC now" shows "parse_int64 (itoa (time_unix now)) = time_unix now"
proof -
  have "- 400000 \<le> now div second div 86400 \<and> now div second div 86400 < 4000000"
    using assms by (intro civil_year_bounds) (simp_all add: time_ok_def local_date_def local_seconds_def UTC_def)
  moreover have "86400 * (now div second div 86400) \<le> now div second"
    "now div second < 86400 * (now div second div 86400) + 86400"
    using mult_div_mod_eq [of 86400 "now div second"] pos_mod_bound [of 86400 "now div second"]
      pos_mod_sign [of 86400 "now div second"] by linarith+
  ultimately have "- 400000 * 86400 \<le> now div second" "now div second < 4000000 * 86400" by linarith+
  then show ?thesis by (intro parse_int64_itoa) (simp_all add: time_unix_def)
qed

lemma assignments_recovered:
  assumes "store_laws R view" and "valid_groups a" and "distinct (map fst a)"
    and "StoreAssignments R s now a r = (Inr (), r1)"
    and "view r2 (assignmentsKey s) = view r1 (assignmentsKey s)"
    and "view r2 (assignmentsTimestampKey s) = view r1 (assignmentsTimestampKey s)"
    and "time_ok UTC now" and "time_sub now' (unix_time (time_unix now)) \<le> sc_AssignmentTimeout s"
  shows "(\<exists>a'. fst (GetAssignments R s now' r2) = Inr a' \<and> map_of a' = map_of a) \<or>
    (\<exists>e. fst (GetAssignments R s now' r2) = Inl (ErrWrap ''failed to get assignments: '' e))"
proof -
  obtain reply r3 where get: "st_Get R (assignmentsTimestampKey s) r2 = (reply, r3)" by force
  obtain hreply r4 where hget: "st_HGetAll R (assignmentsKey s) r3 = (hreply, r4)" by force
  have v3: "view r3 = view r2" using get_law [OF assms(1) get] by blast
  have number: "parse_int64 (itoa (time_unix now)) = time_unix now" using assms(7) by (rule stamp_number)
  have fresh: "\<not> sc_AssignmentTimeout s < time_sub now' (unix_time (parse_int64 num))" if "reply = Inr num" for num
  proof -
    have "num = itoa (time_unix now)"
      using get_law [OF assms(1) get] that assms(6) timestamp_left [OF assms(1,3,4)] by simp
    then show ?thesis using number assms(8) by simp
  qed
  have result: "fst (GetAssignments R s now' r2) = (case hreply of
      Inl e \<Rightarrow> Inl (ErrWrap ''failed to get assignments: '' e) | Inr data \<Rightarrow> Inr (assignments_loop data []))"
    using get hget fresh by (cases reply; cases hreply) (simp_all add: GetAssignments_def Let_def)
  show ?thesis
  proof (cases hreply)
    case (Inr es)
    have "map_of (assignments_loop es []) = map_of a"
      by (rule hash_recovered [OF assms(1-4) _ hget [unfolded Inr]]) (simp add: v3 assms(5))
    then show ?thesis using result Inr by auto
  qed (use result in auto)
qed

section \<open>Properties\<close>

text \<open>C22: A partition window that was stored is read back as it was stored, record by record with the
  time of each check, as long as its key has not changed; the only other outcome is an error of
  Redis itself.\<close>

theorem window_roundtrip:
  assumes "store_laws R view" and "zone_ok z" and "records \<noteq> []"
    and "StorePartitionWindow R z s key records r = (Inr (), r1)"
    and "view r2 (storeWindowKey s key) = view r1 (storeWindowKey s key)"
  shows "fst (GetPartitionWindow R s key r2) = Inr (Some records) \<or>
    (\<exists>e. e \<noteq> RedisNil \<and> fst (GetPartitionWindow R s key r2) = Inl (ErrWrap ''failed to get partition window: '' e))"
proof -
  obtain js where js: "records_json z records = Inr js"
    and set: "st_Set R (storeWindowKey s key) (json_text (JArr js)) (sc_PartitionWindowTTL s) r = (Inr (), r1)"
    using assms(3,4) by (auto simp: StorePartitionWindow_def split: sum.splits)
  have v2: "view r2 (storeWindowKey s key) = Some (RStr (json_text (JArr js)))"
    using set_law [OF assms(1) set] assms(5) by auto
  obtain reply r3 where get: "st_Get R (storeWindowKey s key) r2 = (reply, r3)" by force
  have decoded: "unmarshal_records (json_text (JArr js)) = Inr (Some records)"
    using records_decode [OF assms(2) js]
    by (simp add: unmarshal_records_def unmarshal_text del: json_text.simps json_depth_le)
  show ?thesis
  proof (cases reply)
    case (Inl e)
    then have "e \<noteq> RedisNil" using get_law [OF assms(1) get] v2 by auto
    then show ?thesis using get Inl by (simp add: GetPartitionWindow_def errors_Is_nil_def)
  next
    case (Inr data)
    then have "data = json_text (JArr js)" using get_law [OF assms(1) get] v2 by auto
    then show ?thesis using get Inr decoded by (simp add: GetPartitionWindow_def)
  qed
qed

text \<open>C23: Assignments that were stored are read back, instance by instance, until they are older than
  the assignment timeout, counted from the second in which they were stored, as long as the two
  keys have not changed; the only other outcome is an error of Redis itself.\<close>

theorem assignments_roundtrip:
  assumes "store_laws R view" and "valid_groups a" and "distinct (map fst a)"
    and "StoreAssignments R s now a r = (Inr (), r1)"
    and "view r2 (assignmentsKey s) = view r1 (assignmentsKey s)"
    and "view r2 (assignmentsTimestampKey s) = view r1 (assignmentsTimestampKey s)"
    and "time_ok UTC now" and "time_sub now' (unix_time (time_unix now)) \<le> sc_AssignmentTimeout s"
  shows "(\<exists>a'. fst (GetAssignments R s now' r2) = Inr a' \<and> map_of a' = map_of a) \<or>
    (\<exists>e. fst (GetAssignments R s now' r2) = Inl (ErrWrap ''failed to get assignments: '' e))"
  using assms by (rule assignments_recovered)



section \<open>Runs of the store\<close>

text \<open>
  All that instances, windows and assignments do to the server, and keys that vanish, from a
  state without instances.  The set holds the identifier and the time of every attempt to write
  an active record, through \<open>RegisterInstance\<close> or a heartbeat that found no record; a successful
  \<open>MarkInstanceOffline\<close> removes those of its instance.
\<close>

inductive store_run ::
  "'r store_redis \<Rightarrow> StateStoreConfig \<Rightarrow> ('r \<Rightarrow> string \<rightharpoonup> rvalue) \<Rightarrow> 'r \<Rightarrow>
     (string \<times> gotime) set \<Rightarrow> bool"
  for R :: "'r store_redis" and s view where
  start: "(\<forall>i. view r (instanceKey s i) = None) \<Longrightarrow> store_run R s view r {}"
| expiry: "store_run R s view r A \<Longrightarrow> view r' \<subseteq>\<^sub>m view r \<Longrightarrow> store_run R s view r' A"
| register: "store_run R s view r A \<Longrightarrow> valid_utf8 i \<Longrightarrow>
    RegisterInstance R s now started i r = (res, r') \<Longrightarrow> store_run R s view r' (insert (i, now) A)"
| heartbeat: "store_run R s view r A \<Longrightarrow> valid_utf8 i \<Longrightarrow>
    UpdateHeartbeat R s now started i r = (res, r') \<Longrightarrow>
    store_run R s view r' (if view r (instanceKey s i) = None then insert (i, now) A else A)"
| offline: "store_run R s view r A \<Longrightarrow> MarkInstanceOffline R s now i r = (Inr (), r') \<Longrightarrow>
    store_run R s view r' {p \<in> A. fst p \<noteq> i}"
| offline_failed: "store_run R s view r A \<Longrightarrow> MarkInstanceOffline R s now i r = (Inl e, r') \<Longrightarrow>
    store_run R s view r' A"
| assignments: "store_run R s view r A \<Longrightarrow> StoreAssignments R s now a r = (res, r') \<Longrightarrow>
    store_run R s view r' A"
| window: "store_run R s view r A \<Longrightarrow> StorePartitionWindow R z s key rs r = (res, r') \<Longrightarrow>
    store_run R s view r' A"

text \<open>The invariant: every record of an instance is its own, and an active one has an attempt.\<close>

definition record_ok :: "(string \<times> gotime) set \<Rightarrow> string \<Rightarrow> rvalue option \<Rightarrow> bool" where
  "record_ok A i v \<longleftrightarrow> v = None \<or> (\<exists>d info. v = Some (RStr d) \<and> unmarshal_instance d = Inr info \<and>
     ii_ID info = i \<and> instance_plain info \<and>
     (ii_Status info = ''active'' \<longrightarrow> (i, ii_LastHeartbeat info) \<in> A))"

definition instances_ok :: "StateStoreConfig \<Rightarrow> (string \<rightharpoonup> rvalue) \<Rightarrow> (string \<times> gotime) set \<Rightarrow> bool" where
  "instances_ok s m A \<longleftrightarrow> (\<forall>i. record_ok A i (m (instanceKey s i)))"

lemma instances_ok_mono: "instances_ok s m A \<Longrightarrow> A \<subseteq> B \<Longrightarrow> instances_ok s m B"
  unfolding instances_ok_def record_ok_def by blast

lemma instances_ok_set:
  assumes "instances_ok s m A" and "record_ok A i (Some v)"
  shows "instances_ok s (m(instanceKey s i \<mapsto> v)) A"
  using assms by (auto simp: instances_ok_def)

lemma instances_ok_shrink:
  assumes "instances_ok s m A" and "m' \<subseteq>\<^sub>m m"
  shows "instances_ok s m' A"
  unfolding instances_ok_def
proof
  fix i
  show "record_ok A i (m' (instanceKey s i))"
  proof (cases "m' (instanceKey s i)")
    case (Some v)
    then have "m (instanceKey s i) = Some v" using assms(2) by (metis map_le_def domI)
    then show ?thesis using assms(1) Some unfolding instances_ok_def by metis
  qed (simp add: record_ok_def)
qed

lemma written_record_ok:
  assumes "instance_plain info" and "instance_json info = Inr j"
    and "ii_Status info = ''active'' \<longrightarrow> (ii_ID info, ii_LastHeartbeat info) \<in> A"
  shows "record_ok A (ii_ID info) (Some (RStr (json_text j)))"
  using instance_decode [OF assms(1,2)] assms(3) unfolding record_ok_def by force

lemma register_ok:
  assumes "store_laws R view" and "instances_ok s (view r) A" and "valid_utf8 i"
    and "RegisterInstance R s now started i r = (res, r')"
  shows "instances_ok s (view r') (insert (i, now) A)"
proof -
  let ?info = "\<lparr>ii_ID = i, ii_LastHeartbeat = now, ii_Status = ''active'', ii_AssignedCount = 0,
    ii_Metadata = Some [(''version'', ''1.0.0''), (''start_time'', rfc3339 UTC started)]\<rparr>"
  have mono: "instances_ok s (view r) (insert (i, now) A)"
    using instances_ok_mono [OF assms(2)] by blast
  show ?thesis
  proof (cases "instance_json ?info")
    case (Inl e)
    then show ?thesis using assms(4) mono by (simp add: RegisterInstance_def)
  next
    case (Inr j)
    then have set: "st_Set R (instanceKey s i) (json_text j) (sc_InstanceTTL s) r = (res, r')"
      using assms(4) by (simp add: RegisterInstance_def)
    have "instance_plain ?info" using assms(3) by (simp add: instance_plain_def)
    then have "record_ok (insert (i, now) A) i (Some (RStr (json_text j)))"
      using written_record_ok [OF _ Inr, of "insert (i, now) A"] by simp
    then show ?thesis using set_law [OF assms(1) set] mono instances_ok_set by fastforce
  qed
qed

lemma heartbeat_ok:
  assumes "store_laws R view" and "instances_ok s (view r) A" and "valid_utf8 i"
    and "UpdateHeartbeat R s now started i r = (res, r')"
  shows "instances_ok s (view r') (if view r (instanceKey s i) = None then insert (i, now) A else A)"
proof -
  obtain reply r1 where ex: "st_Exists R (instanceKey s i) r = (reply, r1)" by force
  have v1: "view r1 = view r" and found: "\<And>n. reply = Inr n \<Longrightarrow> n = 0 \<longleftrightarrow> view r (instanceKey s i) = None"
    using exists_law [OF assms(1) ex] by blast+
  let ?B = "if view r (instanceKey s i) = None then insert (i, now) A else A"
  have ok1: "instances_ok s (view r1) A" using assms(2) v1 by simp
  have mono: "instances_ok s (view r1) ?B" by (rule instances_ok_mono [OF ok1]) auto
  show ?thesis
  proof (cases reply)
    case (Inl e)
    then show ?thesis using assms(4) ex mono by (simp add: UpdateHeartbeat_def)
  next
    case (Inr n)
    show ?thesis
    proof (cases "n = 0")
      case True
      then have "RegisterInstance R s now started i r1 = (res, r')"
        using assms(4) ex Inr by (simp add: UpdateHeartbeat_def)
      from register_ok [OF assms(1) ok1 assms(3) this] show ?thesis using found [OF Inr] True by simp
    next
      case False
      then have "st_Expire R (instanceKey s i) (sc_InstanceTTL s) r1 = (res, r')"
        using assms(4) ex Inr by (simp add: UpdateHeartbeat_def)
      then have "view r' \<subseteq>\<^sub>m view r1" using expire_law [OF assms(1)] by (fastforce simp: map_le_def)
      then show ?thesis by (rule instances_ok_shrink [OF mono])
    qed
  qed
qed

lemma offline_ok:
  assumes "store_laws R view" and "instances_ok s (view r) A"
    and "MarkInstanceOffline R s now i r = (res, r')"
  shows "instances_ok s (view r') A \<and> (res = Inr () \<longrightarrow> instances_ok s (view r') {p \<in> A. fst p \<noteq> i})"
proof -
  let ?k = "instanceKey s i"
  obtain reply r1 where get: "st_Get R ?k r = (reply, r1)" by force
  have v1: "view r1 = view r" and data: "\<And>d. reply = Inr d \<Longrightarrow> view r ?k = Some (RStr d)"
    and nil: "reply = Inl RedisNil \<Longrightarrow> view r ?k = None"
    using get_law [OF assms(1) get] by blast+
  have ok1: "instances_ok s (view r1) A" using assms(2) v1 by simp
  have drop: "instances_ok s m {p \<in> A. fst p \<noteq> i}"
    if "instances_ok s m A" and "record_ok {p \<in> A. fst p \<noteq> i} i (m ?k)" for m
    unfolding instances_ok_def
  proof
    fix j
    show "record_ok {p \<in> A. fst p \<noteq> i} j (m (instanceKey s j))"
      using that by (cases "j = i") (auto simp: instances_ok_def record_ok_def)
  qed
  show ?thesis
  proof (cases reply)
    case (Inl e)
    show ?thesis
    proof (cases "e = RedisNil")
      case True
      then have "record_ok {p \<in> A. fst p \<noteq> i} i (view r1 ?k)" using nil Inl v1 by (simp add: record_ok_def)
      then show ?thesis using assms(3) get Inl True ok1 drop [OF ok1]
        by (simp add: MarkInstanceOffline_def errors_Is_nil_def)
    next
      case False
      then show ?thesis using assms(3) get Inl ok1 by (auto simp: MarkInstanceOffline_def errors_Is_nil_def)
    qed
  next
    case (Inr d)
    have "record_ok A i (Some (RStr d))" using assms(2) data [OF Inr] unfolding instances_ok_def by metis
    then obtain info where info: "unmarshal_instance d = Inr info" "ii_ID info = i" "instance_plain info"
      by (auto simp: record_ok_def)
    let ?off = "info\<lparr>ii_Status := ''offline'', ii_LastHeartbeat := now\<rparr>"
    show ?thesis
    proof (cases "instance_json ?off")
      case (Inl e)
      then show ?thesis using assms(3) get Inr info(1) ok1 by (auto simp: MarkInstanceOffline_def)
    next
      case json: (Inr j)
      have set: "st_Set R ?k (json_text j) (30 * second) r1 = (res, r')"
        using assms(3) get Inr info(1) json by (simp add: MarkInstanceOffline_def)
      have "instance_plain ?off" using info(3) by (simp add: instance_plain_def)
      then have rec: "record_ok B i (Some (RStr (json_text j)))" for B
        using written_record_ok [OF _ json, of B] info(2) by simp
      have ok: "instances_ok s (view r') A" using set_law [OF assms(1) set] instances_ok_set [OF ok1 rec] ok1 by auto
      show ?thesis using ok drop [OF ok] set_law [OF assms(1) set] rec by auto
    qed
  qed
qed

lemma assignment_cmds_frame: "fold apply_cmd (assignment_cmds s now a) m (instanceKey s i) = m (instanceKey s i)"
proof -
  have cmd: "fold apply_cmd cmds m (instanceKey s i) = m (instanceKey s i)"
    if "\<forall>c \<in> set cmds. \<forall>m. apply_cmd c m (instanceKey s i) = m (instanceKey s i)" for cmds m
    using that by (induction cmds arbitrary: m) auto
  have hset: "apply_cmd (CHSet (assignmentsKey s) f v) m (instanceKey s i) = m (instanceKey s i)" for f v m
    by (auto split: option.split rvalue.split)
  show ?thesis by (rule cmd) (auto simp: assignment_cmds_def simp del: apply_cmd.simps(3) intro: hset)
qed

lemma store_run_ok:
  assumes "store_laws R view" and "store_run R s view r A"
  shows "instances_ok s (view r) A"
  using assms(2)
proof (induction rule: store_run.induct)
  case (start r)
  then show ?case by (simp add: instances_ok_def record_ok_def)
next
  case (expiry r A r')
  then show ?case using instances_ok_shrink by blast
next
  case (register r A i now started res r')
  then show ?case using register_ok [OF assms(1)] by blast
next
  case (heartbeat r A i now started res r')
  then show ?case using heartbeat_ok [OF assms(1)] by blast
next
  case (offline r A now i r')
  then show ?case using offline_ok [OF assms(1)] by blast
next
  case (offline_failed r A now i e r')
  then show ?case using offline_ok [OF assms(1)] by blast
next
  case (assignments r A now a res r')
  obtain rep where "st_TxPipelined R (assignment_cmds s now a) r = (rep, r')"
    using assignments.hyps(2) by (auto simp: StoreAssignments_def split: prod.splits sum.splits)
  from tx_law [OF assms(1) this] show ?case
    using assignments.IH by (auto simp: instances_ok_def assignment_cmds_frame)
next
  case (window r A z key rs res r')
  have "view r' = view r \<or> (\<exists>v. view r' = (view r)(storeWindowKey s key \<mapsto> v))"
    using window.hyps(2) set_law [OF assms(1)]
    by (cases "records_json z rs") (fastforce simp: StorePartitionWindow_def split: if_splits)+
  then show ?case using window.IH by (auto simp: instances_ok_def)
qed

section \<open>What a scan lists\<close>

definition listed_ok :: "(string \<times> gotime) set \<Rightarrow> gotime \<Rightarrow> duration \<Rightarrow> string list \<Rightarrow> bool" where
  "listed_ok A now timeout instances \<longleftrightarrow> (\<forall>i \<in> set instances. \<exists>t. (i, t) \<in> A \<and> time_sub now t < timeout)"

lemma active_loop_listed:
  assumes "\<forall>cmd \<in> set cmds. \<forall>d. cmd = Inr d \<longrightarrow> (\<exists>i. record_ok A i (Some (RStr d)))"
    and "listed_ok A now timeout instances"
  shows "listed_ok A now timeout (active_loop now timeout cmds instances)"
  using assms
proof (induction now timeout cmds instances rule: active_loop.induct)
  case (3 now timeout data cmds instances)
  then obtain info where info: "unmarshal_instance data = Inr info"
    "ii_Status info = ''active'' \<longrightarrow> (ii_ID info, ii_LastHeartbeat info) \<in> A"
    by (fastforce simp: record_ok_def)
  let ?next = "if time_sub now (ii_LastHeartbeat info) < timeout \<and> ii_Status info = ''active''
    then instances @ [ii_ID info] else instances"
  have "listed_ok A now timeout ?next" using info(2) "3.prems"(2) by (auto simp: listed_ok_def)
  then show ?case using "3.IH"(2) [OF info(1)] "3.prems"(1) info(1) by simp
qed simp_all

lemma scan_loop_listed:
  assumes "store_laws R view" and "literal (instanceKey s [])"
    and "instances_ok s (view r) A" and "listed_ok A now timeout instances"
    and "scan_loop R (instanceKey s ''*'') now timeout n cursor instances r = ((ids, err), r')"
  shows "listed_ok A now timeout ids"
  using assms(3-)
proof (induction n arbitrary: cursor instances r)
  case (Suc n)
  have pattern: "instanceKey s ''*'' = instanceKey s [] @ ''*''" by (simp add: instanceKey_def)
  obtain reply r1 where scan: "st_Scan R cursor (instanceKey s ''*'') 100 r = (reply, r1)" by force
  have v1: "view r1 = view r" and keys: "\<And>ks c. reply = Inr (ks, c) \<Longrightarrow> \<forall>k \<in> set ks. \<exists>x. k = instanceKey s [] @ x"
    using scan_law [OF assms(1) scan [unfolded pattern]] assms(2) by blast+
  have empty: "listed_ok A now timeout []" by (simp add: listed_ok_def)
  show ?case
  proof (cases reply)
    case (Inl e)
    then show ?thesis using Suc.prems(3) scan empty by simp
  next
    case (Inr kc)
    then obtain ks c where r: "reply = Inr (ks, c)" by (cases kc) simp
    obtain out r2 where fetch: "fetch_batch R now timeout ks instances r1 = (out, r2)" by force
    have batch: "view r2 = view r1 \<and> (\<forall>found. out = Inr found \<longrightarrow> listed_ok A now timeout found)"
    proof (cases "ks = []")
      case True
      then show ?thesis using fetch Suc.prems(2) by (auto simp: fetch_batch_def)
    next
      case False
      obtain perr cmds r3 where pipe: "st_PipeGet R ks r1 = ((perr, cmds), r3)" by (metis surj_pair)
      have v3: "view r3 = view r1"
        and replies: "list_all2 (\<lambda>k rep. \<forall>v. rep = Inr v \<longrightarrow> view r1 k = Some (RStr v)) ks cmds"
        using pipe_law [OF assms(1) pipe] by blast+
      have "\<exists>i. record_ok A i (Some (RStr d))" if "Inr d \<in> set cmds" for d
      proof -
        obtain j where j: "j < length cmds" "cmds ! j = Inr d" using \<open>Inr d \<in> set cmds\<close> by (metis in_set_conv_nth)
        then have "ks ! j \<in> set ks" "view r1 (ks ! j) = Some (RStr d)"
          using replies by (simp_all add: list_all2_conv_all_nth)
        then obtain x where "ks ! j = instanceKey s x" using keys [OF r] by (auto simp: instanceKey_def)
        then show ?thesis using \<open>view r1 (ks ! j) = _\<close> Suc.prems(1) v1 unfolding instances_ok_def by metis
      qed
      then have "listed_ok A now timeout (active_loop now timeout cmds instances)"
        by (intro active_loop_listed) (use Suc.prems(2) in auto)
      then show ?thesis using fetch pipe False v3
        by (auto simp: fetch_batch_def split: option.splits if_splits)
    qed
    show ?thesis
    proof (cases out)
      case (Inl e)
      then show ?thesis using Suc.prems(3) scan r fetch empty by simp
    next
      case (Inr found)
      then have f: "listed_ok A now timeout found" using batch by blast
      show ?thesis
      proof (cases "c = 0")
        case True
        then show ?thesis using Suc.prems(3) scan r fetch Inr f by simp
      next
        case False
        then have "scan_loop R (instanceKey s ''*'') now timeout n c found r2 = ((ids, err), r')"
          using Suc.prems(3) scan r fetch Inr by simp
        moreover have "instances_ok s (view r2) A" using Suc.prems(1) v1 batch by simp
        ultimately show ?thesis by (intro Suc.IH [OF _ f])
      qed
    qed
  qed
qed simp

text \<open>C7: Whatever instances, windows and assignments did before, in whatever order and with whatever
  failures and expiries, an instance is listed as active only if an active record was written for
  it, by RegisterInstance or by a heartbeat that found no record, less than the timeout ago and
  after its last successful MarkInstanceOffline. A heartbeat of a registered instance does not
  count: with heartbeats alone an instance drops out of the list one timeout after it registered,
  and one that was marked offline stays out.\<close>

theorem active_means_registered_recently:
  assumes "store_laws R view" and "literal (instanceKey s [])"
    and "store_run R s view r A"
    and "GetActiveInstances R s now timeout r = ((ids, err), r')" and "i \<in> set ids"
  shows "\<exists>t. (i, t) \<in> A \<and> time_sub now t < timeout"
proof -
  have "listed_ok A now timeout ids"
    by (rule scan_loop_listed [OF assms(1,2) store_run_ok [OF assms(1,3)] _ assms(4) [unfolded GetActiveInstances_def]])
      (simp add: listed_ok_def)
  then show ?thesis using assms(5) by (simp add: listed_ok_def)
qed

section \<open>A concrete server\<close>

type_synonym sample_server = "(string \<times> rvalue) list"

fun alist_cmd :: "redis_cmd \<Rightarrow> sample_server \<Rightarrow> sample_server" where
  "alist_cmd (CDel k) r = AList.delete k r"
| "alist_cmd (CSet k v ttl) r = AList.update k (RStr v) r"
| "alist_cmd (CHSet k f v) r =
     (case map_of r k of
        None \<Rightarrow> AList.update k (RHash [(f, v)]) r
      | Some (RHash h) \<Rightarrow> AList.update k (RHash (AList.update f v h)) r
      | Some (RStr x) \<Rightarrow> r)"

definition sample_get :: "string \<Rightarrow> sample_server \<Rightarrow> string result" where
  "sample_get k r = (case map_of r k of
     None \<Rightarrow> Inl RedisNil | Some (RStr v) \<Rightarrow> Inr v | Some (RHash h) \<Rightarrow> Inl (ErrText ''WRONGTYPE''))"

definition sampleD :: "sample_server store_redis" where
  "sampleD = \<lparr>st_Get = (\<lambda>k r. (sample_get k r, r)),
     st_Set = (\<lambda>k v ttl r. (Inr (), AList.update k (RStr v) r)),
     st_Exists = (\<lambda>k r. (Inr (if map_of r k = None then 0 else 1), r)),
     st_Expire = (\<lambda>k ttl r. (Inr (), r)),
     st_Scan = (\<lambda>c p n r. (Inr (filter (\<lambda>k. take (length (butlast p)) k = butlast p) (map fst r), 0), r)),
     st_PipeGet = (\<lambda>ks r. ((None, map (\<lambda>k. sample_get k r) ks), r)),
     st_TxPipelined = (\<lambda>cmds r. (Inr (), fold alist_cmd cmds r)),
     st_HGetAll = (\<lambda>k r. (case map_of r k of None \<Rightarrow> Inr []
       | Some (RHash h) \<Rightarrow> Inr (AList.clearjunk h) | Some (RStr v) \<Rightarrow> Inl (ErrText ''WRONGTYPE''), r))\<rparr>"

text \<open>The transaction of the sample server works as the promise says; a hash is never a string.\<close>

lemma alist_cmds: "map_of (fold alist_cmd cmds r) = fold apply_cmd cmds (map_of r)"
proof -
  have "map_of (alist_cmd c r) = apply_cmd c (map_of r)" for c r
    by (cases c) (auto simp: update_conv' delete_conv' split: option.split rvalue.split)
  then show ?thesis by (induction cmds arbitrary: r) simp_all
qed


lemma sampleD_laws: "store_laws sampleD map_of"
proof -
  have get: "sample_get k r = Inr v \<Longrightarrow> map_of r k = Some (RStr v)"
    "sample_get k r = Inl RedisNil \<Longrightarrow> map_of r k = None" for k r v
    by (simp_all add: sample_get_def split: option.splits rvalue.splits)
  have "reads_ok sampleD map_of"
    unfolding reads_ok_def using get
    by (auto simp: sampleD_def map_of_clearjunk distinct_clearjunk split: option.splits rvalue.splits)
  moreover have "scans_ok sampleD map_of"
    unfolding scans_ok_def
  proof (intro conjI allI impI)
    fix c p n r rep r' assume "st_Scan sampleD c (p @ ''*'') n r = (rep, r')"
    then show "map_of r' = map_of r" by (simp add: sampleD_def)
  next
    fix c p n r rep r' ks c' assume "st_Scan sampleD c (p @ ''*'') n r = (rep, r')" and "rep = Inr (ks, c') \<and> literal p"
    then have "ks = filter (\<lambda>k. take (length p) k = p) (map fst r)" by (auto simp: sampleD_def butlast_append)
    then have "\<forall>k \<in> set ks. k = p @ drop (length p) k" by auto (metis append_take_drop_id)
    then show "\<forall>k \<in> set ks. \<exists>x. k = p @ x" by blast
  next
    fix ks r err reps r' assume "st_PipeGet sampleD ks r = ((err, reps), r')"
    then show "map_of r' = map_of r" "list_all2 (\<lambda>k rep. \<forall>v. rep = Inr v \<longrightarrow> map_of r k = Some (RStr v)) ks reps"
      using get by (auto simp: sampleD_def list_all2_conv_all_nth)
  qed
  moreover have "writes_ok sampleD map_of"
    unfolding writes_ok_def by (simp add: sampleD_def update_conv' alist_cmds)
  ultimately show ?thesis by (simp add: store_laws_def)
qed

definition sample_window :: "OffsetRecord list" where
  "sample_window = [\<lparr>or_Offset = 5, or_HighWatermark = 9, or_Lag = 4, or_CheckTimestamp = 0\<rparr>]"

theorem window_roundtrip_witness:
  "\<exists>r1. StorePartitionWindow sampleD UTC NewStateStoreWithClient ''g:t:0'' sample_window [] = (Inr (), r1) \<and>
     fst (GetPartitionWindow sampleD NewStateStoreWithClient ''g:t:0'' r1) = Inr (Some sample_window)"
proof -
  have "time_ok UTC 0" by code_simp
  then obtain r1 where run: "StorePartitionWindow sampleD UTC NewStateStoreWithClient ''g:t:0'' sample_window [] = (Inr (), r1)"
    by (simp add: StorePartitionWindow_def sample_window_def time_json_def sampleD_def)
  have "sample_window \<noteq> []" by (simp add: sample_window_def)
  from window_roundtrip [OF sampleD_laws UTC_ok this run refl]
  have "fst (GetPartitionWindow sampleD NewStateStoreWithClient ''g:t:0'' r1) = Inr (Some sample_window)"
  proof (elim disjE exE conjE)
    fix e assume e: "e \<noteq> RedisNil" "fst (GetPartitionWindow sampleD NewStateStoreWithClient ''g:t:0'' r1) =
      Inl (ErrWrap ''failed to get partition window: '' e)"
    have "map_of r1 (storeWindowKey NewStateStoreWithClient ''g:t:0'') \<noteq> None"
      using run \<open>time_ok UTC 0\<close>
      by (auto simp: StorePartitionWindow_def sample_window_def time_json_def sampleD_def update_conv')
    then show ?thesis using e run \<open>time_ok UTC 0\<close>
      by (auto simp: StorePartitionWindow_def sample_window_def time_json_def GetPartitionWindow_def sampleD_def
          sample_get_def errors_Is_nil_def update_conv' unmarshal_records_def unmarshal_def split: sum.splits)
  qed
  then show ?thesis using run by blast
qed

definition sample_assignments :: "(string \<times> string list option) list" where
  "sample_assignments = [(''i1'', Some [''g1'', ''g2'']), (''i2'', Some [])]"

definition sample_now :: gotime where "sample_now = 63000000000 * second"

lemma sample_store:
  "StoreAssignments sampleD NewStateStoreWithClient sample_now sample_assignments [] =
     (Inr (), fold alist_cmd (assignment_cmds NewStateStoreWithClient sample_now sample_assignments) [])"
  by (simp add: StoreAssignments_def sampleD_def)

lemma sample_assignments_ok: "valid_groups sample_assignments" "distinct (map fst sample_assignments)"
  "time_ok UTC sample_now" "time_unix sample_now = 864403200" "unix_time 864403200 = sample_now"
  by (simp_all add: valid_groups_def sample_assignments_def sample_now_def time_unix_def second_def
      unix_time_def wrap64_def) code_simp

lemma sample_hash:
  "\<exists>h. map_of (fold alist_cmd (assignment_cmds NewStateStoreWithClient sample_now sample_assignments) [])
     (assignmentsKey NewStateStoreWithClient) = Some (RHash h)"
  using assignment_cmds_view [OF sample_assignments_ok(2), of NewStateStoreWithClient sample_now Map.empty]
  by (auto simp: alist_cmds sample_assignments_def)

theorem assignments_roundtrip_witness:
  "\<exists>r1 a'. StoreAssignments sampleD NewStateStoreWithClient sample_now sample_assignments [] = (Inr (), r1) \<and>
     fst (GetAssignments sampleD NewStateStoreWithClient (sample_now + 60 * second) r1) = Inr a' \<and>
     map_of a' ''i1'' = Some (Some [''g1'', ''g2''])"
proof -
  let ?s = NewStateStoreWithClient
  let ?r1 = "fold alist_cmd (assignment_cmds ?s sample_now sample_assignments) []"
  have age: "time_sub (sample_now + 60 * second) (unix_time (time_unix sample_now)) \<le> sc_AssignmentTimeout ?s"
    by (simp add: sample_assignments_ok time_sub_def NewStateStoreWithClient_def minute_def second_def)
  obtain h where h: "map_of ?r1 (assignmentsKey ?s) = Some (RHash h)" using sample_hash by blast
  have no_error: "fst (GetAssignments sampleD ?s (sample_now + 60 * second) ?r1) \<noteq>
      Inl (ErrWrap ''failed to get assignments: '' e)" for e
    using h by (auto simp: GetAssignments_def sampleD_def Let_def)
  have "\<exists>a'. fst (GetAssignments sampleD ?s (sample_now + 60 * second) ?r1) = Inr a' \<and>
      map_of a' = map_of sample_assignments"
    using assignments_roundtrip [OF sampleD_laws sample_assignments_ok(1,2) sample_store refl refl
        sample_assignments_ok(3) age] no_error by blast
  then show ?thesis using sample_store by (auto simp: sample_assignments_def)
qed


text \<open>An instance that registers and then sends a heartbeat after three minutes.\<close>

theorem active_means_registered_recently_witness:
  "\<exists>r1 r2. RegisterInstance sampleD NewStateStoreWithClient sample_now sample_now ''i1'' [] = (Inr (), r1) \<and>
     UpdateHeartbeat sampleD NewStateStoreWithClient (sample_now + 3 * minute) (sample_now + 3 * minute) ''i1'' r1 =
       (Inr (), r2) \<and>
     fst (fst (GetActiveInstances sampleD NewStateStoreWithClient (sample_now + 3 * minute) (2 * minute) r2)) = []"
proof -
  let ?s = NewStateStoreWithClient
  have ok: "time_ok UTC sample_now" by (rule sample_assignments_ok)
  obtain r1 where reg: "RegisterInstance sampleD ?s sample_now sample_now ''i1'' [] = (Inr (), r1)"
    using ok by (simp add: RegisterInstance_def instance_json_def time_json_def sampleD_def)
  have found: "map_of r1 (instanceKey ?s ''i1'') \<noteq> None"
    using reg ok by (auto simp: RegisterInstance_def instance_json_def time_json_def sampleD_def update_conv')
  then have beat: "UpdateHeartbeat sampleD ?s (sample_now + 3 * minute) (sample_now + 3 * minute) ''i1'' r1 = (Inr (), r1)"
    by (auto simp: UpdateHeartbeat_def sampleD_def Let_def)
  have id: "valid_utf8 ''i1''" by simp
  have "store_run sampleD ?s map_of [] {}" by (rule store_run.start) simp
  from store_run.heartbeat [OF store_run.register [OF this id reg] id beat] found
  have run: "store_run sampleD ?s map_of r1 {(''i1'', sample_now)}" by simp
  obtain ids err r3 where scan: "GetActiveInstances sampleD ?s (sample_now + 3 * minute) (2 * minute) r1 = ((ids, err), r3)"
    by (metis surj_pair)
  have lit: "literal (instanceKey ?s [])" by (simp add: literal_def instanceKey_def NewStateStoreWithClient_def)
  have "i \<notin> set ids" for i
  proof
    assume "i \<in> set ids"
    from active_means_registered_recently [OF sampleD_laws lit run scan this]
    show False by (simp add: time_sub_def minute_def second_def)
  qed
  then have "ids = []" by (cases ids) auto
  then show ?thesis using reg beat scan by auto
qed

end
