(* ===== verification/Rebalance.thy ===== *)
theory Rebalance
  imports Sharding State_Store
begin

text \<open>
  Distributing the groups: the assignment of distributed/coordinator/sharding.go kept in the state
  store of distributed/state/state_store.go.
\<close>

text \<open>The slices an assignment makes are never nil.\<close>

definition stored_form :: "assignments \<Rightarrow> (string \<times> string list option) list" where
  "stored_form a = map (\<lambda>(inst, groups). (inst, Some groups)) a"

lemma stored_form_simps [simp]:
  "map fst (stored_form a) = map fst a" "map_of (stored_form a) i = map_option Some (map_of a i)"
  by (induction a) (auto simp: stored_form_def)

lemma stored_form_valid:
  assumes "\<forall>g \<in> set (concat (map snd a)). valid_utf8 g"
  shows "valid_groups (stored_form a)"
  using assms by (fastforce simp: valid_groups_def stored_form_def)

text \<open>C12: An assignment of distinct groups that is computed, stored, and read by whichever instance
  before it expires tells all readers the same: every group is assigned to exactly one instance,
  which is one of those it was computed for.\<close>

theorem rebalance_reaches_readers:
  assumes "ring_ok ring" and "AssignGroups ring sh gids instances = Ret a" and "instances \<noteq> []"
    and "distinct gids" and "\<forall>g \<in> set gids. valid_utf8 g"
    and "store_laws R view"
    and "StoreAssignments R s now (stored_form a) r = (Inr (), r1)"
    and "view r2 (assignmentsKey s) = view r1 (assignmentsKey s)"
    and "view r2 (assignmentsTimestampKey s) = view r1 (assignmentsTimestampKey s)"
    and "time_ok UTC now" and "time_sub now' (unix_time (time_unix now)) \<le> sc_AssignmentTimeout s"
    and "fst (GetAssignments R s now' r2) = Inr a'" and "g \<in> set gids"
  shows "(\<exists>!inst. \<exists>gs. map_of a' inst = Some (Some gs) \<and> g \<in> set gs) \<and>
    (\<forall>inst gs. map_of a' inst = Some (Some gs) \<and> g \<in> set gs \<longrightarrow> inst \<in> set instances)"
proof -
  have dist: "distinct (map fst a)" using hashing.assign_distinct [OF assms(1,2)] .
  have "set (concat (map snd a)) = set gids"
    using hashing.assign_groups [OF assms(1-3)] by (metis set_mset_mset)
  then have "valid_groups (stored_form a)" using assms(5) by (intro stored_form_valid) simp
  then have same: "map_of a' = map_of (stored_form a)"
    using assignments_recovered [OF assms(6) _ _ assms(7-11)] dist assms(12) by auto
  have "\<exists>inst gs. map_of a inst = Some gs \<and> g \<in> set gs \<and> inst \<in> set instances"
    by (rule hashing.every_group_has_an_instance [OF assms(1-3,13)])
  moreover have "i1 = i2" if "map_of a i1 = Some gs1" "g \<in> set gs1" "map_of a i2 = Some gs2" "g \<in> set gs2" for i1 i2 gs1 gs2
    using hashing.no_group_twice [OF assms(1-4) that(1,3,2,4)] .
  ultimately show ?thesis unfolding same by auto
qed

theorem rebalance_reaches_readers_witness:
  "\<exists>r1 a'. StoreAssignments sampleD NewStateStoreWithClient sample_now
       (stored_form [(''a'', [''g'', ''h'']), (''b'', [])]) [] = (Inr (), r1) \<and>
     fst (GetAssignments sampleD NewStateStoreWithClient (sample_now + minute) r1) = Inr a' \<and>
     (\<exists>!inst. \<exists>gs. map_of a' inst = Some (Some gs) \<and> ''h'' \<in> set gs)"
proof -
  let ?s = NewStateStoreWithClient
  let ?a = "[(''a'', [''g'', ''h'']), (''b'', [])]"
  let ?r1 = "fold alist_cmd (assignment_cmds ?s sample_now (stored_form ?a)) []"
  have run: "AssignGroups first_ring NewConsistentHashSharding [''g'', ''h''] [''a'', ''b''] = Ret ?a"
    by (simp add: AssignGroups_def first_ring_def)
  have stored: "StoreAssignments sampleD ?s sample_now (stored_form ?a) [] = (Inr (), ?r1)"
    by (simp add: StoreAssignments_def sampleD_def)
  have age: "time_sub (sample_now + minute) (unix_time (time_unix sample_now)) \<le> sc_AssignmentTimeout ?s"
    by (simp add: sample_assignments_ok time_sub_def NewStateStoreWithClient_def minute_def second_def)
  have ascii: "\<forall>g \<in> set [''g'', ''h'']. valid_utf8 g" by simp
  have plain: "valid_groups (stored_form ?a)" by (simp add: valid_groups_def stored_form_def)
  obtain h where h: "map_of ?r1 (assignmentsKey ?s) = Some (RHash h)"
    using assignment_cmds_view [of "stored_form ?a" ?s sample_now Map.empty]
    by (auto simp: alist_cmds stored_form_def)
  have "fst (GetAssignments sampleD ?s (sample_now + minute) ?r1) \<noteq>
      Inl (ErrWrap ''failed to get assignments: '' e)" for e
    using h by (auto simp: GetAssignments_def sampleD_def Let_def)
  then obtain a' where a': "fst (GetAssignments sampleD ?s (sample_now + minute) ?r1) = Inr a'"
    using assignments_recovered [OF sampleD_laws plain _ stored refl refl sample_assignments_ok(3) age]
    by auto
  show ?thesis
    using rebalance_reaches_readers [OF first_ring_ok run _ _ ascii sampleD_laws stored refl refl
        sample_assignments_ok(3) age a', of "''h''"] stored a' by auto
qed

end
