(* ===== verification/Distributed_Config.thy ===== *)
theory Distributed_Config
  imports Sharding State_Store
begin

text \<open>
  The settings of distributed/distributed_configs.go that no code of the repository reads yet; the
  settings of the state store and of the sharding stand with the components that use them.  The
  package has its own Redis and hash settings beside those of internal/rca and coordinator.
\<close>

record DistributedRedisConfig =
  dr_Addr :: string
  dr_Password :: string
  dr_DB :: int
  dr_DialTimeout :: duration
  dr_ReadTimeout :: duration
  dr_WriteTimeout :: duration
  dr_PoolSize :: int

record LeaderElectionConfig =
  le_Enabled :: bool
  le_LockKey :: string
  le_LockTTL :: duration
  le_RenewPeriod :: duration
  le_GracePeriod :: duration

record DistributedHashConfig =
  dh_RebalanceInterval :: duration
  dh_PartitionCount :: int
  dh_ReplicationFactor :: int
  dh_Load :: f64

record InstanceWatchConfig =
  iw_Enabled :: bool
  iw_CheckInterval :: duration
  iw_DownThreshold :: duration

record CoordinatorConfig =
  cd_LeaderElection :: LeaderElectionConfig
  cd_Sharding :: DistributedHashConfig
  cd_InstanceWatch :: InstanceWatchConfig

record DistributedConfig =
  dc_Enabled :: bool
  dc_InstanceID :: string
  dc_Redis :: DistributedRedisConfig
  dc_Coordinator :: CoordinatorConfig
  dc_StateStore :: StateStoreConfig
  dc_Collector :: Config

end
