(* ===== verification/Config_Load.thy ===== *)
theory Config_Load
  imports Commands
begin

text \<open>
  Loading the configurations (cmd/monitor/main.go, internal/rca/config.go).  The files and the
  environment are functions; decoding the YAML text is an argument.
\<close>

section \<open>\<open>os.ExpandEnv\<close>\<close>

definition isShellSpecialVar :: "char \<Rightarrow> bool" where
  "isShellSpecialVar c \<longleftrightarrow> c \<in> set ''*#$@!?-0123456789''"

definition isAlphaNum :: "char \<Rightarrow> bool" where
  "isAlphaNum c \<longleftrightarrow> c = CHR ''_'' \<or> is_digit c \<or>
     97 \<le> (of_char c :: int) \<and> (of_char c :: int) \<le> 122 \<or> 65 \<le> (of_char c :: int) \<and> (of_char c :: int) \<le> 90"

text \<open>The name of a variable and the number of bytes it takes up after the dollar sign.\<close>

definition getShellName :: "string \<Rightarrow> string \<times> nat" where
  "getShellName s =
     (if s \<noteq> [] \<and> hd s = CHR ''{''
      then if 2 < length s \<and> isShellSpecialVar (s ! 1) \<and> s ! 2 = CHR ''}'' then ([s ! 1], 3)
           else let name = takeWhile (\<lambda>c. c \<noteq> CHR ''}'') (tl s)
                in if length name = length (tl s) then ('''', 1)
                   else if name = '''' then ('''', 2)
                   else (name, length name + 2)
      else if s \<noteq> [] \<and> isShellSpecialVar (hd s) then ([hd s], 1)
      else let name = takeWhile isAlphaNum s in (name, length name))"

fun Expand :: "(string \<Rightarrow> string) \<Rightarrow> string \<Rightarrow> string" where
  "Expand mapping [] = []"
| "Expand mapping (c # s) =
     (if c = CHR ''$'' \<and> s \<noteq> []
      then let (name, w) = getShellName s; rest = Expand mapping (drop w s)
           in if name = '''' \<and> 0 < w then rest
              else if name = '''' then c # rest
              else mapping name @ rest
      else c # Expand mapping s)"

text \<open>Text without a dollar sign is left alone, and a braced name is replaced by its value.\<close>

lemma Expand_plain: "CHR ''$'' \<notin> set s \<Longrightarrow> Expand mapping s = s"
  by (induction s) auto

lemma getShellName_braced:
  assumes "name \<noteq> []" and "CHR ''}'' \<notin> set name"
  shows "getShellName (CHR ''{'' # name @ CHR ''}'' # s) = (name, length name + 2)"
proof -
  have "takeWhile (\<lambda>c. c \<noteq> CHR ''}'') (name @ CHR ''}'' # s) = name"
    using assms(2) by (subst takeWhile_append2) auto
  moreover have "length name = 1" if "(name @ CHR ''}'' # s) ! 1 = CHR ''}''"
    using that assms by (cases name; cases "tl name") auto
  ultimately show ?thesis using assms
    by (cases name; cases "tl name") (auto simp: getShellName_def Let_def)
qed

lemma Expand_braced:
  assumes "name \<noteq> []" and "CHR ''}'' \<notin> set name"
  shows "Expand mapping (''${'' @ name @ ''}'' @ s) = mapping name @ Expand mapping s"
  using assms by (simp add: getShellName_braced)

section \<open>The configuration files\<close>

record file_env =
  fe_Getenv :: "string \<Rightarrow> string"
  fe_Stat :: "string \<Rightarrow> unit result"
  fe_ReadFile :: "string \<Rightarrow> string result"

definition LoadConfig :: "(string \<Rightarrow> 'c result) \<Rightarrow> file_env \<Rightarrow> string \<Rightarrow> 'c result" where
  "LoadConfig yaml fe path =
     (case fe_ReadFile fe path of
        Inl e \<Rightarrow> Inl (ErrWrap ''failed to read config file: '' e)
      | Inr data \<Rightarrow>
          (case yaml (Expand (fe_Getenv fe) data) of
             Inl e \<Rightarrow> Inl (ErrWrap ''failed to parse config: '' e)
           | Inr config \<Rightarrow> Inr config))"

definition loadConfig :: "(string \<Rightarrow> 'c result) \<Rightarrow> file_env \<Rightarrow> string \<Rightarrow> 'c result" where
  "loadConfig yaml fe filename =
     (case fe_ReadFile fe filename of
        Inl e \<Rightarrow> Inl (ErrWrap ''failed to read config file: '' e)
      | Inr data \<Rightarrow>
          (case yaml data of
             Inl e \<Rightarrow> Inl (ErrWrap ''failed to parse config: '' e)
           | Inr config \<Rightarrow> Inr config))"

text \<open>The file the monitor takes; the empty name is none.\<close>

fun first_file :: "file_env \<Rightarrow> string list \<Rightarrow> string" where
  "first_file fe [] = ''''"
| "first_file fe (path # paths) =
     (case fe_Stat fe path of Inr _ \<Rightarrow> path | Inl _ \<Rightarrow> first_file fe paths)"

definition find_config :: "file_env \<Rightarrow> string" where
  "find_config fe =
     (let configFile = fe_Getenv fe ''CONFIG_FILE''
      in if configFile = ''''
         then first_file fe [''config.yaml'', ''config.dev.yaml'', ''config.prod.yaml'',
           ''/app/config.yaml'', ''/app/config.dev.yaml'']
         else configFile)"

text \<open>The whole program.\<close>

definition monitor_program ::
  "(string \<Rightarrow> AppConfig result) \<Rightarrow> file_env \<Rightarrow> 'r redis \<Rightarrow> 'r startup \<Rightarrow> (string \<Rightarrow> go_error option) \<Rightarrow> ending" where
  "monitor_program yaml fe R env listen =
     (let configFile = find_config fe
      in if configFile = ''''
         then Exit ''No config file found. Set CONFIG_FILE environment variable or place config.yaml in working directory'' []
         else case loadConfig yaml fe configFile of
           Inl e \<Rightarrow> Exit (''Failed to load config: '' @ err_string e) []
         | Inr config \<Rightarrow>
             (case main_start R env config of
                Fatal msg \<Rightarrow> Exit msg []
              | Serving m effs \<Rightarrow> serve_until_signal listen config m effs))"

text \<open>The two loaders agree on files without a dollar sign,
  where expansion changes nothing.\<close>

lemma loaders_agree:
  "(\<forall>data. fe_ReadFile fe path = Inr data \<longrightarrow> CHR ''$'' \<notin> set data) \<Longrightarrow>
     LoadConfig yaml fe path = loadConfig yaml fe path"
  by (simp add: LoadConfig_def loadConfig_def Expand_plain split: sum.split)

lemma first_file_exists:
  "first_file fe files \<noteq> '''' \<Longrightarrow> first_file fe files \<in> set files \<and> fe_Stat fe (first_file fe files) = Inr ()"
  by (induction files) (auto split: sum.splits)

text \<open>A monitor that was stopped by a signal has read and decoded a file, the one the environment names
  when it names one, without expanding variables in it.\<close>

lemma serving_has_config:
  assumes "monitor_program yaml fe R env listen = Done effs"
  obtains path data config m effs0 where "fe_ReadFile fe path = Inr data" and "yaml data = Inr config"
    and "fe_Getenv fe ''CONFIG_FILE'' \<in> {'''', path}" and "main_start R env config = Serving m effs0"
    and "serve_until_signal listen config m effs0 = Done effs"
  using assms
  by (auto simp: monitor_program_def loadConfig_def find_config_def Let_def split: if_splits sum.splits outcome.splits)

section \<open>The event consumer\<close>

text \<open>The whole program, with the value of its flag; \<open>ctxErr\<close> is the error of the context that the
  signal cancels, after \<open>n\<close> batches.\<close>

definition rca_program ::
  "(string \<Rightarrow> RcaConfig result) \<Rightarrow> file_env \<Rightarrow> 'w stream_redis \<Rightarrow> (string \<Rightarrow> 'w \<Rightarrow> 'w) \<Rightarrow> string \<Rightarrow>
     go_error \<Rightarrow> nat \<Rightarrow> 'w \<Rightarrow> string option \<times> 'w" where
  "rca_program yaml fe S log_line configPath ctxErr n w =
     rca_main S log_line (LoadConfig yaml fe configPath) ctxErr n w"

lemma consume_loop_error: "fst (consume_loop S c ctxErr n w) = Inl ctxErr"
  by (induction n arbitrary: w) simp_all


text \<open>A start on a new group, stopped after two batches.\<close>

definition fresh_group :: "sample_stream stream_redis" where
  "fresh_group = sampleS\<lparr>sd_XGroupCreateMkStream := \<lambda>s g i w. (Inr (), w)\<rparr>"

definition sample_files :: file_env where
  "sample_files = \<lparr>fe_Getenv = (\<lambda>name. ''''), fe_Stat = (\<lambda>path. Inr ()), fe_ReadFile = (\<lambda>path. Inr ''x'')\<rparr>"


end
