(* ===== verification/Collector_Report.thy ===== *)
theory Collector_Report
  imports Collector_Periodic
begin

text \<open>
  What the collector (internal/collector/collector.go) stores can be reported: every rate is a finite
  number and every instant one that the clock gave, or the zero instant.
\<close>

section \<open>Finite numbers\<close>

fun finite64 :: "f64 \<Rightarrow> bool" where
  "finite64 (FFin q) = True"
| "finite64 _ = False"

lemma finite64_iff: "finite64 x \<longleftrightarrow> (\<exists>q. x = FFin q)"
  by (cases x) auto

lemma rval_limits: "rval 1 = 1" "rval (2 ^ 63) = 2 ^ 63" "rval (1 / 2 ^ 30) = 1 / 2 ^ 30" "rval (2 ^ 64) = 2 ^ 64"
  by (simp_all add: f64_eval)

text \<open>An \<open>int64\<close> as a float.\<close>

lemma f_of_int_far:
  assumes "\<bar>n\<bar> \<le> 2 ^ 63"
  shows "f_of_int n = FFin (rval (of_int n)) \<and> \<bar>rval (of_int n)\<bar> \<le> 2 ^ 63"
proof -
  have "\<bar>of_int n :: rat\<bar> = of_int \<bar>n\<bar>" by simp
  also have "\<dots> \<le> of_int (2 ^ 63)" using assms by (simp only: of_int_le_iff)
  finally have n: "\<bar>of_int n :: rat\<bar> \<le> 2 ^ 63" by simp
  then have "round64 (of_int n) = FFin (rval (of_int n))" by (intro round64_far) simp
  moreover have "rval \<bar>of_int n\<bar> \<le> 2 ^ 63" by (rule rval_le [OF rval_limits(2) n])
  moreover have "\<bar>rval q\<bar> = rval \<bar>q\<bar>" for q
    using rval_nonneg [of q] rval_nonneg [of "- q"] by (cases "0 \<le> q") (simp_all add: abs_if)
  ultimately show ?thesis by (simp add: f_of_int_def)
qed

text \<open>A duration that is not zero has at least \<open>2 ^ -30\<close> seconds: dividing by it stays finite.\<close>

lemma dur_seconds_pos:
  assumes "0 < d" and "d \<le> 2 ^ 63"
  shows "\<exists>v. dur_seconds d = FFin v \<and> 1 / 2 ^ 30 \<le> v"
proof -
  define s n where "s = d div second" and "n = d mod second"
  have parts: "trunc_div d second = s" "trunc_mod d second = n"
    using assms by (simp_all add: trunc_div_def trunc_mod_def s_def n_def second_def minus_div_mult_eq_mod)
  have s: "0 \<le> s" "s \<le> 2 ^ 63" using assms by (simp_all add: s_def second_def)
  have n: "0 \<le> n" "n < 1000000000" by (simp_all add: n_def second_def)
  have "f_of_int n = FFin (of_int n)" "f_of_int second = FFin 1000000000"
    using f_of_int_exact [of n] f_of_int_exact [of second] n by (simp_all add: second_def)
  moreover define q where "q = (of_int n :: rat) / 1000000000"
  moreover have q: "0 \<le> q" "q \<le> 1" using n by (simp_all add: q_def)
  moreover have "round64 q = FFin (rval q)" using q by (intro round64_far) simp
  ultimately have frac: "f_div (f_of_int n) (f_of_int second) = FFin (rval q)" by (simp del: eq_divide_eq_numeral1)
  have whole: "f_of_int s = FFin (rval (of_int s))" "0 \<le> rval (of_int s :: rat)" "rval (of_int s :: rat) \<le> 2 ^ 63"
    using f_of_int_far [of s] s rval_nonneg [of "of_int s"] by simp_all
  let ?v = "rval (of_int s) + rval q"
  have q1: "rval q \<le> 1" by (rule rval_le [OF rval_limits(1) q(2)])
  have "?v \<le> 2 ^ 64" using whole(3) q1 by simp
  moreover have low: "1 / 2 ^ 30 \<le> ?v"
  proof (cases "s = 0")
    case True
    then have "1 \<le> n" using assms(1) n mult_div_mod_eq [of second d] by (simp add: s_def n_def)
    then have "1 / 2 ^ 30 \<le> q" by (simp add: q_def)
    then show ?thesis using rval_ge [OF rval_limits(3)] whole(2) by fastforce
  next
    case False
    then have "1 \<le> rval (of_int s :: rat)" using s(1) by (intro rval_ge [OF rval_limits(1)]) simp
    then show ?thesis using rval_nonneg [OF q(1)] by simp
  qed
  ultimately have "round64 ?v = FFin (rval ?v)" by (intro round64_far) simp
  moreover have "1 / 2 ^ 30 \<le> rval ?v" by (rule rval_ge [OF rval_limits(3) low])
  ultimately show ?thesis by (simp add: dur_seconds_def parts frac whole(1))
qed

lemma f_neg_ops:
  "f_add (f_neg x) (f_neg y) = f_neg (f_add x y)" "f_div (f_neg x) y = f_neg (f_div x y)"
  "f_of_int (- n) = f_neg (f_of_int n)"
proof -
  show "f_add (f_neg x) (f_neg y) = f_neg (f_add x y)"
    using round64_minus [of "a + b" for a b] by (cases x; cases y) (simp_all add: algebra_simps)
  show "f_div (f_neg x) y = f_neg (f_div x y)"
    by (cases x; cases y) (simp_all add: round64_minus f_inf_signed_def)
  show "f_of_int (- n) = f_neg (f_of_int n)" by (simp add: f_of_int_def round64_minus)
qed

lemma dur_seconds_minus: "dur_seconds (- d) = f_neg (dur_seconds d)"
proof -
  have "trunc_div (- d) second = - trunc_div d second" by (simp add: trunc_div_def)
  moreover from this have "trunc_mod (- d) second = - trunc_mod d second" by (simp add: trunc_mod_def)
  ultimately show ?thesis by (simp add: dur_seconds_def f_neg_ops)
qed

lemma dur_seconds_far:
  assumes "\<bar>d\<bar> \<le> 2 ^ 63"
  shows "\<exists>v. dur_seconds d = FFin v \<and> (v = 0 \<or> 1 / 2 ^ 30 \<le> \<bar>v\<bar>)"
proof (cases d "0::int" rule: linorder_cases)
  case less
  then obtain v where "dur_seconds (- d) = FFin v" "1 / 2 ^ 30 \<le> v" using dur_seconds_pos [of "- d"] assms by auto
  then show ?thesis using dur_seconds_minus [of "- d"] by auto
next
  case equal
  then show ?thesis by (simp add: dur_seconds_def trunc_div_def trunc_mod_def f_of_int_def second_def f64_eval)
next
  case greater
  then show ?thesis using dur_seconds_pos [of d] assms by fastforce
qed

lemma quotient_finite:
  assumes "\<bar>n\<bar> \<le> 2 ^ 63" and "1 / 2 ^ 30 \<le> \<bar>v\<bar>"
  shows "finite64 (f_div (f_of_int n) (FFin v))"
proof -
  obtain a where a: "f_of_int n = FFin a" "\<bar>a\<bar> \<le> 2 ^ 63" using f_of_int_far [OF assms(1)] by auto
  have "\<bar>a / v\<bar> = \<bar>a\<bar> / \<bar>v\<bar>" by simp
  also have "\<dots> \<le> 2 ^ 63 / (1 / 2 ^ 30)" using a(2) assms(2) by (intro frac_le) simp_all
  also have "\<dots> \<le> 2 ^ 100" by simp
  finally have "round64 (a / v) = FFin (rval (a / v))" by (rule round64_far)
  moreover have "v \<noteq> 0" using assms(2) by auto
  ultimately show ?thesis by (simp add: a(1))
qed

section \<open>What is evaluated\<close>

lemma time_sub_range: "\<bar>time_sub t u\<bar> \<le> 2 ^ 63"
  by (simp add: time_sub_def)

lemma rates_finite: "finite64 (calculateConsumptionRate rs)" "finite64 (calculateLagChangeRate rs)"
proof -
  let ?d = "time_sub (or_CheckTimestamp (last rs)) (or_CheckTimestamp (rs ! 0))"
  have q: "finite64 (f_div (f_of_int (sint w)) (dur_seconds ?d))" if "\<not> f_eq (dur_seconds ?d) (FFin 0)" for w :: i64
  proof -
    obtain v where v: "dur_seconds ?d = FFin v" "v = 0 \<or> 1 / 2 ^ 30 \<le> \<bar>v\<bar>"
      using dur_seconds_far [OF time_sub_range] by blast
    have "\<bar>sint w\<bar> \<le> 2 ^ 63" using sint_i64_range [of w] by linarith
    then show ?thesis using quotient_finite that v by auto
  qed
  show "finite64 (calculateConsumptionRate rs)" "finite64 (calculateLagChangeRate rs)"
    using q by (auto simp: calculateConsumptionRate_def calculateLagChangeRate_def Let_def)
qed

lemma completeness_finite:
  assumes "0 < n" and "n \<le> w" and "w < 2 ^ 63"
  shows "finite64 (f_mul (f_div (f_of_int n) (f_of_int w)) (FFin 100))"
proof -
  have f: "f_of_int n = FFin (rval (of_int n))" "f_of_int w = FFin (rval (of_int w))"
    using f_of_int_far [of n] f_of_int_far [of w] assms by simp_all
  have ge: "1 \<le> rval (of_int n :: rat)" using assms(1) by (intro rval_ge [OF rval_limits(1)]) simp
  have le: "rval (of_int n :: rat) \<le> rval (of_int w)" using assms(2) by (intro rval_mono) simp
  define q where "q = rval (of_int n :: rat) / rval (of_int w)"
  have q: "0 \<le> q" "q \<le> 1" using ge le by (simp_all add: q_def)
  have r: "round64 q = FFin (rval q)" using q by (intro round64_far) simp
  have "rval q \<le> 1" "0 \<le> rval q" using rval_le [OF rval_limits(1) q(2)] rval_nonneg [OF q(1)] by simp_all
  then have "round64 (rval q * 100) = FFin (rval (rval q * 100))" by (intro round64_far) simp
  then show ?thesis using ge le r by (simp add: f q_def)
qed


definition reportable :: "(gotime \<Rightarrow> bool) \<Rightarrow> PartitionConsumerStatus \<Rightarrow> bool" where
  "reportable T st \<longleftrightarrow> finite64 (ps_ConsumptionRate st) \<and> finite64 (ps_LagChangeRate st) \<and>
     finite64 (ps_WindowCompleteness st) \<and> is_f64 (ps_ConsumptionRate st) \<and> is_f64 (ps_LagChangeRate st) \<and>
     is_f64 (ps_WindowCompleteness st) \<and> T (ps_LastUpdateTime st)"

lemma reportable_no_offset: "T 0 \<Longrightarrow> reportable T (no_offset_status g tpo hw)"
  by (simp add: reportable_def no_offset_status_def zero_PartitionConsumerStatus_def)

lemma reportable_evaluate:
  assumes "T (if rs = [] then 0 else or_CheckTimestamp (last rs))" and "int (length rs) \<le> cfg_WindowSize cfg" and "cfg_WindowSize cfg < 2 ^ 63"
  shows "reportable T (EvaluatePartitionConsumer cfg rs g t p)"
proof (cases rs)
  case Nil
  then show ?thesis using assms(1)
    by (simp add: reportable_def EvaluatePartitionConsumer_def zero_PartitionConsumerStatus_def)
next
  case (Cons r rs')
  have "finite64 (f_mul (f_div (f_of_int (int (length rs))) (f_of_int (cfg_WindowSize cfg))) (FFin 100))"
    using Cons assms(2,3) by (intro completeness_finite) simp_all
  moreover have "ps_ConsumptionRate (determineTrend cfg st rs) = ps_ConsumptionRate st"
      "ps_LagChangeRate (determineTrend cfg st rs) = ps_LagChangeRate st"
      "ps_WindowCompleteness (determineTrend cfg st rs) = ps_WindowCompleteness st"
      "ps_LastUpdateTime (determineTrend cfg st rs) = ps_LastUpdateTime st" for st
    by (simp_all add: determineTrend_def)
  moreover have "length rs \<noteq> 0" "(if rs = [] then 0 else or_CheckTimestamp (last rs)) = or_CheckTimestamp (last rs)"
    using Cons by simp_all
  ultimately show ?thesis using assms(1) evaluate_floats [of cfg rs g t p] unfolding reportable_def
    by (simp add: EvaluatePartitionConsumer_def zero_PartitionConsumerStatus_def determineHealth_def
        calculateMetrics_def Let_def rates_finite)
qed

lemma reportable_added:
  assumes "windows_ok cfg ws" and "cfg_WindowSize cfg < 2 ^ 63" and "T 0" and "T (or_CheckTimestamp r)"
  shows "reportable T (EvaluatePartitionConsumer cfg (getWindowRecords (add_window cfg ws k r) k) g t p)"
proof (rule reportable_evaluate [OF _ _ assms(2)])
  have rs: "getWindowRecords (add_window cfg ws k r) k = lastn (nat (cfg_WindowSize cfg)) (getWindowRecords ws k @ [r])"
    by (rule getWindowRecords_add_same [OF assms(1)])
  show "T (if getWindowRecords (add_window cfg ws k r) k = [] then 0
    else or_CheckTimestamp (last (getWindowRecords (add_window cfg ws k r) k)))"
    using assms(3,4) unfolding rs lastn_snoc by simp
  have "0 \<le> cfg_WindowSize cfg" using assms(1) by (simp add: windows_ok_def)
  then show "int (length (getWindowRecords (add_window cfg ws k r) k)) \<le> cfg_WindowSize cfg"
    unfolding rs by (simp add: lastn_def)
qed

section \<open>What a run stores\<close>

definition group_reportable :: "(gotime \<Rightarrow> bool) \<Rightarrow> GroupStatus \<Rightarrow> bool" where
  "group_reportable T gs \<longleftrightarrow> T (gs_LastUpdateTime gs) \<and> (\<forall>st \<in> set (all_partitions gs). reportable T st)"

text \<open>Everything the clock says in a round, and in a run.\<close>

definition readings :: "kafka_env \<Rightarrow> gotime set" where
  "readings env = range (ke_GroupNow env) \<union> {ke_Now env i j | i j. True}"

definition run_readings :: "kafka_env \<Rightarrow> tick list \<Rightarrow> gotime set" where
  "run_readings env ticks = readings env \<union> (\<Union>e \<in> {e. \<exists>order. CollectTick e order \<in> set ticks}. readings e)"

definition clock_ok :: "(gotime \<Rightarrow> bool) \<Rightarrow> kafka_env \<Rightarrow> bool" where
  "clock_ok T env \<longleftrightarrow> (\<forall>t \<in> readings env. T t)"

lemma clock_ok_at: "clock_ok T env \<Longrightarrow> T (ke_GroupNow env i) \<and> T (ke_Now env i j)"
  by (auto simp: clock_ok_def readings_def)

definition store_reportable :: "(gotime \<Rightarrow> bool) \<Rightarrow> 'h Collector \<Rightarrow> bool" where
  "store_reportable T c \<longleftrightarrow> (\<forall>(g, gs) \<in> set (co_statusStore c). group_reportable T gs)"

definition report_inv :: "(gotime \<Rightarrow> bool) \<Rightarrow> 'h Collector \<Rightarrow> bool" where
  "report_inv T c \<longleftrightarrow> windows_ok (co_config c) (co_windows c) \<and> cfg_WindowSize (co_config c) < 2 ^ 63 \<and> store_reportable T c"

lemma report_inv_emit [simp]: "report_inv T (emit ops c) = report_inv T c"
  by (simp add: report_inv_def store_reportable_def)

lemma evaluated_reportable:
  assumes "windows_ok cfg ws" and "cfg_WindowSize cfg < 2 ^ 63" and "T 0" and "clock_ok T env"
  shows "(\<forall>st \<in> set (fst (evaluated cfg env gid i j tpos ws)). reportable T st) \<and>
    windows_ok cfg (snd (evaluated cfg env gid i j tpos ws))"
  using assms(1)
proof (induction tpos arbitrary: j ws)
  case (Cons tpo tpos)
  show ?case
  proof (cases "ke_HighWatermark env i j")
    case (Inr hw)
    let ?key = "windowKey gid (tp_Topic tpo) (tp_Partition tpo)"
    let ?r = "check_record hw (tp_Offset tpo) (ke_Now env i j)"
    have "reportable T (EvaluatePartitionConsumer cfg (getWindowRecords (add_window cfg ws ?key ?r) ?key)
        gid (tp_Topic tpo) (tp_Partition tpo))"
      using assms(4) by (intro reportable_added Cons.prems assms(2,3)) (simp add: check_record_def clock_ok_at)
    then show ?thesis
      using Inr Cons.IH [OF Cons.prems, of "Suc j"] Cons.IH [OF windows_ok_add [OF Cons.prems], of "Suc j" ?key ?r]
      by (auto simp: Let_def split_def reportable_no_offset [of T, OF assms(3)])
  next
    case (Inl e)
    then show ?thesis using Cons.IH [OF Cons.prems, of "Suc j"] by simp
  qed
qed simp

lemma group_result_reportable:
  assumes "windows_ok cfg ws" and "cfg_WindowSize cfg < 2 ^ 63" and "T 0" and "clock_ok T env"
  shows "(case fst (group_result cfg env cl i gid mc ws) of Inl e \<Rightarrow> True | Inr gs \<Rightarrow> group_reportable T gs) \<and>
    windows_ok cfg (snd (group_result cfg env cl i gid mc ws))"
proof (cases "ke_Offsets env i")
  case (Inr offs)
  note ev = evaluated_reportable [OF assms, of gid i 0 offs]
  have "set (with_health h sts) \<subseteq> set sts" for h sts by (auto simp: with_health_def)
  then show ?thesis using ev assms(4)
    by (auto simp: Inr group_result_def Let_def group_reportable_def all_partitions_def tally_eq zero_GroupStatus_def clock_ok_at)
qed (simp add: group_result_def assms(1))

lemma run_goroutines_reportable:
  assumes "run_goroutines hook env cl gids mc order c = Ret (results, c')" and "report_inv T c" and "T 0" and "clock_ok T env"
  shows "report_inv T c' \<and> (\<forall>g gs. (g, Inr gs) \<in> set results \<longrightarrow> group_reportable T gs)"
  using assms(1,2)
proof (induction order arbitrary: c results)
  case (Cons i order)
  let ?g = "gids ! i"
  let ?R = "group_result (co_config c) env cl i ?g (member_count mc ?g) (co_windows c)"
  let ?em = "emit [MObserve CollectionDuration [cl, ?g] (dur_seconds (ke_GroupDuration env i))]"
  have ok: "windows_ok (co_config c) (co_windows c)" "cfg_WindowSize (co_config c) < 2 ^ 63"
    using Cons.prems(2) by (simp_all add: report_inv_def)
  then have "0 \<le> cfg_WindowSize (co_config c)" by (simp add: windows_ok_def)
  then obtain c1 where c1: "collectGroupMetricsWithCluster hook env cl i ?g (member_count mc ?g) c = Ret (fst ?R, c1)"
      "co_windows c1 = snd ?R" "same_frame c c1"
    using collectGroup_eq by blast
  obtain results' where r: "run_goroutines hook env cl gids mc order (?em c1) = Ret (results', c')"
      "results = (?g, fst ?R) # results'"
    using Cons.prems(1) by (auto simp: Let_def c1(1) go_bind_Ret_iff)
  note R = group_result_reportable [OF ok assms(3,4), of cl i ?g "member_count mc ?g"]
  have "report_inv T (?em c1)"
    using Cons.prems(2) c1(2,3) R by (simp add: report_inv_def store_reportable_def same_frame_def)
  from Cons.IH [OF r(1) this] R show ?case by (cases "fst ?R") (auto simp: r(2))
qed simp

lemma handle_results_reportable:
  "\<forall>g gs. (g, Inr gs) \<in> set results \<longrightarrow> group_reportable T gs \<Longrightarrow> report_inv T c \<Longrightarrow> report_inv T (handle_results cl results c)"
proof (induction cl results c rule: handle_results.induct)
  case (2 cl gid res results c)
  show ?case
  proof (cases res)
    case (Inl e)
    then show ?thesis using 2 by simp
  next
    case (Inr gs)
    let ?c = "c\<lparr>co_statusStore := AList.update gid gs (co_statusStore c)\<rparr>"
    have "set (AList.update gid gs al) \<subseteq> insert (gid, gs) (set al)" for al by (induction al) auto
    then have "report_inv T ((updateMetricsWithCluster gs cl ?c)\<lparr>co_hasCollected := True\<rparr>)"
      using "2.prems" Inr by (fastforce simp: report_inv_def store_reportable_def updateMetricsWithCluster_def)
    then show ?thesis using "2.IH"(2) [OF Inr refl refl] "2.prems"(1) Inr by (simp add: Let_def)
  qed
qed simp


lemma collect_reportable:
  assumes "CollectMetricsWithCluster hook env cl order c = Ret (res, c')" and "report_inv T c" and "T 0" and "clock_ok T env"
  shows "report_inv T c'"
proof -
  obtain c1 where c1: "round_body hook env cl order c = Ret (res, c1)"
      "c' = emit [MSet ScrapeDuration [cl] (dur_seconds (ke_RoundDuration env))] c1"
    using assms(1) by (auto simp: CollectMetricsWithCluster_def go_bind_Ret_iff)
  have "report_inv T c1"
  proof (cases "ke_Groups env")
    case (Inl e)
    then show ?thesis using c1(1) assms(2) by (auto simp: round_body_def)
  next
    case (Inr gids)
    let ?mc = "case ke_Members env of Inl e \<Rightarrow> [] | Inr m \<Rightarrow> m"
    define c2 where "c2 = emit (map (\<lambda>(g, n). MSet ConsumerGroupMembers [cl, g] (f_of_int n)) ?mc)
      (emit [MSet ActiveConsumerGroups [cl] (f_of_int (int (length gids)))] c)"
    have "go_bind (run_goroutines hook env cl gids ?mc order c2)
        (\<lambda>(results, c3). Ret (Inr (), handle_results cl results c3)) = Ret (res, c1)"
      using c1(1) unfolding round_body_def Inr Let_def sum.case c2_def [symmetric]
      by (simp split: if_splits)
    then obtain results c3 where run: "run_goroutines hook env cl gids ?mc order c2 = Ret (results, c3)"
        "c1 = handle_results cl results c3" by (auto simp: go_bind_Ret_iff)
    have "report_inv T c2" using assms(2) by (simp add: c2_def)
    then show ?thesis
      using run_goroutines_reportable [OF run(1) _ assms(3,4)] handle_results_reportable run(2) by blast
  qed
  then show ?thesis by (simp add: c1(2))
qed

lemma cleanup_keeps:
  "CleanupOldWindows active ws = Ret ws' \<Longrightarrow>
     ws' = filter (\<lambda>(k, w). case str_index (CHR '':'') k of None \<Rightarrow> False | Some i \<Rightarrow> take i k \<in> set active) ws"
  by (induction active ws arbitrary: ws' rule: CleanupOldWindows.induct)
    (auto simp: go_bind_Ret_iff split: option.splits)

lemma cleanup_windows_ok:
  assumes "CleanupOldWindows active ws = Ret ws'" and "windows_ok cfg ws"
  shows "windows_ok cfg ws'"
  using assms(2) unfolding cleanup_keeps [OF assms(1)] by (auto simp: windows_ok_def map_of_filter_key split: if_splits)

lemma periodic_loop_reportable:
  "periodic_loop hook cl ticks c = Ret c' \<Longrightarrow> report_inv T c \<Longrightarrow> T 0 \<Longrightarrow>
     \<forall>env order. CollectTick env order \<in> set ticks \<longrightarrow> clock_ok T env \<Longrightarrow> report_inv T c'"
proof (induction hook cl ticks c rule: periodic_loop.induct)
  case (3 hook cl ticks c)
  then obtain ws c1 where ws: "CleanupOldWindows (map fst (GetAllGroupStatuses c)) (co_windows c) = Ret ws"
      "c1 = c\<lparr>co_windows := ws\<rparr>" "cleanup_step c = Ret c1" "periodic_loop hook cl ticks c1 = Ret c'"
    by (auto simp: go_bind_Ret_iff cleanup_step_def)
  have "report_inv T c1"
    using cleanup_windows_ok [OF ws(1)] "3.prems"(2) by (simp add: ws(2) report_inv_def store_reportable_def)
  then show ?case using "3.IH" [OF ws(3,4)] "3.prems"(3,4) by simp
next
  case (4 hook cl env order ticks c)
  then obtain res c1 where c1: "CollectMetricsWithCluster hook env cl order c = Ret (res, c1)"
      "periodic_loop hook cl ticks c1 = Ret c'"
    by (auto simp: go_bind_Ret_iff)
  have "report_inv T c1" using collect_reportable [OF c1(1)] "4.prems"(2-4) by simp
  moreover have "\<forall>env order. CollectTick env order \<in> set ticks \<longrightarrow> clock_ok T env" using "4.prems"(4) by auto
  ultimately show ?case using "4.IH" [OF c1(1) refl c1(2)] "4.prems"(3) by blast
qed auto


lemma start_reportable:
  assumes "StartPeriodicCollection hook cl env order ticks (NewWithClient cfg h) = Ret c"
    and "0 \<le> cfg_WindowSize cfg" and "cfg_WindowSize cfg < 2 ^ 63"
    and "T 0" and "\<forall>t \<in> run_readings env ticks. T t"
  shows "store_reportable T c"
proof -
  obtain res c1 where c1: "CollectMetricsWithCluster hook env cl order (NewWithClient cfg h) = Ret (res, c1)"
      "periodic_loop hook cl ticks c1 = Ret c"
    using assms(1) by (auto simp: StartPeriodicCollection_def go_bind_Ret_iff split: if_splits)
  have "report_inv T (NewWithClient cfg h)"
    using assms(2,3) by (simp add: report_inv_def NewWithClient_def windows_ok_def store_reportable_def)
  moreover have "clock_ok T env" "\<forall>env order. CollectTick env order \<in> set ticks \<longrightarrow> clock_ok T env"
    using assms(5) unfolding clock_ok_def run_readings_def by blast+
  ultimately show ?thesis
    using collect_reportable [OF c1(1)] periodic_loop_reportable [OF c1(2)] assms(4) by (auto simp: report_inv_def)
qed

section \<open>Properties\<close>

text \<open>C16: However long a collector runs, whatever the brokers reply and in whatever order its goroutines
  end, no rate and no completeness it stores is ever infinite or not a number, also when checks come
  in the same instant, the clock goes back or offsets wrap around; and every instant it stores was
  given by the clock or is the zero instant.\<close>

theorem stored_numbers_are_finite:
  assumes "StartPeriodicCollection hook cl env order ticks (NewWithClient cfg h) = Ret c"
    and "0 \<le> cfg_WindowSize cfg" and "cfg_WindowSize cfg < 2 ^ 63"
    and "GetGroupStatus c g = Some gs"
  shows "gs_LastUpdateTime gs \<in> insert 0 (run_readings env ticks) \<and>
    (\<forall>st \<in> set (all_partitions gs). finite64 (ps_ConsumptionRate st) \<and> finite64 (ps_LagChangeRate st) \<and>
       finite64 (ps_WindowCompleteness st) \<and> ps_LastUpdateTime st \<in> insert 0 (run_readings env ticks))"
proof -
  have "(g, gs) \<in> set (co_statusStore c)" using assms(4) by (auto simp: GetGroupStatus_def dest: map_of_SomeD)
  then show ?thesis
    using start_reportable [OF assms(1-3), of "\<lambda>t. t \<in> insert 0 (run_readings env ticks)"]
    by (fastforce simp: store_reportable_def group_reportable_def reportable_def)
qed

theorem stored_numbers_are_finite_witness:
  "\<exists>c gs. StartPeriodicCollection None ''c1'' sample_env [1, 0] [CollectTick gone_env []]
       (NewWithClient dev_config ()) = Ret c \<and> GetGroupStatus c ''g'' = Some gs \<and>
     gs_LastUpdateTime gs \<in> {0, 100 * second} \<and> (\<forall>st \<in> set (all_partitions gs). finite64 (ps_LagChangeRate st))"
proof -
  obtain c gs where run: "StartPeriodicCollection None ''c1'' sample_env [1, 0] [CollectTick gone_env []]
       (NewWithClient dev_config ()) = Ret c" and gs: "GetGroupStatus c ''g'' = Some gs" using sample_start by auto
  have "run_readings sample_env [CollectTick gone_env []] = {100 * second}"
    by (auto simp: run_readings_def readings_def sample_env_def gone_env_def)
  then show ?thesis using stored_numbers_are_finite [OF run _ _ gs] run gs by auto
qed

end
