(* ===== verification/Api_Json.thy ===== *)
theory Api_Json
  imports Commands Collector_Report
begin

text \<open>
  The texts of the HTTP answers (internal/api): the JSON of the values a handler writes, as the
  encoder of encoding/json gives it for the structs of internal/collector/collector.go and
  internal/cluster/manager.go, whose fields have no tags, and for the maps and local structs of the
  handlers.  A value that has no JSON gives an empty answer, because the error is dropped.
\<close>

section \<open>Statuses\<close>

text \<open>The zero instant is always in UTC; the others are on the clocks of the zone.\<close>

definition status_time :: "zone \<Rightarrow> gotime \<Rightarrow> json result" where
  "status_time z t = time_json (if t = 0 then UTC else z) t"

definition partition_json :: "zone \<Rightarrow> PartitionConsumerStatus \<Rightarrow> json result" where
  "partition_json z st =
     result_bind (status_time z (ps_LastUpdateTime st)) (\<lambda>updated.
     result_bind (float_json (ps_ConsumptionRate st)) (\<lambda>consumption.
     result_bind (float_json (ps_LagChangeRate st)) (\<lambda>change.
     result_bind (float_json (ps_WindowCompleteness st)) (\<lambda>completeness.
       Inr (JObj
         [(''GroupID'', JStr (ps_GroupID st)), (''Topic'', JStr (ps_Topic st)),
          (''Partition'', int_json (sint (ps_Partition st))),
          (''CurrentOffset'', int_json (sint (ps_CurrentOffset st))),
          (''HighWatermark'', int_json (sint (ps_HighWatermark st))),
          (''CurrentLag'', int_json (sint (ps_CurrentLag st))),
          (''LastUpdateTime'', updated), (''Status'', JStr (status_text (ps_Status st))),
          (''LagTrend'', JStr (trend_text (ps_LagTrend st))), (''Health'', JStr (health_text (ps_Health st))),
          (''ConsumptionRate'', consumption), (''LagChangeRate'', change),
          (''WindowCompleteness'', completeness), (''Message'', JStr (ps_Message st)),
          (''IsActive'', JBool (ps_IsActive st)),
          (''TimeSinceLastMove'', int_json (ps_TimeSinceLastMove st))])))))"

text \<open>The slices of a status start as nil and only grow.\<close>

definition slice_json :: "json list \<Rightarrow> json" where
  "slice_json js = (if js = [] then JNull else JArr js)"

definition group_members :: "zone \<Rightarrow> GroupStatus \<Rightarrow> (string \<times> json) list result" where
  "group_members z gs =
     result_bind (status_time z (gs_LastUpdateTime gs)) (\<lambda>updated.
     result_bind (list_result (map (partition_json z) (gs_CriticalPartitions gs))) (\<lambda>critical.
     result_bind (list_result (map (partition_json z) (gs_WarningPartitions gs))) (\<lambda>warning.
     result_bind (list_result (map (partition_json z) (gs_HealthyPartitions gs))) (\<lambda>healthy.
       Inr [(''GroupID'', JStr (gs_GroupID gs)), (''OverallHealth'', JStr (health_text (gs_OverallHealth gs))),
            (''TotalLag'', int_json (sint (gs_TotalLag gs))),
            (''PartitionCount'', int_json (gs_PartitionCount gs)),
            (''ActivePartitions'', int_json (gs_ActivePartitions gs)),
            (''StoppedPartitions'', int_json (gs_StoppedPartitions gs)),
            (''StalledPartitions'', int_json (gs_StalledPartitions gs)),
            (''MemberCount'', int_json (gs_MemberCount gs)), (''LastUpdateTime'', updated),
            (''CriticalPartitions'', slice_json critical), (''WarningPartitions'', slice_json warning),
            (''HealthyPartitions'', slice_json healthy)]))))"

definition group_json :: "zone \<Rightarrow> GroupStatus \<Rightarrow> json result" where
  "group_json z gs = result_bind (group_members z gs) (\<lambda>ms. Inr (JObj ms))"

text \<open>The fields of the embedded struct follow the name.\<close>

definition group_cluster_json :: "zone \<Rightarrow> GroupStatusCluster \<Rightarrow> json result" where
  "group_cluster_json z st =
     result_bind (group_members z (gc_GroupStatus st)) (\<lambda>ms. Inr (JObj ((''ClusterName'', JStr (gc_ClusterName st)) # ms)))"

section \<open>The configuration\<close>

text \<open>Durations are numbers; an empty list counts as one that was left out.\<close>

definition collector_config_json :: "Config \<Rightarrow> json result" where
  "collector_config_json c =
     result_bind (float_json (cfg_StalledConsumptionRate c)) (\<lambda>stalled.
     result_bind (float_json (cfg_RapidLagIncreaseRate c)) (\<lambda>rapid.
     result_bind (float_json (cfg_LagTrendThreshold c)) (\<lambda>trend.
       Inr (JObj
         [(''WindowSize'', int_json (cfg_WindowSize c)), (''MinWindowSize'', int_json (cfg_MinWindowSize c)),
          (''CheckInterval'', int_json (cfg_CheckInterval c)), (''StalledConsumptionRate'', stalled),
          (''RapidLagIncreaseRate'', rapid), (''LagTrendThreshold'', trend),
          (''InactivityTimeout'', int_json (cfg_InactivityTimeout c)),
          (''MaxConcurrency'', int_json (cfg_MaxConcurrency c))]))))"

definition cluster_config_json :: "ConfigCluster \<Rightarrow> json result" where
  "cluster_config_json c =
     result_bind (case ck_Collector c of None \<Rightarrow> Inr JNull | Some cfg \<Rightarrow> collector_config_json cfg) (\<lambda>coll.
       Inr (JObj
         [(''Name'', JStr (ck_Name c)), (''Enabled'', JBool (ck_Enabled c)),
          (''Brokers'', slice_json (map JStr (ck_Brokers c))), (''Collector'', coll)]))"

definition rca_config_json :: "RcaConfig \<Rightarrow> json" where
  "rca_config_json rca =
     (let p = rc_Publisher rca; r = rc_Redis rca; c = rc_Consumer rca in
      JObj
        [(''Publisher'', JObj
           [(''Enabled'', JBool (pc_Enabled p)), (''StreamKey'', JStr (pc_StreamKey p)),
            (''MaxRetries'', int_json (pc_MaxRetries p)), (''RetryInterval'', JStr (pc_RetryInterval p)),
            (''DeDupeWindow'', int_json (pc_DeDupeWindow p))]),
         (''Redis'', JObj
           [(''Addr'', JStr (rd_Addr r)), (''Password'', JStr (rd_Password r)), (''DB'', int_json (rd_DB r))]),
         (''Consumer'', JObj
           [(''ConsumerGroup'', JStr (cc_ConsumerGroup c)), (''StreamKey'', JStr (cc_StreamKey c)),
            (''ConsumerName'', JStr (cc_ConsumerName c)), (''BatchSize'', int_json (sint (cc_BatchSize c))),
            (''BlockTimeout'', int_json (cc_BlockTimeout c)), (''MaxRetries'', int_json (cc_MaxRetries c))])])"

definition config_json :: "AppConfig \<Rightarrow> json result" where
  "config_json config =
     result_bind (float_json (ac_StalledConsumptionRate config)) (\<lambda>stalled.
     result_bind (float_json (ac_RapidLagIncreaseRate config)) (\<lambda>rapid.
     result_bind (float_json (ac_LagTrendThreshold config)) (\<lambda>trend.
     result_bind (list_result (map cluster_config_json (ac_Clusters config))) (\<lambda>clusters.
       Inr (JObj
         [(''Collector'', JObj
            [(''Window'', JObj
                [(''Size'', int_json (ac_WindowSize config)), (''MinSize'', int_json (ac_WindowMinSize config))]),
             (''CheckInterval'', JStr (ac_CheckInterval config)),
             (''Thresholds'', JObj
                [(''StalledConsumptionRate'', stalled), (''RapidLagIncreaseRate'', rapid),
                 (''LagTrendThreshold'', trend), (''InactivityTimeout'', JStr (ac_InactivityTimeout config))]),
             (''MaxConcurrency'', int_json (ac_MaxConcurrency config))]),
          (''HTTP'', JObj
            [(''Address'', JStr (ac_HTTPAddress config)), (''MetricsPath'', JStr (ac_MetricsPath config))]),
          (''Kafka'', JObj [(''Brokers'', slice_json (map JStr (ac_KafkaBrokers config)))]),
          (''Clusters'', slice_json clusters),
          (''Server'', JObj
            [(''API'', JObj
                [(''Enabled'', JBool (ac_APIEnabled config)), (''Address'', JStr (ac_APIAddress config)),
                 (''ReadTimeout'', JStr (ac_APIReadTimeout config)), (''WriteTimeout'', JStr (ac_APIWriteTimeout config))])]),
          (''RCA'', rca_config_json (ac_RCA config))])))))"

section \<open>Answers\<close>

definition map_json :: "(string \<times> json) list \<Rightarrow> json" where
  "map_json kvs = JObj (sort_fields kvs)"

definition optional :: "string \<Rightarrow> ('a \<Rightarrow> json) \<Rightarrow> 'a option \<Rightarrow> (string \<times> json) list" where
  "optional k f x = (case x of None \<Rightarrow> [] | Some v \<Rightarrow> [(k, f v)])"

definition cluster_info_json :: "cluster_info \<Rightarrow> json" where
  "cluster_info_json info = JObj
     ([(''name'', JStr (ci_Name info)), (''enabled'', JBool (ci_Enabled info)),
       (''brokers'', int_json (int (ci_Brokers info))), (''groups'', int_json (int (ci_Groups info)))] @
      omitempty ''last_error'' (ci_LastError info))"

definition ready_info_json :: "string \<Rightarrow> ready_info \<Rightarrow> json" where
  "ready_info_json name info = map_json
     ([(''name'', JStr name), (''ready'', JBool (ri_Ready info))] @
      optional ''consumer_groups'' (\<lambda>n. int_json (int n)) (ri_Groups info) @
      optional ''last_error'' JStr (ri_LastError info))"

text \<open>The local structs of the aggregated views, and the map of an error.\<close>

definition group_with_cluster_json :: "zone \<Rightarrow> string \<times> string \<times> GroupStatus \<Rightarrow> json result" where
  "group_with_cluster_json z e = (case e of (c, g, st) \<Rightarrow> result_bind (group_json z st) (\<lambda>j.
     Inr (JObj [(''cluster'', JStr c), (''group'', JStr g), (''status'', j)])))"

definition group_identifier_json :: "string \<times> string \<Rightarrow> json" where
  "group_identifier_json e = (case e of (c, g) \<Rightarrow> JObj [(''cluster'', JStr c), (''group'', JStr g)])"

definition error_json :: "string \<Rightarrow> json" where
  "error_json msg = map_json [(''error'', JStr msg)]"

text \<open>The readiness answers, with and without clusters; \<open>now\<close> is the clock.\<close>

definition ready_json :: "gotime \<Rightarrow> string \<Rightarrow> string option \<Rightarrow> nat \<Rightarrow> nat \<Rightarrow> (string \<times> ready_info) list \<Rightarrow> json result" where
  "ready_json now status reason ready configured details =
     result_bind (time_json UTC now) (\<lambda>t. Inr (map_json
       ([(''status'', JStr status)] @ optional ''reason'' JStr reason @
        [(''ready_clusters'', int_json (int ready)), (''total_clusters'', int_json (int configured)), (''timestamp'', t),
         (''clusters'', map_json (map (\<lambda>(name, info). (name, ready_info_json name info)) details))])))"

definition no_clusters_json :: "gotime \<Rightarrow> string \<Rightarrow> string \<Rightarrow> json result" where
  "no_clusters_json now status reason =
     result_bind (time_json UTC now) (\<lambda>t. Inr (map_json
       [(''status'', JStr status), (''reason'', JStr reason), (''timestamp'', t)]))"

text \<open>What the runtime says: the number of goroutines, the bytes allocated.\<close>

record runtime_info =
  rt_Goroutines :: nat
  rt_Alloc :: nat

definition health_json :: "gotime \<Rightarrow> runtime_info \<Rightarrow> string \<Rightarrow> string \<Rightarrow> json result" where
  "health_json now rt status service =
     result_bind (time_json UTC now) (\<lambda>t.
     result_bind (float_json (f_div (f_div (f_of_int (int (rt_Alloc rt))) (FFin 1024)) (FFin 1024))) (\<lambda>alloc.
       Inr (map_json
         [(''status'', JStr status), (''timestamp'', t), (''service'', JStr service),
          (''runtime'', map_json [(''goroutines'', int_json (int (rt_Goroutines rt))), (''memory_alloc_mb'', alloc)])])))"

text \<open>
  \<open>config\<close> is the JSON of the configuration.  The two answers that are not JSON do not come here.
\<close>

fun body_json :: "zone \<Rightarrow> gotime \<Rightarrow> runtime_info \<Rightarrow> json result \<Rightarrow> body \<Rightarrow> json result" where
  "body_json z now rt config (ErrorBody msg) = Inr (error_json msg)"
| "body_json z now rt config (StatusBody st) = group_cluster_json z st"
| "body_json z now rt config (StatusesBody sts) =
     result_bind (fields_result (sort_fields (map (\<lambda>(k, st). (k, group_cluster_json z st)) sts))) (\<lambda>m. Inr (JObj m))"
| "body_json z now rt config (GroupsBody gs) = Inr (JArr (map JStr gs))"
| "body_json z now rt config (ClustersBody infos) = Inr (JArr (map cluster_info_json infos))"
| "body_json z now rt config (AllStatusesBody es) =
     result_bind (list_result (map (group_with_cluster_json z) es)) (\<lambda>js. Inr (JArr js))"
| "body_json z now rt config (AllGroupsBody es) = Inr (JArr (map group_identifier_json es))"
| "body_json z now rt config (LegacyBody st) = group_json z st"
| "body_json z now rt config (ReadyBody status reason ready configured details) =
     ready_json now status reason ready configured details"
| "body_json z now rt config (NoClustersBody status reason) = no_clusters_json now status reason"
| "body_json z now rt config (HealthBody status service) = health_json now rt status service"
| "body_json z now rt config ConfigBody = config"
| "body_json z now rt config (TextBody s) = Inr (JStr s)"
| "body_json z now rt config MetricsBody = Inr JNull"

text \<open>The encoder adds a line break; \<open>metrics\<close> is the text of the metrics library.\<close>

definition encode :: "json result \<Rightarrow> string" where
  "encode j = (case j of Inl e \<Rightarrow> [] | Inr v \<Rightarrow> json_text v @ [CHR 0x0A])"

definition is_json :: "body \<Rightarrow> bool" where
  "is_json b = (case b of TextBody s \<Rightarrow> False | MetricsBody \<Rightarrow> False | _ \<Rightarrow> True)"

definition body_text :: "zone \<Rightarrow> gotime \<Rightarrow> runtime_info \<Rightarrow> json result \<Rightarrow> string \<Rightarrow> body \<Rightarrow> string" where
  "body_text z now rt config metrics b =
     (case b of TextBody s \<Rightarrow> s | MetricsBody \<Rightarrow> metrics | _ \<Rightarrow> encode (body_json z now rt config b))"

section \<open>Values that are read back\<close>

declare json_depth.simps(1,2) [simp del]

definition sound :: "nat \<Rightarrow> json \<Rightarrow> bool" where
  "sound n j \<longleftrightarrow> json_nums j \<and> json_depth j \<le> n"

lemma sound_simps [simp]:
  "sound n JNull" "sound n (JBool b)" "sound n (JStr s)" "sound n (int_json i)"
  "0 < n \<Longrightarrow> sound n (JArr js) \<longleftrightarrow> list_all (sound (n - 1)) js"
  "0 < n \<Longrightarrow> sound n (JObj kvs) \<longleftrightarrow> list_all (\<lambda>(k, j). sound (n - 1) j) kvs"
  by (auto simp: sound_def list_all_iff)

lemma sound_mono: "sound n j \<Longrightarrow> n \<le> m \<Longrightarrow> sound m j"
  by (auto simp: sound_def)

lemma sound_map [simp]: "0 < n \<Longrightarrow> sound n (map_json kvs) \<longleftrightarrow> list_all (\<lambda>(k, j). sound (n - 1) j) kvs"
  by (simp add: map_json_def list_all_iff)

lemma sound_optional [simp]: "(\<And>v. sound n (f v)) \<Longrightarrow> list_all (\<lambda>(k, j). sound n j) (optional k f x)"
  by (simp add: optional_def split: option.split)

lemma sound_omitempty [simp]: "list_all (\<lambda>(k, j). sound n j) (omitempty k s)"
  by (simp add: omitempty_def)

lemma encode_reads:
  assumes "sound n j" and "n \<le> max_nesting"
  shows "json_parse (encode (Inr j)) = Inr (json_clean j)"
  using assms by (simp add: encode_def json_parse_rest sound_def is_space_def)

definition encodes :: "nat \<Rightarrow> json result \<Rightarrow> bool" where
  "encodes n r = (case r of Inl e \<Rightarrow> False | Inr j \<Rightarrow> sound n j)"

lemma encodes_Inr [simp]: "encodes n (Inr j) = sound n j" "encodes n (Inl e) = False"
  by (simp_all add: encodes_def)

lemma encodesE: "encodes n r \<Longrightarrow> (\<And>j. r = Inr j \<Longrightarrow> sound n j \<Longrightarrow> thesis) \<Longrightarrow> thesis"
  by (cases r) auto

lemma encodes_float: "finite64 x \<Longrightarrow> is_f64 x \<Longrightarrow> encodes n (float_json x)"
  using float_text_reads(1) by (auto simp: finite64_iff is_f64_def sound_def)

lemma encodes_list: "\<forall>x \<in> set xs. encodes n (f x) \<Longrightarrow> \<exists>js. list_result (map f xs) = Inr js \<and> list_all (sound n) js"
  by (induction xs) (auto elim!: encodesE)

lemma encodes_fields:
  "\<forall>(k, r) \<in> set kvs. encodes n r \<Longrightarrow> \<exists>ms. fields_result kvs = Inr ms \<and> list_all (\<lambda>(k, j). sound n j) ms"
  by (induction kvs) (auto elim!: encodesE)


section \<open>Statuses of a run have a JSON\<close>

definition shown :: "zone \<Rightarrow> gotime \<Rightarrow> bool" where
  "shown z t \<longleftrightarrow> t = 0 \<or> time_ok z t"

lemma encodes_time: "time_ok z t \<Longrightarrow> encodes n (time_json z t)"
  unfolding time_json_def by (simp only: if_True encodes_Inr sound_simps)

lemma encodes_status_time: "shown z t \<Longrightarrow> encodes n (status_time z t)"
  unfolding status_time_def shown_def using sample_times(1) encodes_time by metis

lemma encodes_ex: "encodes n r \<longleftrightarrow> (\<exists>j. r = Inr j \<and> sound n j)"
  by (cases r) auto

lemma encodes_partition:
  assumes "reportable (shown z) st"
  shows "encodes 1 (partition_json z st)"
proof -
  have "encodes 0 (status_time z (ps_LastUpdateTime st))" "encodes 0 (float_json (ps_ConsumptionRate st))"
    "encodes 0 (float_json (ps_LagChangeRate st))" "encodes 0 (float_json (ps_WindowCompleteness st))"
    using assms encodes_status_time encodes_float by (simp_all add: reportable_def)
  then obtain t r c w where "status_time z (ps_LastUpdateTime st) = Inr t" "sound 0 t"
      "float_json (ps_ConsumptionRate st) = Inr r" "sound 0 r"
      "float_json (ps_LagChangeRate st) = Inr c" "sound 0 c"
      "float_json (ps_WindowCompleteness st) = Inr w" "sound 0 w"
    unfolding encodes_ex by (elim exE conjE)
  then show ?thesis by (simp add: partition_json_def)
qed

lemma encodes_group:
  assumes "group_reportable (shown z) gs"
  shows "\<exists>ms. group_members z gs = Inr ms \<and> list_all (\<lambda>(k, j). sound 2 j) ms"
proof -
  have "encodes 2 (status_time z (gs_LastUpdateTime gs))"
    using assms encodes_status_time by (simp add: group_reportable_def)
  moreover have "\<forall>st \<in> set xs. encodes 1 (partition_json z st)" if "set xs \<subseteq> set (all_partitions gs)" for xs
    using assms encodes_partition that by (auto simp: group_reportable_def)
  then have lists: "\<exists>js. list_result (map (partition_json z) xs) = Inr js \<and> list_all (sound 1) js"
    if "set xs \<subseteq> set (all_partitions gs)" for xs using that by (intro encodes_list) simp
  have "\<exists>a. list_result (map (partition_json z) (gs_CriticalPartitions gs)) = Inr a \<and> list_all (sound 1) a"
    by (rule lists) (auto simp: all_partitions_def)
  moreover have "\<exists>b. list_result (map (partition_json z) (gs_WarningPartitions gs)) = Inr b \<and> list_all (sound 1) b"
    by (rule lists) (auto simp: all_partitions_def)
  moreover have "\<exists>c. list_result (map (partition_json z) (gs_HealthyPartitions gs)) = Inr c \<and> list_all (sound 1) c"
    by (rule lists) (auto simp: all_partitions_def)
  ultimately obtain t a b c where "status_time z (gs_LastUpdateTime gs) = Inr t" "sound 2 t"
      "list_result (map (partition_json z) (gs_CriticalPartitions gs)) = Inr a" "list_all (sound 1) a"
      "list_result (map (partition_json z) (gs_WarningPartitions gs)) = Inr b" "list_all (sound 1) b"
      "list_result (map (partition_json z) (gs_HealthyPartitions gs)) = Inr c" "list_all (sound 1) c"
    unfolding encodes_ex by (elim exE conjE)
  then show ?thesis by (simp add: group_members_def slice_json_def numeral_2_eq_2)
qed

text \<open>The group statuses an answer has.\<close>

fun body_statuses :: "body \<Rightarrow> GroupStatus set" where
  "body_statuses (StatusBody st) = {gc_GroupStatus st}"
| "body_statuses (StatusesBody sts) = (\<lambda>(k, st). gc_GroupStatus st) ` set sts"
| "body_statuses (AllStatusesBody es) = (\<lambda>(c, g, st). st) ` set es"
| "body_statuses (LegacyBody st) = {st}"
| "body_statuses _ = {}"

lemma megabytes_finite:
  assumes "0 \<le> n" and "n < 2 ^ 64"
  shows "encodes k (float_json (f_div (f_div (f_of_int n) (FFin 1024)) (FFin 1024)))"
proof -
  have step: "\<exists>b. f_div (FFin a) (FFin 1024) = FFin b \<and> 0 \<le> b \<and> b \<le> 2 ^ 64" if "0 \<le> a" "a \<le> 2 ^ 64" for a
  proof -
    have "0 \<le> a / 1024" "a / 1024 \<le> 2 ^ 64" using that by simp_all
    moreover from this have "round64 (a / 1024) = FFin (rval (a / 1024))" by (intro round64_far) simp
    ultimately show ?thesis using rval_le [OF rval_limits(4)] rval_nonneg by simp
  qed
  have "of_int n \<le> (of_int (2 ^ 64) :: rat)" using assms(2) by (simp only: of_int_le_iff)
  then have n: "0 \<le> (of_int n :: rat)" "of_int n \<le> (2 ^ 64 :: rat)" using assms(1) by simp_all
  then have "f_of_int n = FFin (rval (of_int n))" unfolding f_of_int_def by (intro round64_far) simp
  moreover have "0 \<le> rval (of_int n)" "rval (of_int n) \<le> 2 ^ 64"
    using rval_nonneg [OF n(1)] rval_le [OF rval_limits(4) n(2)] by simp_all
  ultimately obtain a where a: "f_div (f_of_int n) (FFin 1024) = FFin a" "0 \<le> a" "a \<le> 2 ^ 64" using step by auto
  then show ?thesis using step [OF a(2,3)] is_f64_ops by (intro encodes_float) (auto simp del: f_div.simps)
qed

lemma encodes_body:
  assumes "\<forall>gs \<in> body_statuses b. group_reportable (shown z) gs" and "encodes 10 config" and "time_ok UTC now"
    and "int (rt_Alloc rt) < 2 ^ 64"
  shows "encodes 10 (body_json z now rt config b)"
proof -
  have one: "\<exists>j. group_json z gs = Inr j \<and> sound 3 j" if "group_reportable (shown z) gs" for gs
    using encodes_group [OF that] by (auto simp: group_json_def)
  have named: "\<exists>j. group_cluster_json z st = Inr j \<and> sound 3 j" if "group_reportable (shown z) (gc_GroupStatus st)" for st
    using encodes_group [OF that] by (auto simp: group_cluster_json_def)
  obtain t where t: "time_json UTC now = Inr t" "sound 8 t" "sound 9 t"
    using encodes_time [OF assms(3), of 8] sound_mono [of 8 _ 9] unfolding encodes_ex by auto
  note deep = sound_mono [of 3 _ 9] sound_mono [of 4 _ 9] sound_mono [of 3 _ 10]
  show ?thesis
  proof (cases b)
    case (StatusBody st)
    then show ?thesis using named [of st] assms(1) deep by auto
  next
    case (StatusesBody sts)
    let ?kvs = "sort_fields (map (\<lambda>(k, st). (k, group_cluster_json z st)) sts)"
    have "\<forall>(k, r) \<in> set ?kvs. encodes 3 r"
      using assms(1) named unfolding StatusesBody encodes_ex by fastforce
    then obtain ms where "fields_result ?kvs = Inr ms" "list_all (\<lambda>(k, j). sound 3 j) ms"
      using encodes_fields by blast
    then show ?thesis using deep by (auto simp: StatusesBody list_all_iff)
  next
    case (AllStatusesBody es)
    have "\<forall>e \<in> set es. encodes 4 (group_with_cluster_json z e)"
      using assms(1) one unfolding AllStatusesBody group_with_cluster_json_def by fastforce
    then obtain js where "list_result (map (group_with_cluster_json z) es) = Inr js" "list_all (sound 4) js"
      using encodes_list by blast
    then show ?thesis using deep by (auto simp: AllStatusesBody list_all_iff)
  next
    case (LegacyBody st)
    then show ?thesis using one [of st] assms(1) deep by auto
  next
    case (ClustersBody infos)
    have "sound 9 (cluster_info_json info)" for info by (simp add: cluster_info_json_def)
    then show ?thesis by (simp add: ClustersBody list_all_iff)
  next
    case (ReadyBody s r n m d)
    have "sound 8 (ready_info_json name info)" for name info by (simp add: ready_info_json_def)
    then show ?thesis using t by (simp add: ReadyBody ready_json_def) (simp add: list_all_iff split_def)
  next
    case (HealthBody s r)
    obtain a where "float_json (f_div (f_div (f_of_int (int (rt_Alloc rt))) (FFin 1024)) (FFin 1024)) = Inr a" "sound 8 a"
      using megabytes_finite [of "int (rt_Alloc rt)" 8] assms(4) unfolding encodes_ex by auto
    then show ?thesis using t by (simp add: HealthBody health_json_def)
  next
    case (NoClustersBody s r)
    then show ?thesis using t by (simp add: no_clusters_json_def)
  qed (use assms(2) in \<open>simp_all add: list_all_iff split_def error_json_def group_identifier_json_def\<close>)
qed


section \<open>Every answer has one\<close>

definition clusters_reportable :: "zone \<Rightarrow> Manager \<Rightarrow> bool" where
  "clusters_reportable z m \<longleftrightarrow> (\<forall>(n, cc) \<in> set (mg_clusters m). store_reportable (shown z) (cc_Collector cc))"

lemma fold_update_all:
  assumes "\<forall>(k, v) \<in> set al. Q (f v)" and "\<forall>(k, v) \<in> set acc. Q v"
  shows "\<forall>(k, v) \<in> set (fold (\<lambda>(k, v) result. AList.update k (f v) result) al acc). Q v"
  using assms
proof (induction al arbitrary: acc)
  case (Cons kv al)
  obtain k v where kv: "kv = (k, v)" by force
  have "set (AList.update k (f v) acc) \<subseteq> insert (k, f v) (set acc)" by (induction acc) auto
  then have "\<forall>(k', v') \<in> set (AList.update k (f v) acc). Q v'" using Cons.prems by (auto simp: kv)
  then show ?case using Cons.IH [of "AList.update k (f v) acc"] Cons.prems by (simp add: kv)
qed simp

lemma GetAllGroupStatuses_all:
  "\<forall>(g, st) \<in> set (co_statusStore c). Q st \<Longrightarrow> \<forall>(g, st) \<in> set (GetAllGroupStatuses c). Q st"
  unfolding GetAllGroupStatuses_def by (rule fold_update_all [where f = "\<lambda>v. v"]) simp_all

lemma GetAllClusters_all: "\<forall>(n, cc) \<in> set (mg_clusters m). Q cc \<Longrightarrow> \<forall>(n, cc) \<in> set (GetAllClusters m). Q cc"
  unfolding GetAllClusters_def by (rule fold_update_all [where f = "\<lambda>v. v"]) simp_all

lemma cluster_groups_loop_fold:
  "cluster_groups_loop c statuses result =
     fold (\<lambda>(g, st) result. AList.update g st result)
       (map (\<lambda>(g, st). (c @ ''/'' @ g, \<lparr>gc_ClusterName = c, gc_GroupStatus = st\<rparr>)) statuses) result"
  by (induction c statuses result rule: cluster_groups_loop.induct) simp_all

lemma all_groups_loop_all:
  assumes "\<forall>(n, cc) \<in> set clusters. \<forall>(g, st) \<in> set (GetAllGroupStatuses (cc_Collector cc)). Q st"
    and "\<forall>(k, v) \<in> set result. Q (gc_GroupStatus v)"
  shows "\<forall>(k, v) \<in> set (all_groups_loop clusters result). Q (gc_GroupStatus v)"
  using assms
proof (induction clusters result rule: all_groups_loop.induct)
  case (2 c cc clusters result)
  have "\<forall>(k, v) \<in> set (cluster_groups_loop c (GetAllGroupStatuses (cc_Collector cc)) result). Q (gc_GroupStatus v)"
    unfolding cluster_groups_loop_fold
    by (rule fold_update_all [where f = "\<lambda>v. v"]) (use "2.prems" in auto)
  then show ?case using "2.IH" "2.prems"(1) by simp
qed simp

lemma aggregated_loop_all:
  "\<forall>(k, v) \<in> set es. Q (gc_GroupStatus v) \<Longrightarrow> \<forall>(c, g, st) \<in> set (aggregated_loop es). Q st"
  by (fastforce simp: aggregated_loop_set)

lemma answer_statuses:
  assumes "clusters_reportable z m" and "\<forall>c. legacy = Some c \<longrightarrow> store_reportable (shown z) c"
    and "serve metricsPath legacy m path = Ret resp" and "gs \<in> body_statuses (rs_Body resp)"
  shows "group_reportable (shown z) gs"
proof -
  let ?Q = "group_reportable (shown z)"
  have "\<forall>(n, cc) \<in> set (mg_clusters m). \<forall>(g, st) \<in> set (GetAllGroupStatuses (cc_Collector cc)). ?Q st"
    using assms(1) GetAllGroupStatuses_all [of _ ?Q] unfolding clusters_reportable_def store_reportable_def
    by (simp add: Ball_def) blast
  then have all: "\<forall>(n, cc) \<in> set (GetAllClusters m). \<forall>(g, st) \<in> set (GetAllGroupStatuses (cc_Collector cc)). ?Q st"
    by (rule GetAllClusters_all)
  have agg: "\<forall>(c, g, st) \<in> set (aggregated_loop (Manager_GetAllGroupStatuses m)). ?Q st"
    unfolding Manager_GetAllGroupStatuses_def by (intro aggregated_loop_all all_groups_loop_all all) simp
  have store: "\<forall>(g, st) \<in> set (co_statusStore (cc_Collector cc)). ?Q st" if "GetCluster m c = Some cc" for c cc
    using assms(1) that unfolding clusters_reportable_def store_reportable_def GetCluster_def
    by (blast dest: map_of_SomeD)
  have several: "?Q (gc_GroupStatus v)" if got: "GetClusterGroupStatuses m c = Inr sts" "(k, v) \<in> set sts" for c sts k v
  proof -
    obtain cc where cc: "GetCluster m c = Some cc" using got(1) by (auto simp: GetClusterGroupStatuses_def split: option.splits)
    have "\<forall>(g, st) \<in> set (GetAllGroupStatuses (cc_Collector cc)). ?Q st" by (rule GetAllGroupStatuses_all [OF store [OF cc]])
    then have "\<forall>(k, v) \<in> set (fold (\<lambda>(g, st) result. AList.update g \<lparr>gc_ClusterName = c, gc_GroupStatus = st\<rparr> result)
        (GetAllGroupStatuses (cc_Collector cc)) []). ?Q (gc_GroupStatus v)"
      by (intro fold_update_all [where f = "\<lambda>st. \<lparr>gc_ClusterName = c, gc_GroupStatus = st\<rparr>"]) simp_all
    then show ?thesis using got cc by (auto simp: GetClusterGroupStatuses_def)
  qed
  have single: "?Q (gc_GroupStatus st)" if "Manager_GetGroupStatus m c g = Inr (Some st)" for c g st
    using that store by (fastforce simp: Manager_GetGroupStatus_def GetGroupStatus_def split: option.splits dest: map_of_SomeD)
  have route: "?Q gs" if "gs \<in> body_statuses (rs_Body (clusters_route m path))"
    using that single
    by (auto intro: several simp: clusters_route_def GetClusterStatus_def GetClusterGroups_def GetClusterGroupStatus_def
        http_error_def json_error_def writeJSON_def Let_def split: if_splits sum.splits option.splits)
  have old: "?Q gs" if "legacy = Some c" "GroupStatusHandler c path = Ret resp" for c
  proof -
    have "\<forall>(g, st) \<in> set (co_statusStore c). ?Q st" using assms(2) that(1) by (simp add: store_reportable_def)
    then show ?thesis using that(2) assms(4)
      by (auto simp: GroupStatusHandler_def http_error_def writeJSON_def GetGroupStatus_def Let_def
          split: if_splits option.splits dest!: map_of_SomeD)
  qed
  show ?thesis using assms(3,4) agg route old
    by (auto simp: serve_def writeJSON_def HealthHandler_def ConfigHandler_def ListClusters_def GetAllGroupsAcrossClusters_def
        GetAllGroupsList_def ClusterReadyHandler_def http_error_def Let_def split: if_splits option.splits)
qed

section \<open>The configuration has one\<close>

definition floats_ok :: "f64 list \<Rightarrow> bool" where
  "floats_ok xs \<longleftrightarrow> (\<forall>x \<in> set xs. finite64 x \<and> is_f64 x)"

definition config_floats :: "AppConfig \<Rightarrow> f64 list" where
  "config_floats config =
     [ac_StalledConsumptionRate config, ac_RapidLagIncreaseRate config, ac_LagTrendThreshold config] @
     concat (map (\<lambda>c. case ck_Collector c of None \<Rightarrow> []
       | Some cfg \<Rightarrow> [cfg_StalledConsumptionRate cfg, cfg_RapidLagIncreaseRate cfg, cfg_LagTrendThreshold cfg]) (ac_Clusters config))"

lemma encodes_bind:
  "encodes k r \<Longrightarrow> (\<And>j. r = Inr j \<Longrightarrow> sound k j \<Longrightarrow> encodes n (f j)) \<Longrightarrow> encodes n (result_bind r f)"
  by (auto simp: encodes_ex)

lemma encodes_cluster_config:
  assumes "\<forall>cfg. ck_Collector c = Some cfg \<longrightarrow>
    floats_ok [cfg_StalledConsumptionRate cfg, cfg_RapidLagIncreaseRate cfg, cfg_LagTrendThreshold cfg]"
  shows "encodes 2 (cluster_config_json c)"
proof -
  have "encodes 1 (collector_config_json cfg)" if "ck_Collector c = Some cfg" for cfg
    using assms that unfolding collector_config_json_def floats_ok_def
    by (intro encodes_bind [where k = 0] encodes_float) simp_all
  then have "encodes 1 (case ck_Collector c of None \<Rightarrow> Inr JNull | Some cfg \<Rightarrow> collector_config_json cfg)"
    by (simp split: option.split)
  then show ?thesis unfolding cluster_config_json_def
    by (rule encodes_bind) (simp add: slice_json_def list_all_iff)
qed

lemma encodes_config:
  assumes "floats_ok (config_floats config)"
  shows "encodes 10 (config_json config)"
proof -
  have "encodes 2 (cluster_config_json c)" if "c \<in> set (ac_Clusters config)" for c
    using assms that by (intro encodes_cluster_config) (force simp: floats_ok_def config_floats_def)
  then obtain js where js: "list_result (map cluster_config_json (ac_Clusters config)) = Inr js" "list_all (sound 2) js"
    using encodes_list [of "ac_Clusters config" 2 cluster_config_json] by blast
  have "sound 9 (slice_json js)" using js(2) sound_mono [of 2 _ 8] by (auto simp: slice_json_def list_all_iff)
  moreover have "sound 9 (rca_config_json rca)" for rca by (simp add: rca_config_json_def Let_def)
  moreover have "sound 9 (slice_json (map JStr ss))" "sound 8 (slice_json (map JStr ss))" for ss
    by (simp_all add: slice_json_def list_all_iff)
  ultimately show ?thesis using assms unfolding config_json_def js(1) floats_ok_def config_floats_def
    by (intro encodes_bind [where k = 7] encodes_float) simp_all
qed

section \<open>Properties\<close>

text \<open>A cluster whose collector is new, or as its goroutine has left it.\<close>

definition collected :: "zone \<Rightarrow> CollectorCluster \<Rightarrow> bool" where
  "collected z cc \<longleftrightarrow> (\<exists>hook env order ticks cfg h cc0. cc_Collector cc0 = NewWithClient cfg h \<and>
     (cc = cc0 \<or> startClusterCollection hook env order ticks cc0 = Ret cc) \<and>
     0 \<le> cfg_WindowSize cfg \<and> cfg_WindowSize cfg < 2 ^ 63 \<and> (\<forall>t \<in> run_readings env ticks. shown z t))"

lemma collected_reportable:
  assumes "collected z cc"
  shows "store_reportable (shown z) (cc_Collector cc)"
proof -
  obtain hook env order ticks cfg h cc0 where cc0: "cc_Collector cc0 = NewWithClient cfg h"
    and run: "cc = cc0 \<or> startClusterCollection hook env order ticks cc0 = Ret cc"
    and ok: "0 \<le> cfg_WindowSize cfg" "cfg_WindowSize cfg < 2 ^ 63" "\<forall>t \<in> run_readings env ticks. shown z t"
    using assms unfolding collected_def by blast
  have "store_reportable (shown z) (NewWithClient cfg h)" by (simp add: store_reportable_def NewWithClient_def)
  moreover have "StartPeriodicCollection hook (cc_ClusterName cc0) env order ticks (NewWithClient cfg h) = Ret (cc_Collector cc)"
    if "startClusterCollection hook env order ticks cc0 = Ret cc"
    using that by (auto simp: startClusterCollection_def cc0 go_bind_Ret_iff)
  ultimately show ?thesis using run cc0 start_reportable [OF _ ok(1,2) _ ok(3)] unfolding shown_def by auto
qed


text \<open>A group without offsets, collected once, of the only cluster.\<close>

definition idle_env :: kafka_env where
  "idle_env = sample_env\<lparr>ke_Groups := Inr [''g''], ke_Offsets := \<lambda>i. Inr []\<rparr>"

lemma idle_run:
  "\<exists>c gs. StartPeriodicCollection None ''default'' idle_env [0] [] (NewWithClient dev_config (None :: EvaluatorWithRCA option)) = Ret c \<and>
     GetGroupStatus c ''g'' = Some gs \<and> gs_GroupID gs = ''g''"
  by (simp add: StartPeriodicCollection_def CollectMetricsWithCluster_def round_body_def idle_env_def sample_env_def Let_def
      collectGroupMetricsWithCluster_def zero_GroupStatus_def GetGroupStatus_def updateMetricsWithCluster_def
      NewWithClient_def dev_config_def second_def)

definition idle_manager :: "EvaluatorWithRCA option Collector \<Rightarrow> Manager" where
  "idle_manager c = (NewManager dev_config)\<lparr>mg_clusters := [(''default'',
     \<lparr>cc_ClusterName = ''default'', cc_Collector = c, cc_Config = sample_cluster ''default'', cc_LastError = None,
      cc_RCAPublisher = None\<rparr>)]\<rparr>"

lemma idle_times: "shown UTC (100 * second)"
  unfolding shown_def by code_simp


end
