(* ===== verification/Spec2Isabelle.thy ===== *)
theory Spec2Isabelle
  imports Pool Collector_Metrics Rca_Pipeline Rebalance Distributed_Config Config_Load Api_Json
begin

text \<open>
  Verification of LagRadar, a monitor of the lag of Kafka consumer groups.

  The program.  For every configured cluster the monitor (cmd/monitor) runs a collector.  In a
  round the collector lists the consumer groups with the Kafka client (pkg/kafka) and starts one
  goroutine per group; a goroutine reads offsets and high watermarks, adds them to sliding windows,
  asks the evaluator for the status, lag trend and health of every partition, calls the hook, and
  sends the group's status to the loop that stores it and updates the Prometheus metrics
  (internal/collector, internal/metrics).  The hook (internal/cluster/helper.go) hands the window to
  the analyzer, which turns changes of status and critical conditions into events, and the publisher
  adds these to a Redis stream, without duplicates within a window of time (internal/publisher).  The
  event consumer (cmd/rca, internal/rca/consumer) reads the stream and runs its handlers.  The manager
  (internal/cluster) keeps the clusters and their collectors, and the HTTP interface (internal/api)
  answers from it.  Independently, distributed/ assigns groups to several instances and keeps
  instances, assignments and windows in Redis.

  Theories, in the order of their imports.
  \<^item> Float64, Prelude, Go_Fmt: binary64 arithmetic with its rounding, Go's integers, durations, errors
    and panics as HOL types, number formatting, shared lemmas on lists and maps.
  \<^item> Go_Utf8, Go_Json, Go_Number, Go_Rfc3339, Go_Md5: the parts of Go's standard library that decide
    what one part of the program writes and another reads: UTF-8 and string literals, the JSON writer
    and reader, the shortest decimal of a float and its reader, instants in RFC 3339, MD5.  Lemmas:
    what is written is read back (json_parse_text, float_text_reads, rfc3339nano_reads).
  \<^item> Collector_Types, Evaluator: the data of internal/collector/collector.go and the methods of
    internal/collector/evaluator.go.  Lemmas: when exactly a partition is STOPPED and what must come
    before, what trend and slowness verdicts say about the true lags and rates, the accuracy of the
    floating-point results.
  \<^item> Windows: addToWindow, getWindowRecords, CleanupOldWindows.  The locale bounded_history is the
    contract of the windows: after any additions a key holds its last WindowSize records.
  \<^item> Metrics, Kafka_Client: the metric vectors; the client wrapper.
  \<^item> Collector, Collector_Round, Collector_Periodic: one partition, one group, one round and the
    periodic loop of internal/collector/collector.go.  The record Collector is the struct: the status
    map, the windows, the metric operations made so far and the state of the hook.  Lemmas: what a
    round computes for any order of the goroutines, the accounting of a group's partitions, the
    invariant of the periodic loop, the cleanup.
  \<^item> Collector_Metrics: every metric update fits its vector, and the gauges of the groups show what
    the status store holds.
  \<^item> Collector_Report: the rates and completeness a run stores are finite numbers, and its instants
    those the clock gave.
  \<^item> Pool: the same round as a step relation over the semaphore, the wait group, the results channel,
    the closing goroutine and the draining loop.  Lemmas: it refines the sequential round, ends, and
    never exceeds its limit.
  \<^item> Rca_Events, Publisher, Analyzer: internal/rca/events.go and config.go, internal/publisher, and the
    hook of internal/cluster/helper.go.  Lemmas: a publication adds its entry or nothing, duplicates
    are dropped, the publications of an evaluation are those of a reference definition, nothing is
    published for five minutes after an event.
  \<^item> Manager, Api: internal/cluster/manager.go as functions on the record Manager with lists of
    effects (goroutine started, context cancelled, clients closed); internal/api and the routes.
    Lemmas: every client is closed exactly once, the aggregated view, what the queries answer.
  \<^item> Api_Json: the text of every answer: the JSON of the statuses, of the handlers' own values and of
    the configuration.  Lemma: no answer is cut off or empty, and a reader finds the value in it.
  \<^item> Go_Decode, Event_Codec: json.Unmarshal into structs, slices, maps and interface values; reading an
    event, and its round trip.
  \<^item> Rca_Consumer: internal/rca/consumer.  Lemmas: what a batch acknowledges, what stays pending, that an
    event reaches the handlers as it was published.
  \<^item> Sharding, State_Store, Rebalance: distributed/coordinator/sharding.go (behind the locale
    sharding_strategy), distributed/state, and the composition of both; Distributed_Config: the other
    settings of distributed/distributed_configs.go.  Lemmas: every group has exactly one instance, stored windows and
    assignments are read back, when an instance counts as active, when assignments expire.
  \<^item> Commands, Config_Load: the two programs, with time.ParseDuration; finding and loading the
    configuration files, with os.ExpandEnv; the routes and the ways a program ends.  Lemmas: what the
    monitor starts and closes, how the event consumer ends.
  \<^item> Rca_Pipeline: collector, hook, analyzer and publisher composed.  The locales evaluation_hook (what
    a hook keeps, a round keeps) and event_sink (what publications keep, the analyzer keeps) are the
    interfaces between them; both are interpreted on the modelled parts.  Lemma: what a round adds to
    the streams, as the event consumer will read it.

  Conventions.  A result with an error is a sum, \<open>Inl\<close> the error; code that can panic
  gives a value of type \<open>go\<close>.  An int64 or int32 is a word, so that its arithmetic wraps.  A Go
  map is an association list with distinct keys, and no result depends on its order.  A mutex
  protects whole operations, which are therefore atomic; where goroutines interleave, in a round,
  the interleaving is explicit: as the order of the goroutines in Collector, step by step in Pool.

  Loops.  A loop over a slice is structural recursion.  The scan of instance keys stops after 100
  batches (MaxIterations), as the code does.  The periodic loop and the consumer's loop, which run
  until they are cancelled, take the events that reach them, or the number of batches.  The loop of
  time.ParseDuration takes the length of the text as fuel, which is enough because every part
  consumes a character (duration_fuel).  The JSON reader takes twice the length of the text plus one
  (read_value_fuel), the search for the shortest decimal as many digits as an exact one can have
  (shortest_reads).  The steps of a round are bounded by a measure (remaining).

  Parameters.  Kafka is the replies of one round (kafka_env) or of one call; every theorem holds for
  all replies unless it says otherwise.  Redis is a record of the commands a component sends, on a
  server state of any type; redis_laws, stream_laws and store_laws state the documented effect of
  these commands, failures included.  The decoding of a YAML text is a function; so is the
  consistent-hash ring, with ring_ok: it locates a key at a member.  Instants and random identifiers
  are arguments, as are the runtime figures of the health answer and what listening on the server's
  address does, and the location of a clock is its offset from UTC, with zone_ok where an instant is
  read back: it has no seconds and is less than a day.  Every theorem with
  such a hypothesis is applied to a concrete instance.

  Not modelled.  The text of log lines and of the metrics page, help texts and buckets of the metrics,
  command-line flags, which signal comes, sockets, YAML, the pauses between attempts, patterns of the
  HTTP multiplexer other than clean paths; tests, the end-to-end script and the deployment files.  All
  of these are input or output, libraries, or data without operations.
\<close>

end
